(* ===== verification/Tomb_Prelude.thy ===== *)
theory Tomb_Prelude
  imports Main "HOL-Library.Word" "HOL-Library.Char_ord" "HOL-Library.Sublist"
begin

text \<open>
  Shared vocabulary of the development: byte strings, C strings, decimal and hexadecimal
  text, the bounded drop-oldest buffer interface, and the generic lemmas on lists the
  component theories use. A \<open>std::string\<close> or \<open>std::string_view\<close> of the C++ code is a
  \<^typ>\<open>string\<close>, that is, a list of 8-bit \<^typ>\<open>char\<close>s (bytes, not code points).
\<close>

section \<open>Fact collections\<close>

named_theorems json_emit \<open>which fields a JSON-writer call appends\<close>
named_theorems json_shape \<open>token shapes of rendered JSON\<close>
named_theorems frame_simps \<open>record fields an operation leaves alone\<close>

section \<open>C strings\<close>

text \<open>
  A \<open>const char *\<close> argument is \<^const>\<open>None\<close> for \<open>nullptr\<close> and otherwise the bytes before
  the terminating NUL.
\<close>

type_synonym cstr = "string option"

definition cstr_blank :: "cstr \<Rightarrow> bool" where
  "cstr_blank p \<longleftrightarrow> p = None \<or> p = Some []"

definition cstr_or_empty :: "cstr \<Rightarrow> string" where
  "cstr_or_empty p = (case p of None \<Rightarrow> [] | Some s \<Rightarrow> s)"

lemma cstr_blank_simps [simp]:
  "cstr_blank None" "cstr_blank (Some s) \<longleftrightarrow> s = []"
  by (simp_all add: cstr_blank_def)

lemma cstr_or_empty_simps [simp]:
  "cstr_or_empty None = []" "cstr_or_empty (Some s) = s"
  by (simp_all add: cstr_or_empty_def)

lemma not_cstr_blankE:
  assumes "\<not> cstr_blank p"
  obtains s where "p = Some s" "s \<noteq> []"
  using assms by (cases p) auto

section \<open>The last elements of a list\<close>

definition last_n :: "nat \<Rightarrow> 'a list \<Rightarrow> 'a list" where
  "last_n n xs = drop (length xs - n) xs"

lemma length_last_n [simp]: "length (last_n n xs) = min n (length xs)"
  by (simp add: last_n_def)

lemma last_n_short [simp]: "length xs \<le> n \<Longrightarrow> last_n n xs = xs"
  by (simp add: last_n_def)

lemma last_n_append_last_n: "last_n n (last_n n xs @ ys) = last_n n (xs @ ys)"
  by (cases "length xs \<le> n") (simp_all add: last_n_def add.commute)

lemma last_n_snoc_full:
  "length xs = n \<Longrightarrow> 0 < n \<Longrightarrow> last_n n (xs @ [x]) = tl xs @ [x]"
  by (simp add: last_n_def drop_Suc)

lemma last_n_snoc_room: "length xs < n \<Longrightarrow> last_n n (xs @ [x]) = xs @ [x]"
  by simp

lemma suffix_last_n: "suffix (last_n n xs) xs"
  by (simp add: last_n_def suffix_drop)

lemma last_n_append_long: "n \<le> length ys \<Longrightarrow> last_n n (xs @ ys) = last_n n ys"
  by (simp add: last_n_def)

lemma set_last_n_subset: "set (last_n n xs) \<subseteq> set xs"
  by (simp add: last_n_def set_drop_subset)

section \<open>Bounded buffers that drop their oldest entry\<close>

text \<open>
  The interface the capture paths rely on: four buffers of the SDK (breadcrumb ring, batch,
  outbound queue, pre-init breadcrumbs) promise that a push appends and that the oldest entry
  goes first once \<open>cap\<close> is reached. The lemmas are proved once here and reach each buffer by
  an interpretation on its own operations.
\<close>

locale drop_oldest =
  fixes contents :: "'s \<Rightarrow> 'a list"
    and push :: "'a \<Rightarrow> 's \<Rightarrow> 's"
    and cap :: nat
    and ok :: "'s \<Rightarrow> bool"
  assumes contents_push: "ok s \<Longrightarrow> contents (push x s) = last_n cap (contents s @ [x])"
    and ok_push: "ok s \<Longrightarrow> ok (push x s)"
    and ok_bound: "ok s \<Longrightarrow> length (contents s) \<le> cap"
begin

lemma ok_fold: "ok s \<Longrightarrow> ok (fold push xs s)"
  by (induction xs arbitrary: s) (simp_all add: ok_push)

lemma contents_fold: "ok s \<Longrightarrow> contents (fold push xs s) = last_n cap (contents s @ xs)"
proof (induction xs arbitrary: s)
  case Nil
  then show ?case by (simp add: ok_bound)
next
  case (Cons x xs)
  then have "contents (fold push (x # xs) s) = last_n cap (contents (push x s) @ xs)"
    by (simp add: ok_push)
  also have "\<dots> = last_n cap ((contents s @ [x]) @ xs)"
    using Cons.prems by (simp only: contents_push last_n_append_last_n)
  finally show ?case by simp
qed

lemma fold_bound: "ok s \<Longrightarrow> length (contents (fold push xs s)) \<le> cap"
  by (simp add: contents_fold)

lemma nothing_lost:
  "ok s \<Longrightarrow> length (contents s) + length xs \<le> cap \<Longrightarrow>
    contents (fold push xs s) = contents s @ xs"
  by (simp add: contents_fold)

lemma newest_kept:
  assumes "ok s" "0 < cap"
  shows "contents (push x s) \<noteq> [] \<and> last (contents (push x s)) = x"
proof -
  have "last_n cap (contents s @ [x]) = drop (Suc (length (contents s)) - cap) (contents s) @ [x]"
    using assms(2) by (simp add: last_n_def)
  with assms(1) show ?thesis by (simp add: contents_push)
qed

lemma only_known: "ok s \<Longrightarrow> set (contents (push x s)) \<subseteq> insert x (set (contents s))"
  using set_last_n_subset [of cap "contents s @ [x]"] by (auto simp: contents_push)

end

section \<open>Character classes and digits\<close>

definition is_digit :: "char \<Rightarrow> bool" where
  "is_digit c \<longleftrightarrow> CHR ''0'' \<le> c \<and> c \<le> CHR ''9''"

definition digit_char :: "nat \<Rightarrow> char" where
  "digit_char n = char_of (48 + n)"

definition digit_val :: "char \<Rightarrow> nat" where
  "digit_val c = of_char c - 48"

lemma char_le_iff: "(c::char) \<le> d \<longleftrightarrow> (of_char c :: nat) \<le> of_char d"
  by (simp add: less_eq_char_def)

lemma is_digit_iff: "is_digit c \<longleftrightarrow> 48 \<le> (of_char c :: nat) \<and> (of_char c :: nat) \<le> 57"
  by (simp add: is_digit_def char_le_iff)

lemma of_char_less_256: "(of_char c :: nat) < 256"
  by (metis char.exhaust_sel of_char_def nat_of_char_less_256)

lemma of_char_digit_char: "n < 10 \<Longrightarrow> (of_char (digit_char n) :: nat) = 48 + n"
  by (simp add: digit_char_def)

lemma is_digit_digit_char [simp]: "n < 10 \<Longrightarrow> is_digit (digit_char n)"
  by (simp add: is_digit_iff of_char_digit_char)

lemma digit_val_digit_char [simp]: "n < 10 \<Longrightarrow> digit_val (digit_char n) = n"
  by (simp add: digit_val_def of_char_digit_char)

lemma digit_val_less: "is_digit c \<Longrightarrow> digit_val c < 10"
  by (auto simp: is_digit_iff digit_val_def)

section \<open>Decimal text\<close>

text \<open>\<open>std::to_string\<close> and \<open>%lld\<close> on an integer.\<close>

function dec_pos :: "int \<Rightarrow> string" where
  "dec_pos n = (if n < 10 then [digit_char (nat n)]
                else dec_pos (n div 10) @ [digit_char (nat (n mod 10))])"
  by pat_completeness auto
termination
  by (relation "measure nat") (auto simp: zless_nat_eq_int_zless)

declare dec_pos.simps [simp del]

definition dec_int :: "int \<Rightarrow> string" where
  "dec_int i = (if i < 0 then ''-'' @ dec_pos (- i) else dec_pos i)"

definition dec_nat :: "nat \<Rightarrow> string" where
  "dec_nat n = dec_pos (int n)"

text \<open>The value of a digit string, most significant digit first.\<close>

definition dec_val :: "string \<Rightarrow> int" where
  "dec_val s = foldl (\<lambda>v c. 10 * v + int (digit_val c)) 0 s"

lemma dec_val_Nil [simp]: "dec_val [] = 0"
  by (simp add: dec_val_def)

lemma dec_val_snoc [simp]: "dec_val (s @ [c]) = 10 * dec_val s + int (digit_val c)"
  by (simp add: dec_val_def)

lemma dec_pos_nonempty [simp]: "dec_pos n \<noteq> []"
  by (subst dec_pos.simps) simp

lemma dec_pos_digits: "0 \<le> n \<Longrightarrow> c \<in> set (dec_pos n) \<Longrightarrow> is_digit c"
proof (induction n rule: dec_pos.induct)
  case (1 n)
  then show ?case
    by (cases "n < 10") (auto simp: dec_pos.simps [of n] nat_less_iff)
qed

lemma dec_val_dec_pos [simp]: "0 \<le> n \<Longrightarrow> dec_val (dec_pos n) = n"
proof (induction n rule: dec_pos.induct)
  case (1 n)
  show ?case
  proof (cases "n < 10")
    case True
    with "1.prems" show ?thesis
      using dec_val_snoc [of "[]"] by (simp add: dec_pos.simps [of n] nat_less_iff)
  next
    case False
    with 1 show ?thesis by (simp add: dec_pos.simps [of n] nat_less_iff)
  qed
qed

lemma length_dec_pos: "0 \<le> n \<Longrightarrow> n < 10 ^ k \<Longrightarrow> 0 < k \<Longrightarrow> length (dec_pos n) \<le> k"
proof (induction n arbitrary: k rule: dec_pos.induct)
  case (1 n)
  show ?case
  proof (cases "n < 10")
    case True
    with "1.prems" show ?thesis by (simp add: dec_pos.simps [of n])
  next
    case False
    with "1.prems" obtain j where k: "k = Suc j" and "0 < j"
      by (cases k; cases "k - 1") auto
    moreover from "1.prems" k have "n div 10 < 10 ^ j" by auto
    ultimately have "length (dec_pos (n div 10)) \<le> j" using "1.IH" "1.prems" False by simp
    with False k show ?thesis by (simp add: dec_pos.simps [of n])
  qed
qed

lemma length_dec_pos_lower: "10 ^ k \<le> n \<Longrightarrow> Suc k \<le> length (dec_pos n)"
proof (induction n arbitrary: k rule: dec_pos.induct)
  case (1 n)
  show ?case
  proof (cases k)
    case 0
    then show ?thesis by (simp add: Suc_le_eq)
  next
    case (Suc j)
    with "1.prems" have le: "10 * 10 ^ j \<le> n" by simp
    moreover have "(1::int) \<le> 10 ^ j" by simp
    ultimately have "\<not> n < 10" by linarith
    moreover from le have "10 ^ j \<le> n div 10" by simp
    moreover note Suc
    ultimately show ?thesis using "1.IH" [of j] by (simp add: dec_pos.simps [of n])
  qed
qed

section \<open>Substring search\<close>

text \<open>
  \<open>s.find(pat, i)\<close> of \<open>std::string\<close>: the least position \<open>\<ge> i\<close> at which \<open>pat\<close> occurs,
  \<^const>\<open>None\<close> for \<open>npos\<close>.
\<close>

function find_from :: "string \<Rightarrow> string \<Rightarrow> nat \<Rightarrow> nat option" where
  "find_from pat s i =
    (if length s < i + length pat then None
     else if take (length pat) (drop i s) = pat then Some i
     else if length s \<le> i then None else find_from pat s (Suc i))"
  by pat_completeness auto
termination
  by (relation "measure (\<lambda>(pat, s, i). length s - i)") auto

declare find_from.simps [simp del]

lemma find_from_Some:
  "find_from pat s i = Some k \<Longrightarrow>
    i \<le> k \<and> k + length pat \<le> length s \<and> take (length pat) (drop k s) = pat"
proof (induction pat s i rule: find_from.induct)
  case (1 pat s i)
  then show ?case
    by (cases "length s < i + length pat"; cases "take (length pat) (drop i s) = pat")
      (auto simp: find_from.simps [of pat s i] split: if_splits)
qed

lemma find_from_least:
  "find_from pat s i = Some k \<Longrightarrow> i \<le> j \<Longrightarrow> j < k \<Longrightarrow> take (length pat) (drop j s) \<noteq> pat"
proof (induction pat s i rule: find_from.induct)
  case (1 pat s i)
  then show ?case
    by (cases "j = i") (auto simp: find_from.simps [of pat s i] split: if_splits)
qed

lemma find_from_None:
  "find_from pat s i = None \<Longrightarrow> i \<le> j \<Longrightarrow> j + length pat \<le> length s \<Longrightarrow>
    take (length pat) (drop j s) \<noteq> pat"
proof (induction pat s i rule: find_from.induct)
  case (1 pat s i)
  show ?case
  proof (cases "j = i")
    case True
    with "1.prems" show ?thesis
      by (auto simp: find_from.simps [of pat s i] split: if_splits)
  next
    case False
    show ?thesis
    proof (cases "length s \<le> i")
      case True
      with False "1.prems" show ?thesis by simp
    next
      case False
      with "1.prems" \<open>j \<noteq> i\<close> show ?thesis
        by (intro "1.IH") (auto simp: find_from.simps [of pat s i] split: if_splits)
    qed
  qed
qed

section \<open>Hexadecimal text\<close>

text \<open>The table \<open>"0123456789abcdef"\<close> the code indexes in several places.\<close>

definition hex_digits :: string where
  "hex_digits = ''0123456789abcdef''"

definition is_lower_hex :: "char \<Rightarrow> bool" where
  "is_lower_hex c \<longleftrightarrow> is_digit c \<or> CHR ''a'' \<le> c \<and> c \<le> CHR ''f''"

lemma length_hex_digits [simp]: "length hex_digits = 16"
  by (simp add: hex_digits_def)

lemma hex_digits_lower: "list_all is_lower_hex hex_digits"
  by (simp add: hex_digits_def is_lower_hex_def is_digit_def)

lemma is_lower_hex_nth [simp]: "n < 16 \<Longrightarrow> is_lower_hex (hex_digits ! n)"
  using hex_digits_lower by (auto simp: list_all_length)

end
