(* ===== verification/Ieee_Double.thy ===== *)
theory Ieee_Double
  imports Tomb_Prelude Complex_Main
begin

text \<open>
  The C++ type \<open>double\<close> as the sources use it: IEEE-754 binary64 with round-to-nearest-even,
  its comparisons, and the \<open>printf\<close> conversion \<open>%.17g\<close>. A finite double is a sign and an
  exact rational magnitude, so \<open>-0.0\<close> is distinct from \<open>0.0\<close>; every arithmetic operation
  computes the exact result and rounds it with \<open>round64\<close>.
\<close>

section \<open>Values and rounding\<close>

datatype double = NaN | Infinity bool | Finite bool rat

definition isfinite :: "double \<Rightarrow> bool" where
  "isfinite x = (case x of Finite _ _ \<Rightarrow> True | _ \<Rightarrow> False)"

fun dval :: "double \<Rightarrow> rat" where
  "dval (Finite neg m) = (if neg then - m else m)"
| "dval _ = 0"

lemma isfinite_simps [simp]:
  "isfinite (Finite s m)" "\<not> isfinite NaN" "\<not> isfinite (Infinity s)"
  by (simp_all add: isfinite_def)

definition round_half_even :: "rat \<Rightarrow> int" where
  "round_half_even q =
    (let f = \<lfloor>q\<rfloor>; r = q - of_int f in
     if r < 1 / 2 then f else if 1 / 2 < r then f + 1 else if even f then f else f + 1)"

text \<open>\<open>ilog b n\<close> is the exponent of the largest power of \<open>b\<close> not above \<open>n\<close>.\<close>

function ilog :: "int \<Rightarrow> int \<Rightarrow> int" where
  "ilog b n = (if b < 2 \<or> n < b then 0 else 1 + ilog b (n div b))"
  by pat_completeness auto
termination
proof (relation "measure (\<lambda>(b, n). nat n)")
  fix b n :: int
  assume "\<not> (b < 2 \<or> n < b)"
  then have "n div b < n" by (intro int_div_less_self) auto
  with \<open>\<not> (b < 2 \<or> n < b)\<close> show "((b, n div b), b, n) \<in> measure (\<lambda>(b, n). nat n)"
    by auto
qed simp

declare ilog.simps [simp del]

definition scale :: "int \<Rightarrow> int \<Rightarrow> rat" where
  "scale b e = (if 0 \<le> e then of_int (b ^ nat e) else 1 / of_int (b ^ nat (- e)))"

text \<open>The exponent of a positive rational: \<open>scale b e \<le> q < scale b (e + 1)\<close>.\<close>

definition expo :: "int \<Rightarrow> rat \<Rightarrow> int" where
  "expo b q = (let (n, d) = quotient_of q; e = ilog b n - ilog b d
               in if scale b e \<le> q then e else e - 1)"

text \<open>Round the magnitude \<open>q\<close> to 53 significant bits (fewer below the normal range).\<close>

definition round64 :: "bool \<Rightarrow> rat \<Rightarrow> double" where
  "round64 neg q =
    (if q = 0 then Finite neg 0
     else let e = max (expo 2 q) (-1022);
              ulp = scale 2 (e - 52);
              m = of_int (round_half_even (q / ulp)) * ulp
          in if scale 2 1024 \<le> m then Infinity neg else Finite neg m)"

definition round_signed :: "rat \<Rightarrow> double" where
  "round_signed q = round64 (q < 0) \<bar>q\<bar>"

definition double_of_int :: "int \<Rightarrow> double" where
  "double_of_int i = round_signed (of_int i)"

section \<open>Arithmetic and comparison\<close>

fun d_add :: "double \<Rightarrow> double \<Rightarrow> double" where
  "d_add NaN _ = NaN"
| "d_add _ NaN = NaN"
| "d_add (Infinity s) (Infinity t) = (if s = t then Infinity s else NaN)"
| "d_add (Infinity s) _ = Infinity s"
| "d_add _ (Infinity t) = Infinity t"
| "d_add (Finite s m) (Finite t k) =
     (let v = dval (Finite s m) + dval (Finite t k)
      in if v = 0 then Finite (s \<and> t) 0 else round_signed v)"

fun d_mul :: "double \<Rightarrow> double \<Rightarrow> double" where
  "d_mul NaN _ = NaN"
| "d_mul _ NaN = NaN"
| "d_mul (Infinity s) (Infinity t) = Infinity (s \<noteq> t)"
| "d_mul (Infinity s) (Finite t k) = (if k = 0 then NaN else Infinity (s \<noteq> t))"
| "d_mul (Finite s m) (Infinity t) = (if m = 0 then NaN else Infinity (s \<noteq> t))"
| "d_mul (Finite s m) (Finite t k) = round64 (s \<noteq> t) (m * k)"

fun d_div :: "double \<Rightarrow> double \<Rightarrow> double" where
  "d_div NaN _ = NaN"
| "d_div _ NaN = NaN"
| "d_div (Infinity s) (Infinity t) = NaN"
| "d_div (Infinity s) (Finite t k) = Infinity (s \<noteq> t)"
| "d_div (Finite s m) (Infinity t) = Finite (s \<noteq> t) 0"
| "d_div (Finite s m) (Finite t k) =
     (if k = 0 then (if m = 0 then NaN else Infinity (s \<noteq> t)) else round64 (s \<noteq> t) (m / k))"

fun d_less :: "double \<Rightarrow> double \<Rightarrow> bool" where
  "d_less NaN _ = False"
| "d_less _ NaN = False"
| "d_less (Infinity s) (Infinity t) = (s \<and> \<not> t)"
| "d_less (Infinity s) _ = s"
| "d_less _ (Infinity t) = (\<not> t)"
| "d_less x y = (dval x < dval y)"

fun d_le :: "double \<Rightarrow> double \<Rightarrow> bool" where
  "d_le NaN _ = False"
| "d_le _ NaN = False"
| "d_le x y = (\<not> d_less y x)"

definition d_zero :: double where "d_zero = Finite False 0"

text \<open>\<open>static_cast<long long>\<close> of a finite double in range: truncation towards zero.\<close>

definition d_trunc :: "double \<Rightarrow> int" where
  "d_trunc x = (let v = dval x in if v < 0 then - \<lfloor>- v\<rfloor> else \<lfloor>v\<rfloor>)"

lemma d_less_Finite [simp]: "d_less (Finite s m) (Finite t k) \<longleftrightarrow> dval (Finite s m) < dval (Finite t k)"
  by simp

lemma d_zero_simps [simp]: "isfinite d_zero" "dval d_zero = 0"
  by (simp_all add: d_zero_def)

lemma isfiniteE:
  assumes "isfinite x"
  obtains s m where "x = Finite s m"
  using assms by (cases x) auto

lemma d_less_finite: "isfinite x \<Longrightarrow> isfinite y \<Longrightarrow> d_less x y \<longleftrightarrow> dval x < dval y"
  by (auto elim!: isfiniteE)

lemma round64_sign: "round64 neg q = Finite s m \<Longrightarrow> s = neg"
  by (auto simp: round64_def Let_def split: if_splits)

lemma round_half_even_nonneg: "0 \<le> q \<Longrightarrow> 0 \<le> round_half_even q"
  by (auto simp: round_half_even_def Let_def)

lemma scale_pos: "0 < b \<Longrightarrow> 0 < scale b e"
  by (simp add: scale_def)

lemma round64_nonneg: "0 \<le> q \<Longrightarrow> round64 neg q = Finite s m \<Longrightarrow> 0 \<le> m"
  by (auto simp: round64_def Let_def scale_pos less_imp_le round_half_even_nonneg split: if_splits)

lemma round64_not_NaN [simp]: "round64 neg q \<noteq> NaN"
  by (simp add: round64_def Let_def)

section \<open>Bounds on rounding\<close>

lemma ilog_spec:
  assumes "2 \<le> b" "1 \<le> n"
  shows "0 \<le> ilog b n \<and> b ^ nat (ilog b n) \<le> n \<and> n < b ^ Suc (nat (ilog b n))"
  using assms
proof (induction b n rule: ilog.induct)
  case (1 b n)
  show ?case
  proof (cases "n < b")
    case True
    with "1.prems" show ?thesis by (simp add: ilog.simps [of b n])
  next
    case False
    with "1.prems" have "1 \<le> n div b" by (simp add: pos_imp_zdiv_pos_iff Suc_le_eq int_one_le_iff_zero_less)
    with 1 False have IH: "0 \<le> ilog b (n div b)" "b ^ nat (ilog b (n div b)) \<le> n div b"
      "n div b < b ^ Suc (nat (ilog b (n div b)))" by auto
    define k where "k = nat (ilog b (n div b))"
    have b: "0 < b" using "1.prems" by simp
    have "b * b ^ k \<le> b * (n div b)" using IH b by (simp add: k_def)
    also have "\<dots> \<le> n" using mult_div_mod_eq [of b n] pos_mod_sign [OF b, of n] by linarith
    finally have lo: "b ^ Suc k \<le> n" by simp
    have "n < b * (n div b + 1)" using mult_div_mod_eq [of b n] pos_mod_bound [OF b, of n]
      unfolding distrib_left by linarith
    also have "\<dots> \<le> b * b ^ Suc k" using IH b by (simp add: k_def)
    finally have "n < b ^ Suc (Suc k)" by simp
    moreover have "nat (ilog b n) = Suc k"
      using False "1.prems" IH by (simp add: ilog.simps [of b n] k_def nat_add_distrib)
    ultimately show ?thesis using False "1.prems" IH lo by (simp add: ilog.simps [of b n])
  qed
qed

lemma scale_power_int: "0 < b \<Longrightarrow> scale b e = power_int (of_int b) e"
  by (auto simp: scale_def power_int_def inverse_eq_divide power_one_over)

lemma scale_mono: "1 \<le> b \<Longrightarrow> e \<le> f \<Longrightarrow> scale b e \<le> scale b f"
  by (simp add: scale_power_int power_int_increasing)

lemma expo_lower:
  assumes "2 \<le> b" "0 < q"
  shows "scale b (expo b q) \<le> q"
proof -
  obtain n d where nd: "quotient_of q = (n, d)" by force
  then have d: "0 < d" and q: "q = of_int n / of_int d"
    by (auto dest: quotient_of_denom_pos quotient_of_div)
  with assms(2) have n: "1 \<le> n" by (simp add: zero_less_divide_iff)
  define j k where "j = ilog b n" and "k = ilog b d"
  have j: "0 \<le> j" "b ^ nat j \<le> n" and k: "0 \<le> k" "d < b ^ Suc (nat k)"
    using ilog_spec [OF assms(1) n] ilog_spec [OF assms(1), of d] d by (simp_all add: j_def k_def)
  show ?thesis
  proof (cases "scale b (j - k) \<le> q")
    case True
    then show ?thesis by (simp add: expo_def nd j_def k_def Let_def)
  next
    case False
    have b: "(0::rat) < of_int b" using assms by simp
    have "scale b (j - k - 1) = power_int (of_int b) j / power_int (of_int b) (k + 1)"
      using assms b by (simp add: scale_power_int diff_diff_eq flip: power_int_diff)
    also have "\<dots> = of_int (b ^ nat j) / of_int (b ^ Suc (nat k))"
      using j k by (simp add: power_int_def nat_add_distrib)
    also have "\<dots> \<le> of_int n / of_int d"
    proof (rule frac_le)
      show "(of_int (b ^ nat j) :: rat) \<le> of_int n" using j(2) by (simp only: of_int_le_iff)
      show "(of_int d :: rat) \<le> of_int (b ^ Suc (nat k))" using k(2) by (simp only: of_int_le_iff less_imp_le)
    qed (use n d in simp_all)
    finally have "scale b (j - k - 1) \<le> q" by (simp only: q)
    with False show ?thesis by (simp add: expo_def nd j_def k_def Let_def)
  qed
qed

lemma expo_upper:
  assumes "2 \<le> b" "0 < q"
  shows "q < scale b (expo b q + 1)"
proof -
  obtain n d where nd: "quotient_of q = (n, d)" by force
  then have d: "0 < d" and q: "q = of_int n / of_int d"
    by (auto dest: quotient_of_denom_pos quotient_of_div)
  with assms(2) have n: "1 \<le> n" by (simp add: zero_less_divide_iff)
  define j k where "j = ilog b n" and "k = ilog b d"
  have j: "0 \<le> j" "n < b ^ Suc (nat j)" and k: "0 \<le> k" "b ^ nat k \<le> d"
    using ilog_spec [OF assms(1) n] ilog_spec [OF assms(1), of d] d by (simp_all add: j_def k_def)
  show ?thesis
  proof (cases "scale b (j - k) \<le> q")
    case False
    then show ?thesis by (simp add: expo_def nd j_def k_def Let_def)
  next
    case True
    have b: "(0::rat) < of_int b" using assms by simp
    have "q < of_int (b ^ Suc (nat j)) / of_int (b ^ nat k)"
      unfolding q
    proof (rule frac_less)
      show "(of_int n :: rat) < of_int (b ^ Suc (nat j))" using j(2) by (simp only: of_int_less_iff)
      show "(of_int (b ^ nat k) :: rat) \<le> of_int d" using k(2) by (simp only: of_int_le_iff)
    qed (use n b in simp_all)
    also have "\<dots> = power_int (of_int b) (j + 1) / power_int (of_int b) k"
      using j k by (simp add: power_int_def nat_add_distrib)
    also have "\<dots> = scale b (j - k + 1)"
      using assms b by (simp add: scale_power_int algebra_simps flip: power_int_diff)
    finally show ?thesis using True by (simp add: expo_def nd j_def k_def Let_def)
  qed
qed

lemma scale_strict_mono: "2 \<le> b \<Longrightarrow> scale b e < scale b f \<Longrightarrow> e < f"
  using scale_mono [of b f e] by (cases "e < f") auto

lemma round_half_even_le: "of_int (round_half_even q) \<le> q + 1 / 2"
  using of_int_floor_le [of q] by (auto simp: round_half_even_def Let_def) linarith+

lemma round_half_even_ge1: "1 \<le> q \<Longrightarrow> 1 \<le> round_half_even q"
proof -
  assume "1 \<le> q"
  then have "1 \<le> \<lfloor>q\<rfloor>" by (simp add: le_floor_iff)
  then show ?thesis by (auto simp: round_half_even_def Let_def)
qed

text \<open>The unit in the last place used for \<open>q\<close> and its two bounds.\<close>

definition ulp_of :: "rat \<Rightarrow> rat" where
  "ulp_of q = scale 2 (max (expo 2 q) (- 1022) - 52)"

lemma ulp_of_pos: "0 < ulp_of q"
  by (simp add: ulp_of_def scale_pos)

lemma ulp_of_le:
  assumes "0 < q" "1 \<le> B" "q \<le> B"
  shows "ulp_of q \<le> B"
proof (cases "- 1022 \<le> expo 2 q")
  case True
  then have "ulp_of q \<le> scale 2 (expo 2 q)" by (auto simp: ulp_of_def intro!: scale_mono)
  also have "\<dots> \<le> q" using assms(1) by (intro expo_lower) simp_all
  finally show ?thesis using assms(3) by simp
next
  case False
  then have "ulp_of q \<le> scale 2 0" unfolding ulp_of_def by (intro scale_mono) simp_all
  with assms(2) show ?thesis by (simp add: scale_def)
qed

lemma round64_small:
  assumes "0 \<le> q" "q \<le> 2 ^ 1000"
  obtains m where "round64 neg q = Finite neg m" "0 \<le> m" "m \<le> 2 * max 1 q"
proof (cases "q = 0")
  case False
  then have q: "0 < q" using assms(1) by simp
  define m where "m = of_int (round_half_even (q / ulp_of q)) * ulp_of q"
  have "m \<le> (q / ulp_of q + 1 / 2) * ulp_of q"
    unfolding m_def using ulp_of_pos [of q] round_half_even_le by (intro mult_right_mono) simp_all
  also have "\<dots> = q + ulp_of q / 2" using ulp_of_pos [of q] by (simp add: field_simps)
  also have "\<dots> \<le> 2 * max 1 q" using ulp_of_le [OF q, of "max 1 q"] ulp_of_pos [of q] by simp
  finally have m: "m \<le> 2 * max 1 q" .
  also have "2 * max 1 q \<le> 2 * 2 ^ 1000" using assms(2) by simp
  also have "\<dots> < scale 2 1024" by (simp add: scale_def)
  finally have "round64 neg q = Finite neg m"
    using False by (simp add: round64_def Let_def m_def ulp_of_def)
  with m that round64_nonneg [OF assms(1) this] show thesis by blast
qed (use that in \<open>simp add: round64_def\<close>)

lemma round64_pos:
  assumes "1 \<le> q" "round64 neg q = Finite neg m"
  shows "0 < m"
proof -
  have "ulp_of q \<le> q" using assms(1) by (intro ulp_of_le) simp_all
  then have "1 \<le> q / ulp_of q" using ulp_of_pos [of q] by simp
  then have "1 \<le> round_half_even (q / ulp_of q)" by (rule round_half_even_ge1)
  then have "0 < of_int (round_half_even (q / ulp_of q)) * ulp_of q"
    using ulp_of_pos [of q] by (intro mult_pos_pos) simp_all
  with assms show ?thesis by (auto simp: round64_def Let_def ulp_of_def split: if_splits)
qed

text \<open>A bit pattern of the format: a magnitude that rounding leaves alone.\<close>

definition d_valid :: "double \<Rightarrow> bool" where
  "d_valid x = (case x of Finite s m \<Rightarrow> 0 \<le> m \<and> round64 s m = Finite s m | _ \<Rightarrow> True)"

text \<open>A non-zero magnitude of the format lies between the least subnormal and 2^1024.\<close>

lemma d_valid_range:
  assumes "d_valid (Finite s m)" "m \<noteq> 0"
  shows "scale 2 (- 1074) \<le> m" and "m < scale 2 1024"
proof -
  have r: "round64 s m = Finite s m" and m: "0 < m" using assms by (auto simp: d_valid_def)
  define k where "k = round_half_even (m / ulp_of m)"
  have eq: "m = of_int k * ulp_of m" and big: "m < scale 2 1024"
    using r assms(2) by (auto simp: round64_def Let_def ulp_of_def k_def split: if_splits)
  show "m < scale 2 1024" by (rule big)
  have "0 < k" using m ulp_of_pos [of m] by (subst (asm) eq) (simp add: zero_less_mult_iff)
  then have "1 * ulp_of m \<le> m"
    by (subst (2) eq) (intro mult_right_mono, use ulp_of_pos [of m] in simp_all)
  moreover have "scale 2 (- 1074) \<le> ulp_of m" unfolding ulp_of_def by (intro scale_mono) simp_all
  ultimately show "scale 2 (- 1074) \<le> m" by simp
qed

section \<open>printf \<open>%.17g\<close>\<close>

text \<open>Seventeen significant decimal digits of a positive rational and its decimal exponent.\<close>

definition dec17 :: "rat \<Rightarrow> int \<times> int" where
  "dec17 q = (let x = expo 10 q; d = round_half_even (q / scale 10 (x - 16))
              in if d = 10 ^ 17 then (x + 1, 10 ^ 16) else (x, d))"

definition strip_zeros :: "string \<Rightarrow> string" where
  "strip_zeros s = rev (dropWhile (\<lambda>c. c = CHR ''0'') (rev s))"

definition with_point :: "string \<Rightarrow> string \<Rightarrow> string \<Rightarrow> string" where
  "with_point point whole digits = (if digits = [] then whole else whole @ point @ digits)"

definition exp_text :: "int \<Rightarrow> string" where
  "exp_text x = (if x < 0 then ''e-'' else ''e+'') @
     (let d = dec_pos \<bar>x\<bar> in if length d < 2 then ''0'' @ d else d)"

text \<open>
  \<open>fmt17g point x\<close> is the text of \<open>x\<close> under \<open>%.17g\<close> when the process locale's decimal
  separator is \<open>point\<close>.
\<close>

definition fmt17g_pos :: "string \<Rightarrow> rat \<Rightarrow> string" where
  "fmt17g_pos point q =
    (let (x, d) = dec17 q; ds = dec_pos d in
     if x < -4 \<or> 17 \<le> x then with_point point (take 1 ds) (strip_zeros (drop 1 ds)) @ exp_text x
     else if 0 \<le> x then with_point point (take (nat x + 1) ds) (strip_zeros (drop (nat x + 1) ds))
     else with_point point ''0'' (replicate (nat (- x) - 1) CHR ''0'' @ strip_zeros ds))"

definition fmt17g :: "string \<Rightarrow> double \<Rightarrow> string" where
  "fmt17g point x =
    (case x of NaN \<Rightarrow> ''nan''
     | Infinity neg \<Rightarrow> (if neg then ''-inf'' else ''inf'')
     | Finite neg m \<Rightarrow> (if neg then ''-'' else []) @ (if m = 0 then ''0'' else fmt17g_pos point m))"

end
