(* ===== verification/Json_Writer.thy ===== *)
theory Json_Writer
  imports Ieee_Double
begin

text \<open>
  \<^verbatim>\<open>src/json_writer.cpp\<close>: string escaping, UTF-8-safe truncation and the streaming
  \<open>JsonWriter\<close>. The abstract side is a datatype \<open>json\<close> of documents with its rendering;
  the main lemmas show that a sequence of writer calls appends exactly the rendering of the
  fields it stands for (collection \<open>json_emit\<close>).
\<close>

unbundle bit_operations_syntax

section \<open>Escaping\<close>

definition nibble :: "nat \<Rightarrow> char" where
  "nibble n = hex_digits ! (n mod 16)"

text \<open>\<open>snprintf("\\u%04x")\<close> of a value below 65536.\<close>

definition unicode_escape :: "nat \<Rightarrow> string" where
  "unicode_escape n =
    [CHR 0x5C, CHR ''u'', nibble (n div 4096), nibble (n div 256), nibble (n div 16), nibble n]"

definition escape_char :: "char \<Rightarrow> string" where
  "escape_char c =
    (if c = CHR 0x22 then [CHR 0x5C, CHR 0x22]
     else if c = CHR 0x5C then [CHR 0x5C, CHR 0x5C]
     else if c = CHR 0x0A then [CHR 0x5C, CHR ''n'']
     else if c = CHR 0x0D then [CHR 0x5C, CHR ''r'']
     else if c = CHR 0x09 then [CHR 0x5C, CHR ''t'']
     else if c = CHR 0x08 then [CHR 0x5C, CHR ''b'']
     else if c = CHR 0x0C then [CHR 0x5C, CHR ''f'']
     else if (of_char c :: nat) < 32 then unicode_escape (of_char c)
     else [c])"

definition json_escape :: "string \<Rightarrow> string" where
  "json_escape s = concat (map escape_char s)"

lemma json_escape_simps [simp]:
  "json_escape [] = []"
  "json_escape (c # s) = escape_char c @ json_escape s"
  "json_escape (s @ t) = json_escape s @ json_escape t"
  by (simp_all add: json_escape_def)

section \<open>UTF-8-safe truncation\<close>

definition is_continuation :: "char \<Rightarrow> bool" where
  "is_continuation c \<longleftrightarrow> (of_char c :: 8 word) AND 0xC0 = 0x80"

text \<open>The loop \<open>while (end > 0 && (value[end] & 0xC0) == 0x80) --end;\<close>\<close>

fun back_off :: "string \<Rightarrow> nat \<Rightarrow> nat" where
  "back_off v 0 = 0"
| "back_off v (Suc e) = (if is_continuation (v ! Suc e) then back_off v e else Suc e)"

definition utf8_safe_truncate :: "string \<Rightarrow> nat \<Rightarrow> string" where
  "utf8_safe_truncate v max_bytes =
    (if length v \<le> max_bytes then v else take (back_off v max_bytes) v)"

lemma back_off_le: "back_off v e \<le> e"
  by (induction v e rule: back_off.induct) auto

lemma back_off_boundary: "back_off v e = 0 \<or> \<not> is_continuation (v ! back_off v e)"
  by (induction v e rule: back_off.induct) auto

lemma back_off_skipped: "back_off v e < i \<Longrightarrow> i \<le> e \<Longrightarrow> is_continuation (v ! i)"
proof (induction v e rule: back_off.induct)
  case (2 v e)
  then show ?case by (cases "i = Suc e") (auto split: if_splits)
qed simp

lemma truncate_length: "length (utf8_safe_truncate v n) \<le> n"
  using back_off_le [of v n] by (simp add: utf8_safe_truncate_def)

lemma truncate_prefix: "prefix (utf8_safe_truncate v n) v"
  by (simp add: utf8_safe_truncate_def take_is_prefix)

lemma truncate_short [simp]: "length v \<le> n \<Longrightarrow> utf8_safe_truncate v n = v"
  by (simp add: utf8_safe_truncate_def)

lemma truncate_Nil [simp]: "utf8_safe_truncate [] n = []"
  by simp

lemma truncate_truncate [simp]:
  "utf8_safe_truncate (utf8_safe_truncate v n) n = utf8_safe_truncate v n"
  by (simp add: truncate_length)

section \<open>The streaming writer\<close>

text \<open>
  The class state: the text so far and the stack of "needs a comma" flags, innermost scope
  (the back of the \<open>vector<bool>\<close>) at the head.
\<close>

record jwriter =
  jw_out :: string
  jw_commas :: "bool list"

definition json_writer :: jwriter where
  "json_writer = \<lparr>jw_out = [], jw_commas = []\<rparr>"

definition emit :: "string \<Rightarrow> jwriter \<Rightarrow> jwriter" where
  "emit t w = w\<lparr>jw_out := jw_out w @ t\<rparr>"

definition push_scope :: "jwriter \<Rightarrow> jwriter" where
  "push_scope w = w\<lparr>jw_commas := False # jw_commas w\<rparr>"

definition pop_scope :: "jwriter \<Rightarrow> jwriter" where
  "pop_scope w = (case jw_commas w of [] \<Rightarrow> w | _ # bs \<Rightarrow> w\<lparr>jw_commas := bs\<rparr>)"

definition element_prefix :: "jwriter \<Rightarrow> jwriter" where
  "element_prefix w =
    (case jw_commas w of [] \<Rightarrow> w
     | b # bs \<Rightarrow> (if b then emit '','' w else w)\<lparr>jw_commas := True # bs\<rparr>)"

definition quoted :: "string \<Rightarrow> string" where
  "quoted s = CHR 0x22 # json_escape s @ [CHR 0x22]"

definition name_prefix :: "string \<Rightarrow> jwriter \<Rightarrow> jwriter" where
  "name_prefix name w = emit (quoted name @ '':'') (element_prefix w)"

definition begin_object :: "jwriter \<Rightarrow> jwriter" where
  "begin_object w = push_scope (emit ''{'' (element_prefix w))"

definition begin_object_field :: "string \<Rightarrow> jwriter \<Rightarrow> jwriter" where
  "begin_object_field name w = push_scope (emit ''{'' (name_prefix name w))"

definition begin_array :: "string \<Rightarrow> jwriter \<Rightarrow> jwriter" where
  "begin_array name w = push_scope (emit ''['' (name_prefix name w))"

definition end_object :: "jwriter \<Rightarrow> jwriter" where
  "end_object w = pop_scope (emit ''}'' w)"

definition end_array :: "jwriter \<Rightarrow> jwriter" where
  "end_array w = pop_scope (emit '']'' w)"

definition string_field :: "string \<Rightarrow> string \<Rightarrow> jwriter \<Rightarrow> jwriter" where
  "string_field name v w = emit (quoted v) (name_prefix name w)"

definition bool_field :: "string \<Rightarrow> bool \<Rightarrow> jwriter \<Rightarrow> jwriter" where
  "bool_field name v w = emit (if v then ''true'' else ''false'') (name_prefix name w)"

text \<open>
  \<open>number_field\<close> prints with \<open>%.17g\<close> into a 40-byte buffer and puts the \<open>'.'\<close> back where the
  process locale's separator \<open>dp\<close> (\<open>localeconv()->decimal_point\<close>) stands.
\<close>

definition number_text :: "string \<Rightarrow> double \<Rightarrow> string" where
  "number_text dp v =
    (let buffer = take 39 (fmt17g dp v) in
     if dp \<noteq> [] \<and> dp \<noteq> ''.''
     then (case find_from dp buffer 0 of
             Some pos \<Rightarrow> take pos buffer @ ''.'' @ drop (pos + length dp) buffer
           | None \<Rightarrow> buffer)
     else buffer)"

definition number_field :: "string \<Rightarrow> string \<Rightarrow> double \<Rightarrow> jwriter \<Rightarrow> jwriter" where
  "number_field dp name v w = emit (number_text dp v) (name_prefix name w)"

definition int_field :: "string \<Rightarrow> int \<Rightarrow> jwriter \<Rightarrow> jwriter" where
  "int_field name v w = emit (dec_int v) (name_prefix name w)"

definition raw_element :: "string \<Rightarrow> jwriter \<Rightarrow> jwriter" where
  "raw_element raw w = emit raw (element_prefix w)"

definition raw_field :: "string \<Rightarrow> string \<Rightarrow> jwriter \<Rightarrow> jwriter" where
  "raw_field name raw w = emit raw (name_prefix name w)"

text \<open>A block of statements on one writer, in order.\<close>

fun calls :: "(jwriter \<Rightarrow> jwriter) list \<Rightarrow> jwriter \<Rightarrow> jwriter" where
  "calls [] w = w"
| "calls (f # fs) w = calls fs (f w)"

lemma calls_append [simp]: "calls (fs @ gs) w = calls gs (calls fs w)"
  by (induction fs arbitrary: w) auto

section \<open>Documents\<close>

text \<open>
  \<open>JLit\<close> is text that needs no quoting: a number, \<open>true\<close>, \<open>false\<close>, or an already serialised
  value spliced verbatim.
\<close>

datatype json = JStr string | JLit string | JObj "(string \<times> json) list" | JArr "json list"

definition JBool :: "bool \<Rightarrow> json" where
  "JBool b = JLit (if b then ''true'' else ''false'')"

definition JInt :: "int \<Rightarrow> json" where
  "JInt i = JLit (dec_int i)"

fun render :: "json \<Rightarrow> string"
  and fields_text :: "bool \<Rightarrow> (string \<times> json) list \<Rightarrow> string"
  and elems_text :: "bool \<Rightarrow> json list \<Rightarrow> string" where
  "render (JStr s) = quoted s"
| "render (JLit t) = t"
| "render (JObj kvs) = ''{'' @ fields_text False kvs @ ''}''"
| "render (JArr js) = ''['' @ elems_text False js @ '']''"
| "fields_text c [] = []"
| "fields_text c ((k, v) # kvs) =
     (if c then '','' else []) @ quoted k @ '':'' @ render v @ fields_text True kvs"
| "elems_text c [] = []"
| "elems_text c (j # js) = (if c then '','' else []) @ render j @ elems_text True js"

lemma fields_text_append:
  "fields_text c (F @ G) = fields_text c F @ fields_text (c \<or> F \<noteq> []) G"
  by (induction F arbitrary: c) auto

lemma elems_text_append:
  "elems_text c (F @ G) = elems_text c F @ elems_text (c \<or> F \<noteq> []) G"
  by (induction F arbitrary: c) auto

section \<open>What a writer call appends\<close>

text \<open>
  \<open>emits f F\<close>: inside an open scope, \<open>f\<close> appends exactly the fields \<open>F\<close>, with the commas
  JSON wants, and leaves every enclosing scope alone. \<open>emits_elems\<close> is the same for array
  elements.
\<close>

definition emits :: "(jwriter \<Rightarrow> jwriter) \<Rightarrow> (string \<times> json) list \<Rightarrow> bool" where
  "emits f F \<longleftrightarrow> (\<forall>t b bs. f \<lparr>jw_out = t, jw_commas = b # bs\<rparr> =
     \<lparr>jw_out = t @ fields_text b F, jw_commas = (b \<or> F \<noteq> []) # bs\<rparr>)"

definition emits_elems :: "(jwriter \<Rightarrow> jwriter) \<Rightarrow> json list \<Rightarrow> bool" where
  "emits_elems f js \<longleftrightarrow> (\<forall>t b bs. f \<lparr>jw_out = t, jw_commas = b # bs\<rparr> =
     \<lparr>jw_out = t @ elems_text b js, jw_commas = (b \<or> js \<noteq> []) # bs\<rparr>)"

lemmas writer_defs =
  emit_def push_scope_def pop_scope_def element_prefix_def name_prefix_def begin_object_def
  begin_object_field_def begin_array_def end_object_def end_array_def string_field_def
  bool_field_def number_field_def int_field_def raw_element_def raw_field_def

lemma emits_string [json_emit]: "emits (string_field n v) [(n, JStr v)]"
  by (simp add: emits_def writer_defs)

lemma emits_bool [json_emit]: "emits (bool_field n v) [(n, JBool v)]"
  by (simp add: emits_def writer_defs JBool_def)

lemma emits_number [json_emit]: "emits (number_field dp n v) [(n, JLit (number_text dp v))]"
  by (simp add: emits_def writer_defs)

lemma emits_int [json_emit]: "emits (int_field n v) [(n, JInt v)]"
  by (simp add: emits_def writer_defs JInt_def)

lemma emits_raw [json_emit]: "emits (raw_field n t) [(n, JLit t)]"
  by (simp add: emits_def writer_defs)

lemma emits_skip [json_emit]: "emits (\<lambda>w. w) []"
  by (simp add: emits_def)

lemma emits_if [json_emit]:
  "emits f F \<Longrightarrow> emits g G \<Longrightarrow> emits (if c then f else g) (if c then F else G)"
  by simp

lemma emits_elem_raw [json_emit]: "emits_elems (raw_element t) [JLit t]"
  by (simp add: emits_elems_def writer_defs)

lemma emits_calls_Nil [json_emit]: "emits (calls []) []"
  by (simp add: emits_def)

lemma emits_calls_Cons [json_emit]:
  "emits f F \<Longrightarrow> emits (calls fs) G \<Longrightarrow> emits (calls (f # fs)) (F @ G)"
  by (simp add: emits_def fields_text_append disj_assoc)

lemma emits_calls_map:
  assumes "\<And>x. x \<in> set xs \<Longrightarrow> emits (f x) (F x)"
  shows "emits (calls (map f xs)) (concat (map F xs))"
  using assms by (induction xs) (simp_all add: emits_calls_Nil emits_calls_Cons)

lemma emits_elems_calls_map:
  assumes "\<And>x. x \<in> set xs \<Longrightarrow> emits_elems (f x) [F x]"
  shows "emits_elems (calls (map f xs)) (map F xs)"
  using assms
proof (induction xs)
  case Nil
  then show ?case by (simp add: emits_elems_def)
next
  case (Cons x xs)
  then have "emits_elems (f x) [F x]" "emits_elems (calls (map f xs)) (map F xs)" by auto
  then show ?case by (simp add: emits_elems_def)
qed

lemma emits_object_field [json_emit]:
  "emits (calls fs) F \<Longrightarrow>
    emits (calls ([begin_object_field n] @ fs @ [end_object])) [(n, JObj F)]"
  by (simp add: emits_def writer_defs)

lemma emits_array_field [json_emit]:
  "emits_elems (calls fs) js \<Longrightarrow>
    emits (calls ([begin_array n] @ fs @ [end_array])) [(n, JArr js)]"
  by (simp add: emits_def emits_elems_def writer_defs)

lemma emits_object_elem [json_emit]:
  "emits (calls fs) F \<Longrightarrow> emits_elems (calls ([begin_object] @ fs @ [end_object])) [JObj F]"
  by (simp add: emits_def emits_elems_def writer_defs)

text \<open>A whole document: \<open>begin_object\<close>, the fields, \<open>end_object\<close>, \<open>str()\<close>.\<close>

definition document :: "(jwriter \<Rightarrow> jwriter) list \<Rightarrow> string" where
  "document fs = jw_out (calls ([begin_object] @ fs @ [end_object]) json_writer)"

lemma document_render: "emits (calls fs) F \<Longrightarrow> document fs = render (JObj F)"
  by (simp add: document_def emits_def json_writer_def writer_defs)

end
