(* ===== verification/Json_Scan.thy ===== *)
theory Json_Scan
  imports Json_Writer
begin

text \<open>
  \<^verbatim>\<open>src/json_scan.cpp\<close>: the forward scanners that read back the few JSON values the SDK
  needs (session marker, restored sidecars, ingest responses, heartbeat acks). The cursors are
  the code's indices into the text. The second half relates the scanners to documents that the
  writer of \<open>Json_Writer\<close> renders.
\<close>

section \<open>Locating a value\<close>

definition is_ws :: "char \<Rightarrow> bool" where
  "is_ws c \<longleftrightarrow> c = CHR '' '' \<or> c = CHR 0x09 \<or> c = CHR 0x0A \<or> c = CHR 0x0D"

function skip_ws :: "string \<Rightarrow> nat \<Rightarrow> nat" where
  "skip_ws s i = (if i < length s \<and> is_ws (s ! i) then skip_ws s (Suc i) else i)"
  by pat_completeness auto
termination
  by (relation "measure (\<lambda>(s, i). length s - i)") auto

declare skip_ws.simps [simp del]

definition quote_key :: "string \<Rightarrow> string" where
  "quote_key key = CHR 0x22 # key @ [CHR 0x22]"

text \<open>The search loop of \<open>find_value_start\<close>, from position \<open>i\<close>.\<close>

function value_start_from :: "string \<Rightarrow> string \<Rightarrow> nat \<Rightarrow> nat option" where
  "value_start_from s key i =
    (case find_from (quote_key key) s i of
       None \<Rightarrow> None
     | Some p \<Rightarrow>
         (let cursor = skip_ws s (p + length (quote_key key)) in
          if cursor < length s \<and> s ! cursor = CHR '':'' then Some (skip_ws s (Suc cursor))
          else value_start_from s key (p + length (quote_key key))))"
  by pat_completeness auto
termination
proof (relation "measure (\<lambda>(s, key, i). length s - i)")
  fix s key i p cursor
  assume "find_from (quote_key key) s i = Some p"
  then show "((s, key, p + length (quote_key key)), s, key, i) \<in> measure (\<lambda>(s, key, i). length s - i)"
    using find_from_Some [of "quote_key key" s i p] by (auto simp: quote_key_def)
qed simp

declare value_start_from.simps [simp del]

definition find_value_start :: "string \<Rightarrow> string \<Rightarrow> nat option" where
  "find_value_start s key = value_start_from s key 0"

section \<open>Reading a string\<close>

definition append_utf8 :: "nat \<Rightarrow> string" where
  "append_utf8 cp =
    (if cp < 0x80 then [char_of cp]
     else if cp < 0x800 then
       [char_of (0xC0 OR drop_bit 6 cp), char_of (0x80 OR (cp AND 0x3F))]
     else
       [char_of (0xE0 OR drop_bit 12 cp), char_of (0x80 OR (drop_bit 6 cp AND 0x3F)),
        char_of (0x80 OR (cp AND 0x3F))])"

definition hex_value :: "char \<Rightarrow> int" where
  "hex_value c =
    (if CHR ''0'' \<le> c \<and> c \<le> CHR ''9'' then of_char c - 48
     else if CHR ''a'' \<le> c \<and> c \<le> CHR ''f'' then of_char c - 97 + 10
     else if CHR ''A'' \<le> c \<and> c \<le> CHR ''F'' then of_char c - 65 + 10
     else -1)"

text \<open>The four digits of a \<open>\u\<close> escape at \<open>cursor\<close>.\<close>

definition code_point_at :: "string \<Rightarrow> nat \<Rightarrow> nat option" where
  "code_point_at s cursor =
    (let ds = map (\<lambda>i. hex_value (s ! (cursor + i))) [0, 1, 2, 3] in
     if list_ex (\<lambda>d. d < 0) ds then None
     else Some (foldl (\<lambda>v d. v * 16 + nat d) 0 ds))"

text \<open>
  One escape: the bytes it appends and the cursor after it, for the escape letter \<open>e\<close> with the
  cursor just past it.
\<close>

definition unescape :: "string \<Rightarrow> nat \<Rightarrow> char \<Rightarrow> (string \<times> nat) option" where
  "unescape s cursor e =
    (if e = CHR 0x22 then Some ([CHR 0x22], cursor)
     else if e = CHR 0x5C then Some ([CHR 0x5C], cursor)
     else if e = CHR ''/'' then Some (''/'', cursor)
     else if e = CHR ''n'' then Some ([CHR 0x0A], cursor)
     else if e = CHR ''r'' then Some ([CHR 0x0D], cursor)
     else if e = CHR ''t'' then Some ([CHR 0x09], cursor)
     else if e = CHR ''b'' then Some ([CHR 0x08], cursor)
     else if e = CHR ''f'' then Some ([CHR 0x0C], cursor)
     else if e = CHR ''u'' then
       (if length s < cursor + 4 then None
        else case code_point_at s cursor of
               None \<Rightarrow> None
             | Some cp \<Rightarrow> Some (append_utf8 cp, cursor + 4))
     else None)"

lemma unescape_cursor: "unescape s i e = Some (t, j) \<Longrightarrow> i \<le> j"
  by (auto simp: unescape_def split: if_splits option.splits)

function read_loop :: "string \<Rightarrow> nat \<Rightarrow> string \<Rightarrow> (string \<times> nat) option" where
  "read_loop s cursor out =
    (if length s \<le> cursor then None
     else if s ! cursor = CHR 0x22 then Some (out, Suc cursor)
     else if (of_char (s ! cursor) :: nat) < 0x20 then None
     else if s ! cursor \<noteq> CHR 0x5C then read_loop s (Suc cursor) (out @ [s ! cursor])
     else if length s \<le> Suc cursor then None
     else case unescape s (cursor + 2) (s ! Suc cursor) of
            None \<Rightarrow> None
          | Some (t, j) \<Rightarrow> read_loop s j (out @ t))"
  by pat_completeness auto
termination
proof (relation "measure (\<lambda>(s, cursor, out). length s - cursor)")
  fix s :: string and cursor :: nat and out t :: string and x j
  assume "\<not> length s \<le> cursor" "unescape s (cursor + 2) (s ! Suc cursor) = Some x" "(t, j) = x"
  then show "((s, j, out @ t), s, cursor, out) \<in> measure (\<lambda>(s, cursor, out). length s - cursor)"
    using unescape_cursor [of s "cursor + 2" "s ! Suc cursor" t j] by auto
qed auto

declare read_loop.simps [simp del]

text \<open>The value and the position after the closing quote (the code's \<open>*after\<close>).\<close>

definition read_string :: "string \<Rightarrow> nat \<Rightarrow> (string \<times> nat) option" where
  "read_string s i =
    (if length s \<le> i \<or> s ! i \<noteq> CHR 0x22 then None else read_loop s (Suc i) [])"

section \<open>Scalar fields\<close>

definition find_string_field :: "string \<Rightarrow> string \<Rightarrow> string option" where
  "find_string_field s key =
    (case find_value_start s key of
       None \<Rightarrow> None
     | Some i \<Rightarrow> map_option fst (read_string s i))"

definition find_bool_field :: "string \<Rightarrow> string \<Rightarrow> bool option" where
  "find_bool_field s key =
    (case find_value_start s key of
       None \<Rightarrow> None
     | Some i \<Rightarrow>
         if take 4 (drop i s) = ''true'' then Some True
         else if take 5 (drop i s) = ''false'' then Some False
         else None)"

text \<open>The digit loop, bounded at \<open>max_digits = 18\<close>; 18 digits stay inside \<open>long long\<close>.\<close>

function int_digits :: "string \<Rightarrow> nat \<Rightarrow> int \<Rightarrow> nat \<Rightarrow> int \<times> nat \<times> nat" where
  "int_digits s cursor v digits =
    (if cursor < length s \<and> is_digit (s ! cursor) \<and> digits < 18
     then int_digits s (Suc cursor) (v * 10 + int (digit_val (s ! cursor))) (Suc digits)
     else (v, cursor, digits))"
  by pat_completeness auto
termination
  by (relation "measure (\<lambda>(s, cursor, v, digits). length s - cursor)") auto

declare int_digits.simps [simp del]

definition find_int_field :: "string \<Rightarrow> string \<Rightarrow> int option" where
  "find_int_field s key =
    (case find_value_start s key of
       None \<Rightarrow> None
     | Some i \<Rightarrow>
         if length s \<le> i then None
         else
           let negative = (s ! i = CHR ''-'');
               (v, cursor, digits) = int_digits s (if negative then Suc i else i) 0 0
           in if digits = 0 then None
              else if cursor < length s \<and>
                      (s ! cursor = CHR ''.'' \<or> s ! cursor = CHR ''e'' \<or> s ! cursor = CHR ''E'' \<or>
                       is_digit (s ! cursor)) then None
              else Some (if negative then - v else v))"

section \<open>Objects\<close>

text \<open>
  The brace matcher of \<open>find_object_field\<close>: position, depth and string flag when the loop
  stops. The first character is \<open>'{'\<close>, so the depth is positive at every \<open>'}'\<close> it meets.
\<close>

function object_end :: "string \<Rightarrow> nat \<Rightarrow> nat \<Rightarrow> bool \<Rightarrow> nat \<times> nat \<times> bool" where
  "object_end s i depth in_string =
    (if length s \<le> i then (i, depth, in_string)
     else if in_string then
       (if s ! i = CHR 0x5C then object_end s (i + 2) depth True
        else object_end s (Suc i) depth (s ! i \<noteq> CHR 0x22))
     else if s ! i = CHR 0x22 then object_end s (Suc i) depth True
     else if s ! i = CHR ''{'' then object_end s (Suc i) (Suc depth) False
     else if s ! i = CHR ''}'' then
       (if depth - 1 = 0 then (Suc i, 0, False) else object_end s (Suc i) (depth - 1) False)
     else object_end s (Suc i) depth False)"
  by pat_completeness auto
termination
  by (relation "measure (\<lambda>(s, i, depth, q). length s - i)") auto

declare object_end.simps [simp del]

definition find_object_field :: "string \<Rightarrow> string \<Rightarrow> string option" where
  "find_object_field s key =
    (case find_value_start s key of
       None \<Rightarrow> None
     | Some i \<Rightarrow>
         if length s \<le> i \<or> s ! i \<noteq> CHR ''{'' then None
         else
           let (e, depth, in_string) = object_end s i 0 False
           in if depth \<noteq> 0 \<or> in_string then None else Some (take (e - i) (drop i s)))"

definition find_log_upload_url :: "string \<Rightarrow> string option" where
  "find_log_upload_url body =
    (case find_object_field body ''logUpload'' of
       None \<Rightarrow> None
     | Some obj \<Rightarrow> find_string_field obj ''url'')"

section \<open>The presigned upload descriptor\<close>

record log_upload =
  lu_url :: string
  lu_method :: string
  lu_fields :: "(string \<times> string) list"

definition field_name_char :: "char \<Rightarrow> bool" where
  "field_name_char c \<longleftrightarrow>
    c \<in> set ''abcdefghijklmnopqrstuvwxyzABCDEFGHIJKLMNOPQRSTUVWXYZ0123456789_.-''"

definition field_name_ok :: "string \<Rightarrow> bool" where
  "field_name_ok name \<longleftrightarrow>
    name \<noteq> [] \<and> length name \<le> 128 \<and> name \<noteq> ''file'' \<and> list_all field_name_char name"

text \<open>The \<open>for (;;)\<close> loop over the \<open>fields\<close> object; the field cap bounds its iterations.\<close>

function upload_fields ::
    "string \<Rightarrow> nat \<Rightarrow> (string \<times> string) list \<Rightarrow> (string \<times> string) list option" where
  "upload_fields f cursor acc =
    (case read_string f (skip_ws f cursor) of
       None \<Rightarrow> None
     | Some (name, c1) \<Rightarrow>
         if \<not> field_name_ok name then None
         else if length f \<le> skip_ws f c1 \<or> f ! skip_ws f c1 \<noteq> CHR '':'' then None
         else case read_string f (skip_ws f (Suc (skip_ws f c1))) of
                None \<Rightarrow> None
              | Some (v, c4) \<Rightarrow>
                  if 16384 < length v \<or> 32 \<le> length acc then None
                  else if list_ex (\<lambda>entry. fst entry = name) acc then None
                  else if length f \<le> skip_ws f c4 then None
                  else if f ! skip_ws f c4 = CHR ''}'' then Some (acc @ [(name, v)])
                  else if f ! skip_ws f c4 \<noteq> CHR '','' then None
                  else upload_fields f (Suc (skip_ws f c4)) (acc @ [(name, v)]))"
  by pat_completeness auto
termination
  by (relation "measure (\<lambda>(f, cursor, acc). 32 - length acc)") auto

declare upload_fields.simps [simp del]

definition find_log_upload :: "string \<Rightarrow> log_upload option" where
  "find_log_upload body =
    (if 128 * 1024 < length body then None
     else case find_object_field body ''logUpload'' of
            None \<Rightarrow> None
          | Some obj \<Rightarrow>
              let url = (case find_string_field obj ''url'' of None \<Rightarrow> [] | Some u \<Rightarrow> u);
                  m = (case find_string_field obj ''method'' of None \<Rightarrow> [] | Some u \<Rightarrow> u)
              in if url = [] then None
                 else if m = ''PUT'' then Some \<lparr>lu_url = url, lu_method = m, lu_fields = []\<rparr>
                 else if m \<noteq> ''POST'' then None
                 else case find_object_field obj ''fields'' of
                        None \<Rightarrow> None
                      | Some f \<Rightarrow>
                          map_option (\<lambda>fs. \<lparr>lu_url = url, lu_method = m, lu_fields = fs\<rparr>)
                            (upload_fields f 1 []))"

section \<open>Pending pull requests\<close>

record pull_request =
  pr_request_id :: string
  pr_target_type :: string
  pr_target_value :: string
  pr_fulfill_nonce :: string
  pr_nonce_expiry :: int

definition string_or_empty :: "string \<Rightarrow> string \<Rightarrow> string" where
  "string_or_empty obj key = (case find_string_field obj key of None \<Rightarrow> [] | Some v \<Rightarrow> v)"

definition request_of_object :: "string \<Rightarrow> pull_request" where
  "request_of_object obj =
    \<lparr>pr_request_id = string_or_empty obj ''requestId'',
     pr_target_type = string_or_empty obj ''targetType'',
     pr_target_value = string_or_empty obj ''targetValue'',
     pr_fulfill_nonce = string_or_empty obj ''fulfillNonce'',
     pr_nonce_expiry = (case find_int_field obj ''nonceExpiry'' of None \<Rightarrow> 0 | Some n \<Rightarrow> n)\<rparr>"

text \<open>
  The array walk: position, object depth, string flag, start of the current object
  (\<open>npos\<close> is \<^const>\<open>None\<close>) and the requests so far.
\<close>

function pending_loop ::
    "string \<Rightarrow> nat \<Rightarrow> nat \<Rightarrow> bool \<Rightarrow> nat option \<Rightarrow> pull_request list \<Rightarrow> pull_request list" where
  "pending_loop s i depth in_string start out =
    (if length s \<le> i then out
     else if in_string then
       (if s ! i = CHR 0x5C then pending_loop s (i + 2) depth True start out
        else pending_loop s (Suc i) depth (s ! i \<noteq> CHR 0x22) start out)
     else if s ! i = CHR 0x22 then pending_loop s (Suc i) depth True start out
     else if s ! i = CHR ''{'' then
       pending_loop s (Suc i) (Suc depth) False (if depth = 0 then Some i else start) out
     else if s ! i = CHR ''}'' then
       (if 0 < depth then
          (if depth - 1 = 0 then
             (case start of
                None \<Rightarrow> pending_loop s (Suc i) 0 False None out
              | Some k \<Rightarrow>
                  (let out' = out @ [request_of_object (take (i - k + 1) (drop k s))]
                   in if 32 \<le> length out' then out'
                      else pending_loop s (Suc i) 0 False None out'))
           else pending_loop s (Suc i) (depth - 1) False start out)
        else pending_loop s (Suc i) depth False start out)
     else if s ! i = CHR '']'' \<and> depth = 0 then out
     else pending_loop s (Suc i) depth False start out)"
  by pat_completeness auto
termination
  by (relation "measure (\<lambda>(s, i, d, q, st, out). length s - i)") auto

declare pending_loop.simps [simp del]

definition find_pending_requests :: "string \<Rightarrow> pull_request list" where
  "find_pending_requests body =
    (case find_value_start body ''pendingRequests'' of
       None \<Rightarrow> []
     | Some i \<Rightarrow>
         if length body \<le> i \<or> body ! i \<noteq> CHR ''['' then []
         else pending_loop body i 0 False None [])"

end
