(* ===== verification/Json_Roundtrip.thy ===== *)
theory Json_Roundtrip
  imports Json_Scan
begin

text \<open>
  How the scanners of \<^verbatim>\<open>src/json_scan.cpp\<close> read the documents of
  \<^verbatim>\<open>src/json_writer.cpp\<close>: reading an escaped string gives the string back, and a key
  lookup in a rendered document finds the first pair with that key in text order, whatever
  bytes the string values hold.
\<close>

section \<open>Reading back an escaped string\<close>

lemma hex_value_hex_digit: "n < 16 \<Longrightarrow> hex_value (hex_digits ! n) = int n"
proof -
  have "list_all (\<lambda>n. hex_value (hex_digits ! n) = int n) [0..<16]" by code_simp
  then show "n < 16 \<Longrightarrow> hex_value (hex_digits ! n) = int n" by (simp add: list_all_iff)
qed

lemma hex_value_nibble [simp]: "hex_value (nibble n) = int (n mod 16)"
  by (simp add: nibble_def hex_value_hex_digit)

lemma char_of_of_char [simp]: "char_of (of_char c :: nat) = c"
  by simp

lemma code_point_nibbles:
  "n < 256 \<Longrightarrow>
    code_point_at (pre @ nibble (n div 4096) # nibble (n div 256) # nibble (n div 16) # nibble n # r)
      (length pre) = Some n"
  by (simp add: code_point_at_def nth_append Let_def)

lemma escape_char_cases:
  obtains (plain) "escape_char c = [c]" "c \<noteq> CHR 0x22" "c \<noteq> CHR 0x5C" "\<not> (of_char c :: nat) < 32"
  | (short) e where "escape_char c = [CHR 0x5C, e]" "\<And>s i. unescape s i e = Some ([c], i)"
  | (unicode) "(of_char c :: nat) < 32" "escape_char c = unicode_escape (of_char c)"
proof -
  consider "c \<in> {CHR 0x22, CHR 0x5C, CHR 0x0A, CHR 0x0D, CHR 0x09, CHR 0x08, CHR 0x0C}"
    | "c \<notin> {CHR 0x22, CHR 0x5C, CHR 0x0A, CHR 0x0D, CHR 0x09, CHR 0x08, CHR 0x0C}"
    by blast
  then show thesis
  proof cases
    case 1
    then have "\<exists>e. escape_char c = [CHR 0x5C, e] \<and> (\<forall>s i. unescape s i e = Some ([c], i))"
      by (elim insertE emptyE; simp add: escape_char_def unescape_def)
    with short show thesis by blast
  next
    case 2
    with plain unicode show thesis
      by (cases "(of_char c :: nat) < 32") (simp_all add: escape_char_def)
  qed
qed

lemma read_loop_escape_char:
  "read_loop (pre @ escape_char c @ r) (length pre) out =
   read_loop (pre @ escape_char c @ r) (length pre + length (escape_char c)) (out @ [c])"
proof (cases c rule: escape_char_cases)
  case plain
  then show ?thesis by (subst read_loop.simps) (simp add: nth_append)
next
  case (short e)
  then show ?thesis by (subst read_loop.simps) (simp add: nth_append)
next
  case unicode
  let ?n = "of_char c :: nat"
  have cp: "code_point_at (pre @ unicode_escape ?n @ r) (Suc (Suc (length pre))) = Some ?n"
    using unicode code_point_nibbles [of ?n "pre @ [CHR 0x5C, CHR ''u'']" r]
    by (simp add: unicode_escape_def)
  have six: "6 + length pre = Suc (Suc (Suc (Suc (Suc (Suc (length pre))))))" by simp
  show ?thesis using unicode cp
    by (subst read_loop.simps)
      (simp add: unicode_escape_def nth_append unescape_def append_utf8_def six)
qed

lemma read_loop_escaped:
  "read_loop (pre @ json_escape s @ CHR 0x22 # r) (length pre) out =
   Some (out @ s, length pre + length (json_escape s) + 1)"
proof (induction s arbitrary: pre out)
  case Nil
  show ?case by (subst read_loop.simps) (simp add: nth_append)
next
  case (Cons c s)
  have "read_loop (pre @ json_escape (c # s) @ CHR 0x22 # r) (length pre) out =
    read_loop ((pre @ escape_char c) @ json_escape s @ CHR 0x22 # r)
      (length (pre @ escape_char c)) (out @ [c])"
    using read_loop_escape_char [of pre c "json_escape s @ CHR 0x22 # r" out] by simp
  then show ?case by (simp only: Cons.IH) simp
qed

lemma read_string_quoted:
  "read_string (pre @ quoted s @ r) (length pre) = Some (s, length pre + length (quoted s))"
  using read_loop_escaped [of "pre @ [CHR 0x22]" s r "[]"]
  by (simp add: read_string_def quoted_def nth_append)

section \<open>Key lookup on text\<close>

text \<open>
  \<open>seek key s\<close> is the lookup of \<^const>\<open>find_value_start\<close> on suffixes instead of positions: the
  text from the value on.
\<close>

function seek :: "string \<Rightarrow> string \<Rightarrow> string option" where
  "seek key s =
    (if s = [] then None
     else if prefix (quote_key key) s then
       (let r = dropWhile is_ws (drop (length (quote_key key)) s) in
        if r \<noteq> [] \<and> hd r = CHR '':'' then Some (dropWhile is_ws (tl r))
        else seek key (drop (length (quote_key key)) s))
     else seek key (tl s))"
  by pat_completeness auto
termination
  by (relation "measure (\<lambda>(key, s). length s)") (auto simp: quote_key_def)

declare seek.simps [simp del]

lemma skip_ws_drop: "drop (skip_ws s i) s = dropWhile is_ws (drop i s)"
proof (induction s i rule: skip_ws.induct)
  case (1 s i)
  then show ?case
    by (cases "i < length s")
      (auto simp: skip_ws.simps [of s i] Cons_nth_drop_Suc [symmetric])
qed

lemma skip_ws_le: "i \<le> length s \<Longrightarrow> skip_ws s i \<le> length s"
proof (induction s i rule: skip_ws.induct)
  case (1 s i)
  then show ?case by (auto simp: skip_ws.simps [of s i])
qed

lemma prefix_take: "prefix p s \<longleftrightarrow> take (length p) s = p"
  by (metis append_eq_conv_conj append_take_drop_id prefix_def)

lemma value_start_seek_step:
  assumes "i < length s" "\<not> prefix (quote_key key) (drop i s)"
  shows "value_start_from s key i = value_start_from s key (Suc i)"
proof -
  have "find_from (quote_key key) s i = find_from (quote_key key) s (Suc i)"
    using assms by (subst find_from.simps)
      (auto simp: prefix_take find_from.simps [of _ s "Suc i"])
  then show ?thesis
    by (simp add: value_start_from.simps [of s key i] value_start_from.simps [of s key "Suc i"])
qed

lemma value_start_seek:
  "i \<le> length s \<Longrightarrow>
    map_option (\<lambda>k. drop k s) (value_start_from s key i) = seek key (drop i s) \<and>
    (\<forall>k. value_start_from s key i = Some k \<longrightarrow> k \<le> length s)"
proof (induction "length s - i" arbitrary: i rule: less_induct)
  case less
  let ?q = "quote_key key"
  show ?case
  proof (cases "i = length s")
    case True
    then show ?thesis
      by (simp add: value_start_from.simps [of s key "length s"] seek.simps [of key "[]"]
          find_from.simps [of _ s "length s"] quote_key_def)
  next
    case i: False
    show ?thesis
    proof (cases "prefix ?q (drop i s)")
      case False
      with less.hyps [of "Suc i"] less.prems i show ?thesis
        by (simp add: value_start_seek_step seek.simps [of key "drop i s"] drop_Suc tl_drop)
    next
      case True
      then have le: "i + length ?q \<le> length s" and found: "find_from ?q s i = Some i"
        using less.prems prefix_length_le [OF True]
        by (auto simp: find_from.simps [of ?q s i] prefix_take)
      let ?c = "skip_ws s (i + length ?q)"
      have c: "drop ?c s = dropWhile is_ws (drop (length ?q) (drop i s))"
        by (simp add: skip_ws_drop add.commute)
      have cond: "(?c < length s \<and> s ! ?c = CHR '':'') \<longleftrightarrow>
          (drop ?c s \<noteq> [] \<and> hd (drop ?c s) = CHR '':'')"
        by (auto simp: hd_drop_conv_nth)
      have rec: "map_option (\<lambda>k. drop k s) (value_start_from s key (i + length ?q)) =
            seek key (drop (i + length ?q) s) \<and>
          (\<forall>k. value_start_from s key (i + length ?q) = Some k \<longrightarrow> k \<le> length s)"
        using le i less.prems by (intro less.hyps) (auto simp: quote_key_def)
      have val: "drop (skip_ws s (Suc ?c)) s = dropWhile is_ws (tl (drop ?c s))"
        using skip_ws_drop [of s "Suc ?c"] by (simp only: drop_Suc tl_drop)
      show ?thesis
      proof (cases "?c < length s \<and> s ! ?c = CHR '':''")
        case True
        then show ?thesis
          using \<open>prefix ?q (drop i s)\<close> found i less.prems cond c val skip_ws_le [of "Suc ?c" s]
          by (simp add: value_start_from.simps [of s key i] seek.simps [of key "drop i s"])
      next
        case False
        then show ?thesis
          using \<open>prefix ?q (drop i s)\<close> found i less.prems cond c rec
          by (auto simp: value_start_from.simps [of s key i] seek.simps [of key "drop i s"] add.commute)
      qed
    qed
  qed
qed

lemma find_value_start_seek:
  assumes "seek key s = Some v"
  obtains pre where "s = pre @ v" "find_value_start s key = Some (length pre)"
proof -
  from value_start_seek [of 0 s key] assms obtain k where
    k: "find_value_start s key = Some k" "drop k s = v" "k \<le> length s"
    by (auto simp: find_value_start_def)
  then have "s = take k s @ v" "length (take k s) = k"
    by (metis append_take_drop_id, simp)
  with k(1) that show ?thesis by metis
qed

lemma find_value_start_none: "seek key s = None \<Longrightarrow> find_value_start s key = None"
  using value_start_seek [of 0 s key] by (simp add: find_value_start_def)

section \<open>Key lookup in rendered documents\<close>

definition key_alphabet :: string where
  "key_alphabet = ''abcdefghijklmnopqrstuvwxyzABCDEFGHIJKLMNOPQRSTUVWXYZ0123456789_''"

definition key_char :: "char \<Rightarrow> bool" where
  "key_char c \<longleftrightarrow> c \<in> set key_alphabet"

definition plain_key :: "string \<Rightarrow> bool" where
  "plain_key k \<longleftrightarrow> k \<noteq> [] \<and> list_all key_char k"

text \<open>What can follow a value inside a document.\<close>

definition delimited :: "string \<Rightarrow> bool" where
  "delimited r \<longleftrightarrow> r \<noteq> [] \<and> hd r \<in> {CHR '','', CHR ''}'', CHR '']''}"

lemma delimited_Cons [simp]: "delimited (c # r) \<longleftrightarrow> c \<in> {CHR '','', CHR ''}'', CHR '']''}"
  by (simp add: delimited_def)

lemma key_char_not:
  "key_char c \<Longrightarrow> c \<noteq> CHR 0x22 \<and> c \<noteq> CHR 0x5C \<and> c \<noteq> CHR '','' \<and> c \<noteq> CHR ''}'' \<and> c \<noteq> CHR '']''"
  by (auto simp: key_char_def key_alphabet_def)

lemma hd_escape_char: "escape_char c = x # xs \<Longrightarrow> x \<noteq> CHR 0x22 \<and> (x \<noteq> CHR 0x5C \<longrightarrow> x = c \<and> xs = [])"
  by (cases c rule: escape_char_cases) (auto simp: unicode_escape_def)

lemma escape_char_nonempty [simp]: "escape_char c \<noteq> []"
  by (cases c rule: escape_char_cases) (auto simp: unicode_escape_def)

lemma plain_prefix_escaped:
  "list_all key_char key \<Longrightarrow> prefix (key @ [CHR 0x22]) (json_escape s @ CHR 0x22 # r) \<Longrightarrow>
    json_escape s = key"
proof (induction key arbitrary: s)
  case Nil
  then show ?case
  proof (cases s)
    case (Cons c t)
    obtain x xs where "escape_char c = x # xs" by (cases "escape_char c") auto
    with Nil Cons hd_escape_char [of c x xs] show ?thesis by auto
  qed simp
next
  case (Cons k key)
  then obtain c t where s: "s = c # t" by (cases s) (auto dest: key_char_not)
  obtain x xs where e: "escape_char c = x # xs" by (cases "escape_char c") auto
  with Cons.prems s have "x = k" by auto
  with e Cons.prems hd_escape_char [OF e] have "x = c" "xs = []" by (auto dest: key_char_not)
  with e s \<open>x = k\<close> Cons show ?case by auto
qed

lemma escape_key_char: "key_char c \<Longrightarrow> escape_char c = [c]"
proof -
  have "list_all (\<lambda>c. escape_char c = [c]) key_alphabet" by code_simp
  then show "key_char c \<Longrightarrow> escape_char c = [c]" by (simp add: key_char_def list_all_iff)
qed

lemma plain_escape: "list_all key_char k \<Longrightarrow> json_escape k = k"
  by (induction k) (simp_all add: escape_key_char)

lemma nibble_not_quote: "nibble n \<noteq> CHR 0x22"
proof -
  have "is_lower_hex (nibble n)" by (simp add: nibble_def)
  moreover have "\<not> is_lower_hex (CHR 0x22)" by code_simp
  ultimately show ?thesis by metis
qed

lemma seek_skip_char: "c \<noteq> CHR 0x22 \<Longrightarrow> seek key (c # r) = seek key r"
  by (simp add: seek.simps [of key "c # r"] quote_key_def)

lemma seek_skip: "CHR 0x22 \<notin> set t \<Longrightarrow> seek key (t @ r) = seek key r"
  by (induction t) (auto simp: seek_skip_char)

text \<open>A quote opening a string that is a value: either no match, or a match that no colon follows.\<close>

lemma seek_quote:
  assumes "plain_key key" "delimited r"
  shows "seek key (CHR 0x22 # json_escape s @ CHR 0x22 # r) =
    (if json_escape s = key then seek key r else seek key (json_escape s @ CHR 0x22 # r))"
proof (cases "json_escape s = key")
  case True
  from assms(2) have "dropWhile is_ws r = r" "hd r \<noteq> CHR '':''"
    by (auto simp: delimited_def is_ws_def neq_Nil_conv)
  with True show ?thesis
    by (simp add: seek.simps [of key "CHR 0x22 # key @ CHR 0x22 # r"] quote_key_def)
next
  case False
  with assms(1) have "\<not> prefix (quote_key key) (CHR 0x22 # json_escape s @ CHR 0x22 # r)"
    using plain_prefix_escaped [of key s r] by (auto simp: quote_key_def plain_key_def)
  with False show ?thesis by (subst seek.simps) simp
qed

lemma seek_closing_quote:
  assumes "plain_key key" "delimited r"
  shows "seek key (CHR 0x22 # r) = seek key r"
proof -
  from assms have "\<not> prefix (quote_key key) (CHR 0x22 # r)"
    by (cases key; cases r) (auto simp: quote_key_def plain_key_def dest: key_char_not)
  then show ?thesis by (subst seek.simps) simp
qed

lemma seek_string_body:
  assumes "plain_key key" "delimited r"
  shows "seek key (json_escape s @ CHR 0x22 # r) = seek key r"
proof (induction s)
  case Nil
  then show ?case by (simp add: seek_closing_quote assms)
next
  case (Cons c s)
  show ?case
  proof (cases "c = CHR 0x22")
    case True
    then show ?thesis using Cons assms
      by (simp add: escape_char_def seek_skip_char seek_quote)
  next
    case False
    then have "CHR 0x22 \<notin> set (escape_char c)"
      using nibble_not_quote [symmetric] by (simp add: escape_char_def unicode_escape_def)
    with Cons show ?thesis by (simp add: seek_skip)
  qed
qed

lemma seek_value_string:
  "plain_key key \<Longrightarrow> delimited r \<Longrightarrow> seek key (quoted s @ r) = seek key r"
  by (simp add: quoted_def seek_quote seek_string_body)

lemma seek_name:
  assumes "plain_key key" "plain_key k"
  shows "seek key (quoted k @ CHR '':'' # r) =
    (if k = key then Some (dropWhile is_ws r) else seek key r)"
proof (cases "k = key")
  case True
  with assms show ?thesis
    by (simp add: quoted_def plain_escape plain_key_def seek.simps [of key "CHR 0x22 # _"]
        quote_key_def is_ws_def)
next
  case False
  have e: "json_escape k = k" and q: "CHR 0x22 \<notin> set k"
    using assms(2) by (auto simp: plain_escape plain_key_def list_all_iff dest: key_char_not)
  from False assms e have "\<not> prefix (quote_key key) (CHR 0x22 # k @ CHR 0x22 # CHR '':'' # r)"
    using plain_prefix_escaped [of key k "CHR '':'' # r"] by (auto simp: quote_key_def plain_key_def)
  then have "seek key (quoted k @ CHR '':'' # r) = seek key (CHR 0x22 # CHR '':'' # r)"
    using q by (subst seek.simps) (simp add: quoted_def e seek_skip)
  moreover have "\<not> prefix (quote_key key) (CHR 0x22 # CHR '':'' # r)"
    using assms(1) by (cases key) (auto simp: quote_key_def plain_key_def key_char_def key_alphabet_def)
  then have "seek key (CHR 0x22 # CHR '':'' # r) = seek key r"
    by (subst seek.simps) (simp add: seek_skip_char)
  ultimately show ?thesis using False by simp
qed

text \<open>
  The key/value pairs of a document in text order, outer pairs before the pairs inside their
  values; and the documents whose keys are plain and whose literals hold no quote or brace.
\<close>

fun pairs :: "json \<Rightarrow> (string \<times> json) list"
  and field_pairs :: "(string \<times> json) list \<Rightarrow> (string \<times> json) list"
  and elem_pairs :: "json list \<Rightarrow> (string \<times> json) list" where
  "pairs (JStr s) = []"
| "pairs (JLit t) = []"
| "pairs (JObj kvs) = field_pairs kvs"
| "pairs (JArr js) = elem_pairs js"
| "field_pairs [] = []"
| "field_pairs ((k, v) # kvs) = (k, v) # pairs v @ field_pairs kvs"
| "elem_pairs [] = []"
| "elem_pairs (j # js) = pairs j @ elem_pairs js"

fun tidy :: "json \<Rightarrow> bool"
  and tidy_fields :: "(string \<times> json) list \<Rightarrow> bool"
  and tidy_elems :: "json list \<Rightarrow> bool" where
  "tidy (JStr s) = True"
| "tidy (JLit t) =
     (t \<noteq> [] \<and> set t \<inter> {CHR 0x22, CHR ''{'', CHR ''}''} = {} \<and> \<not> is_ws (hd t))"
| "tidy (JObj kvs) = tidy_fields kvs"
| "tidy (JArr js) = tidy_elems js"
| "tidy_fields [] = True"
| "tidy_fields ((k, v) # kvs) = (plain_key k \<and> tidy v \<and> tidy_fields kvs)"
| "tidy_elems [] = True"
| "tidy_elems (j # js) = (tidy j \<and> tidy_elems js)"

lemma render_no_ws: "tidy j \<Longrightarrow> dropWhile is_ws (render j @ r) = render j @ r"
  by (cases j) (auto simp: quoted_def is_ws_def neq_Nil_conv)

lemma delimited_fields_text: "delimited r \<Longrightarrow> delimited (fields_text True kvs @ r)"
  by (cases kvs) auto

lemma delimited_elems_text: "delimited r \<Longrightarrow> delimited (elems_text True js @ r)"
  by (cases js) auto

text \<open>
  \<open>seeks key t ps r\<close>: looking \<open>key\<close> up in \<open>t @ r\<close>, where \<open>t\<close> holds the pairs \<open>ps\<close>, stops at the
  value of the first pair with that key and goes on into \<open>r\<close> when there is none.
\<close>

definition seeks :: "string \<Rightarrow> string \<Rightarrow> (string \<times> json) list \<Rightarrow> string \<Rightarrow> bool" where
  "seeks key t ps r \<longleftrightarrow>
    (case map_of ps key of
       None \<Rightarrow> seek key (t @ r) = seek key r
     | Some v \<Rightarrow> (\<exists>r'. delimited r' \<and> seek key (t @ r) = Some (render v @ r')))"

lemma seeks_append:
  assumes "seeks key t ps (u @ r)" "seeks key u qs r"
  shows "seeks key (t @ u) (ps @ qs) r"
  using assms by (auto simp: seeks_def map_add_def split: option.splits)

lemma seeks_skip: "CHR 0x22 \<notin> set t \<Longrightarrow> seeks key t [] r"
  by (simp add: seeks_def seek_skip)

lemma seeks_pair:
  assumes "plain_key key" "plain_key k" "tidy v" "delimited r" "seeks key (render v) ps r"
  shows "seeks key (quoted k @ '':'' @ render v) ((k, v) # ps) r"
proof -
  have "seek key ((quoted k @ '':'' @ render v) @ r) =
    (if k = key then Some (render v @ r) else seek key (render v @ r))"
    using assms(1-3) by (simp add: seek_name render_no_ws)
  with assms(4,5) show ?thesis by (auto simp: seeks_def split: option.splits)
qed

lemma seeks_document:
  assumes "plain_key key"
  shows "tidy j \<Longrightarrow> delimited r \<Longrightarrow> seeks key (render j) (pairs j) r"
    and "tidy_fields kvs \<Longrightarrow> delimited r \<Longrightarrow> seeks key (fields_text c kvs) (field_pairs kvs) r"
    and "tidy_elems js \<Longrightarrow> delimited r \<Longrightarrow> seeks key (elems_text c js) (elem_pairs js) r"
proof (induction j and c kvs and c js arbitrary: r and r and r
    rule: render_fields_text_elems_text.induct)
  case (1 s)
  then show ?case by (simp add: seeks_def seek_value_string assms)
next
  case (2 t)
  then show ?case by (simp add: seeks_skip)
next
  case (3 kvs)
  then have "seeks key (fields_text False kvs) (field_pairs kvs) (''}'' @ r)" by simp
  then have "seeks key (fields_text False kvs @ ''}'') (field_pairs kvs @ []) r"
    by (rule seeks_append) (simp add: seeks_skip)
  moreover have "seeks key ''{'' [] ((fields_text False kvs @ ''}'') @ r)" by (simp add: seeks_skip)
  ultimately show ?case using seeks_append by fastforce
next
  case (4 js)
  then have "seeks key (elems_text False js) (elem_pairs js) ('']'' @ r)" by simp
  then have "seeks key (elems_text False js @ '']'') (elem_pairs js @ []) r"
    by (rule seeks_append) (simp add: seeks_skip)
  moreover have "seeks key ''['' [] ((elems_text False js @ '']'') @ r)" by (simp add: seeks_skip)
  ultimately show ?case using seeks_append by fastforce
next
  case (5 c)
  then show ?case by (simp add: seeks_def)
next
  case (6 c k v kvs)
  then have "seeks key (quoted k @ '':'' @ render v) ((k, v) # pairs v) (fields_text True kvs @ r)"
    by (intro seeks_pair assms) (auto simp: delimited_fields_text)
  moreover have "seeks key (fields_text True kvs) (field_pairs kvs) r" using 6 by simp
  ultimately have "seeks key ((quoted k @ '':'' @ render v) @ fields_text True kvs)
      (((k, v) # pairs v) @ field_pairs kvs) r" by (rule seeks_append)
  moreover have "seeks key (if c then '','' else []) []
      (((quoted k @ '':'' @ render v) @ fields_text True kvs) @ r)" by (simp add: seeks_skip)
  ultimately show ?case using seeks_append by fastforce
next
  case (7 c)
  then show ?case by (simp add: seeks_def)
next
  case (8 c j js)
  then have "seeks key (render j) (pairs j) (elems_text True js @ r)"
    and "seeks key (elems_text True js) (elem_pairs js) r"
    by (auto simp: delimited_elems_text)
  then have "seeks key (render j @ elems_text True js) (pairs j @ elem_pairs js) r"
    by (rule seeks_append)
  moreover have "seeks key (if c then '','' else []) [] ((render j @ elems_text True js) @ r)"
    by (simp add: seeks_skip)
  ultimately show ?case using seeks_append by fastforce
qed

section \<open>The scalar scanners on rendered documents\<close>

lemma seek_end: "seek key ''}'' = None"
  by (simp add: seek_skip_char seek.simps [of key "[]"])

lemma seek_object:
  assumes "plain_key key" "tidy (JObj F)"
  shows "case map_of (field_pairs F) key of
      None \<Rightarrow> seek key (render (JObj F)) = None
    | Some v \<Rightarrow> (\<exists>r. delimited r \<and> seek key (render (JObj F)) = Some (render v @ r))"
  using seeks_document(2) [OF assms(1), of F "''}''" False] assms(2)
  by (auto simp: seeks_def seek_skip_char seek_end split: option.splits)

lemma value_start_none:
  "plain_key key \<Longrightarrow> tidy (JObj F) \<Longrightarrow> map_of (field_pairs F) key = None \<Longrightarrow>
    find_value_start (render (JObj F)) key = None"
  using seek_object [of key F] by (simp add: find_value_start_none)

lemma value_start_some:
  assumes "plain_key key" "tidy (JObj F)" "map_of (field_pairs F) key = Some v"
  obtains pre r where "delimited r" "render (JObj F) = pre @ render v @ r"
    "find_value_start (render (JObj F)) key = Some (length pre)"
proof -
  from seek_object [OF assms(1,2)] assms(3) obtain r where
    r: "delimited r" "seek key (render (JObj F)) = Some (render v @ r)" by auto
  from find_value_start_seek [OF r(2)] r(1) that show ?thesis by blast
qed

lemma tidy_value: "map_of (field_pairs F) key = Some v \<Longrightarrow> tidy_fields F \<Longrightarrow> tidy v"
proof -
  have "tidy j \<Longrightarrow> (k, v) \<in> set (pairs j) \<Longrightarrow> tidy v"
    and "tidy_fields F \<Longrightarrow> (k, v) \<in> set (field_pairs F) \<Longrightarrow> tidy v"
    and "tidy_elems js \<Longrightarrow> (k, v) \<in> set (elem_pairs js) \<Longrightarrow> tidy v" for j F js k v
    by (induction j and F and js rule: pairs_field_pairs_elem_pairs.induct) auto
  then show "map_of (field_pairs F) key = Some v \<Longrightarrow> tidy_fields F \<Longrightarrow> tidy v"
    by (blast dest: map_of_SomeD)
qed

lemma read_string_value:
  assumes "tidy v"
  shows "map_option fst (read_string (pre @ render v @ r) (length pre)) =
    (case v of JStr s \<Rightarrow> Some s | _ \<Rightarrow> None)"
proof (cases v)
  case (JStr s)
  then show ?thesis by (simp add: read_string_quoted)
next
  case (JLit t)
  with assms have "t ! 0 \<noteq> CHR 0x22" "t \<noteq> []" by (cases t; auto)+
  with JLit show ?thesis by (auto simp: read_string_def nth_append)
qed (simp_all add: read_string_def nth_append)

lemma find_string_document:
  assumes "plain_key key" "tidy (JObj F)"
  shows "find_string_field (render (JObj F)) key =
    (case map_of (field_pairs F) key of Some (JStr s) \<Rightarrow> Some s | _ \<Rightarrow> None)"
proof (cases "map_of (field_pairs F) key")
  case None
  then show ?thesis using assms by (simp add: find_string_field_def value_start_none del: render.simps)
next
  case (Some v)
  then obtain pre r where "render (JObj F) = pre @ render v @ r"
    "find_value_start (render (JObj F)) key = Some (length pre)"
    using value_start_some [OF assms] by blast
  moreover have "tidy v" using Some assms(2) by (simp add: tidy_value)
  ultimately show ?thesis using Some
    by (simp add: find_string_field_def read_string_value del: render.simps)
qed

lemma find_bool_document:
  assumes "plain_key key" "tidy (JObj F)" "map_of (field_pairs F) key = Some (JBool b)"
  shows "find_bool_field (render (JObj F)) key = Some b"
proof -
  obtain pre r where "render (JObj F) = pre @ render (JBool b) @ r"
    "find_value_start (render (JObj F)) key = Some (length pre)"
    using value_start_some [OF assms] by blast
  then show ?thesis by (simp add: find_bool_field_def JBool_def)
qed

lemma find_bool_document_none:
  assumes "plain_key key" "tidy (JObj F)" "map_of (field_pairs F) key = None"
  shows "find_bool_field (render (JObj F)) key = None"
  using assms by (simp add: find_bool_field_def value_start_none del: render.simps)

section \<open>Integers and objects in rendered documents\<close>

lemma int_digits_all:
  "list_all is_digit ds \<Longrightarrow> n + length ds \<le> 18 \<Longrightarrow> r = [] \<or> \<not> is_digit (hd r) \<Longrightarrow>
    int_digits (pre @ ds @ r) (length pre) (dec_val es) n =
      (dec_val (es @ ds), length pre + length ds, n + length ds)"
proof (induction ds arbitrary: pre es n)
  case Nil
  then show ?case by (subst int_digits.simps) (auto simp: nth_append hd_conv_nth)
next
  case (Cons d ds)
  have "int_digits (pre @ (d # ds) @ r) (length pre) (dec_val es) n =
    int_digits ((pre @ [d]) @ ds @ r) (length (pre @ [d])) (dec_val (es @ [d])) (Suc n)"
    using Cons.prems by (subst int_digits.simps) (simp add: mult.commute)
  also have "\<dots> = (dec_val ((es @ [d]) @ ds), length (pre @ [d]) + length ds, Suc n + length ds)"
    using Cons.prems by (intro Cons.IH) auto
  finally show ?case by simp
qed

lemma is_digit_not_delim:
  "delimited r \<Longrightarrow> r ! 0 \<noteq> CHR ''.'' \<and> r ! 0 \<noteq> CHR ''e'' \<and> r ! 0 \<noteq> CHR ''E'' \<and> \<not> is_digit (r ! 0)"
  by (cases r) (auto simp: is_digit_def delimited_def)

lemma find_int_document:
  assumes "plain_key key" "tidy (JObj F)" "map_of (field_pairs F) key = Some (JInt n)"
    and "\<bar>n\<bar> < 10 ^ 18"
  shows "find_int_field (render (JObj F)) key = Some n"
proof -
  obtain pre r where r: "delimited r" and s: "render (JObj F) = pre @ dec_int n @ r"
    and at: "find_value_start (render (JObj F)) key = Some (length pre)"
    using value_start_some [OF assms(1-3)] by (simp add: JInt_def del: render.simps(3)) blast
  let ?ds = "dec_pos \<bar>n\<bar>"
  let ?neg = "if n < 0 then ''-'' else []"
  have ds: "list_all is_digit ?ds" "length ?ds \<le> 18" "?ds \<noteq> []" "is_digit (?ds ! 0)"
    using assms(4) dec_pos_digits [of "\<bar>n\<bar>"] length_dec_pos [of "\<bar>n\<bar>" 18]
    by (auto simp: list_all_iff nth_mem)
  have neg: "?ds ! 0 \<noteq> CHR ''-''" using ds(4) by (auto simp: is_digit_def)
  have t: "render (JObj F) = (pre @ ?neg) @ ?ds @ r" "dec_int n = ?neg @ ?ds"
    using s by (auto simp: dec_int_def)
  have d: "r = [] \<or> \<not> is_digit (hd r)" and nd: "\<not> is_digit (r ! 0)" "r \<noteq> []"
    using r is_digit_not_delim [OF r] by (auto simp: delimited_def is_digit_def hd_conv_nth)
  have "int_digits ((pre @ ?neg) @ ?ds @ r) (length (pre @ ?neg)) 0 0 =
      (dec_val ?ds, length (pre @ ?neg) + length ?ds, length ?ds)"
    using int_digits_all [OF ds(1), of 0 r "pre @ ?neg" "[]"] ds(2) d by simp
  with at t neg ds(3) is_digit_not_delim [OF r] nd show ?thesis
    by (auto simp: find_int_field_def nth_append dec_int_def split: if_splits)
qed

text \<open>
  \<open>brace_steps x d q d' q'\<close>: the brace matcher, reading \<open>x\<close> at depth \<open>d\<close> with string flag
  \<open>q\<close>, runs through it and leaves with \<open>d'\<close> and \<open>q'\<close>.
\<close>

definition brace_steps :: "string \<Rightarrow> nat \<Rightarrow> bool \<Rightarrow> nat \<Rightarrow> bool \<Rightarrow> bool" where
  "brace_steps x d q d' q' \<longleftrightarrow>
    (\<forall>pre r. object_end (pre @ x @ r) (length pre) d q =
       object_end (pre @ x @ r) (length pre + length x) d' q')"

lemma brace_steps_Nil [simp]: "brace_steps [] d q d q"
  by (simp add: brace_steps_def)

lemma brace_steps_append:
  assumes "brace_steps x d q d1 q1" "brace_steps y d1 q1 d2 q2"
  shows "brace_steps (x @ y) d q d2 q2"
  unfolding brace_steps_def
proof (intro allI)
  fix pre r
  have "object_end (pre @ x @ y @ r) (length pre) d q =
      object_end (pre @ x @ y @ r) (length pre + length x) d1 q1"
    using assms(1) by (simp add: brace_steps_def)
  also have "\<dots> = object_end ((pre @ x) @ y @ r) (length (pre @ x)) d1 q1" by simp
  also have "\<dots> = object_end ((pre @ x) @ y @ r) (length (pre @ x) + length y) d2 q2"
    using assms(2) unfolding brace_steps_def by blast
  finally show "object_end (pre @ (x @ y) @ r) (length pre) d q =
      object_end (pre @ (x @ y) @ r) (length pre + length (x @ y)) d2 q2" by (simp add: add.assoc)
qed

lemma brace_steps_same:
  "brace_steps x d q d q \<Longrightarrow> brace_steps y d q d q \<Longrightarrow> brace_steps (x @ y) d q d q"
  by (rule brace_steps_append)

lemma brace_outside:
  "c \<notin> {CHR 0x22, CHR ''{'', CHR ''}''} \<Longrightarrow> brace_steps [c] d False d False"
  unfolding brace_steps_def by (intro allI, subst object_end.simps) (simp add: nth_append)

lemma brace_literal:
  "set t \<inter> {CHR 0x22, CHR ''{'', CHR ''}''} = {} \<Longrightarrow> brace_steps t d False d False"
proof (induction t)
  case (Cons c t)
  then have "brace_steps ([c] @ t) d False d False"
    by (intro brace_steps_same brace_outside) auto
  then show ?case by simp
qed simp

lemma brace_open: "brace_steps ''{'' d False (Suc d) False"
  unfolding brace_steps_def by (intro allI, subst object_end.simps) (simp add: nth_append)

lemma brace_close: "0 < d \<Longrightarrow> brace_steps ''}'' (Suc d) False d False"
  unfolding brace_steps_def by (intro allI, subst object_end.simps) (simp add: nth_append)

lemma brace_quote: "brace_steps [CHR 0x22] d q d (\<not> q)"
  unfolding brace_steps_def by (intro allI, subst object_end.simps) (simp add: nth_append)

lemma brace_inside:
  "c \<noteq> CHR 0x22 \<Longrightarrow> c \<noteq> CHR 0x5C \<Longrightarrow> brace_steps [c] d True d True"
  unfolding brace_steps_def by (intro allI, subst object_end.simps) (simp add: nth_append)

lemma brace_escape: "brace_steps [CHR 0x5C, c] d True d True"
  unfolding brace_steps_def by (intro allI, subst object_end.simps) (simp add: nth_append)

lemma nibble_not_backslash: "nibble n \<noteq> CHR 0x5C"
proof -
  have "is_lower_hex (nibble n)" by (simp add: nibble_def)
  moreover have "\<not> is_lower_hex (CHR 0x5C)" by code_simp
  ultimately show ?thesis by metis
qed

lemma brace_escape_char: "brace_steps (escape_char c) d True d True"
proof (cases c rule: escape_char_cases)
  case plain
  then show ?thesis by (simp add: brace_inside)
next
  case (short e)
  then show ?thesis by (simp add: brace_escape)
next
  case unicode
  have nib: "brace_steps [nibble n] d True d True" for n
    by (rule brace_inside [OF nibble_not_quote nibble_not_backslash])
  have "brace_steps ([CHR 0x5C, CHR ''u''] @ [nibble a] @ [nibble b] @ [nibble c] @ [nibble e]) d True d True"
    for a b c e
    by (intro brace_steps_same nib brace_escape)
  with unicode(2) show ?thesis by (simp add: unicode_escape_def)
qed

lemma brace_quoted: "brace_steps (quoted s) d False d False"
proof -
  have "brace_steps (json_escape s) d True d True" for s
    by (induction s) (auto intro: brace_steps_same brace_escape_char)
  moreover have "brace_steps [CHR 0x22] d False d True" "brace_steps [CHR 0x22] d True d False"
    using brace_quote [of d False] brace_quote [of d True] by simp_all
  ultimately have "brace_steps ([CHR 0x22] @ json_escape s @ [CHR 0x22]) d False d False"
    by (blast intro: brace_steps_append)
  then show ?thesis by (simp add: quoted_def)
qed

lemma brace_document:
  shows "tidy j \<Longrightarrow> 0 < d \<Longrightarrow> brace_steps (render j) d False d False"
    and "tidy_fields kvs \<Longrightarrow> 0 < d \<Longrightarrow> brace_steps (fields_text c kvs) d False d False"
    and "tidy_elems js \<Longrightarrow> 0 < d \<Longrightarrow> brace_steps (elems_text c js) d False d False"
proof (induction j and c kvs and c js arbitrary: d and d and d
    rule: render_fields_text_elems_text.induct)
  case (3 kvs)
  then have "brace_steps (''{'' @ fields_text False kvs @ ''}'') d False d False"
    by (intro brace_steps_append [OF brace_open] brace_steps_append [OF _ brace_close]) auto
  then show ?case by simp
next
  case (4 js)
  then have "brace_steps (''['' @ elems_text False js @ '']'') d False d False"
    by (intro brace_steps_same [OF brace_literal brace_steps_same [OF _ brace_literal]]) simp_all
  then show ?case by simp
next
  case (6 c k v kvs)
  then have "brace_steps ((if c then '','' else []) @ quoted k @ '':'' @ render v @ fields_text True kvs)
      d False d False"
    by (intro brace_steps_same brace_quoted) (auto intro: brace_literal)
  then show ?case by simp
next
  case (8 c j js)
  then have "brace_steps ((if c then '','' else []) @ render j @ elems_text True js) d False d False"
    by (intro brace_steps_same) (auto intro: brace_literal)
  then show ?case by simp
qed (simp_all add: brace_quoted brace_literal)

lemma object_end_document:
  assumes "tidy_fields G"
  shows "object_end (pre @ render (JObj G) @ r) (length pre) 0 False =
    (length pre + length (render (JObj G)), 0, False)"
proof -
  let ?s = "pre @ (''{'' @ fields_text False G) @ ''}'' @ r"
  have "brace_steps (''{'' @ fields_text False G) 0 False (Suc 0) False"
    by (rule brace_steps_append [OF brace_open]) (simp add: brace_document(2) assms)
  then have "object_end ?s (length pre) 0 False =
      object_end ?s (length pre + length (''{'' @ fields_text False G)) (Suc 0) False"
    unfolding brace_steps_def by blast
  also have "\<dots> = (length pre + length (render (JObj G)), 0, False)"
    by (subst object_end.simps) (simp add: nth_append)
  finally show ?thesis by simp
qed

lemma find_object_document:
  assumes "plain_key key" "tidy (JObj F)" "map_of (field_pairs F) key = Some (JObj G)"
  shows "find_object_field (render (JObj F)) key = Some (render (JObj G))"
proof -
  obtain pre r where s: "render (JObj F) = pre @ render (JObj G) @ r"
    and at: "find_value_start (render (JObj F)) key = Some (length pre)"
    using value_start_some [OF assms] by blast
  have "tidy_fields G" using tidy_value [OF assms(3)] assms(2) by simp
  from object_end_document [OF this, of pre r] s at show ?thesis
    by (simp add: find_object_field_def nth_append)
qed

end
