(* ===== verification/Json_Safety.thy ===== *)
theory Json_Safety
  imports Json_Roundtrip
begin

text \<open>
  Properties of the JSON layer as a whole: string round trip, truncation on character
  boundaries, field lookup in written documents, and what the scanner guarantees about a server
  response it accepts.
\<close>

section \<open>Characters of a UTF-8 text\<close>

text \<open>One encoded character: a byte that is no continuation byte, then continuation bytes.\<close>

definition utf8_char :: "string \<Rightarrow> bool" where
  "utf8_char c \<longleftrightarrow> c \<noteq> [] \<and> \<not> is_continuation (hd c) \<and> list_all is_continuation (tl c)"

lemma split_at_byte:
  "n < length (concat cs) \<Longrightarrow>
    \<exists>as c bs. cs = as @ c # bs \<and> length (concat as) \<le> n \<and> n < length (concat as) + length c"
proof (induction cs arbitrary: n)
  case (Cons c cs)
  show ?case
  proof (cases "n < length c")
    case True
    then show ?thesis by (intro exI [of _ "[]"] exI [of _ c] exI [of _ cs]) simp
  next
    case False
    with Cons.prems have "n - length c < length (concat cs)" by auto
    from Cons.IH [OF this] obtain as d bs where "cs = as @ d # bs"
      "length (concat as) \<le> n - length c" "n - length c < length (concat as) + length d" by blast
    with False show ?thesis by (intro exI [of _ "c # as"]) auto
  qed
qed simp

lemma back_off_unique:
  assumes "p \<le> n" "p = 0 \<or> \<not> is_continuation (s ! p)" "\<And>i. p < i \<Longrightarrow> i \<le> n \<Longrightarrow> is_continuation (s ! i)"
  shows "back_off s n = p"
proof -
  have "\<not> back_off s n < p"
    using back_off_skipped [of s n p] assms(1,2) by auto
  moreover have "\<not> p < back_off s n"
    using back_off_boundary [of s n] back_off_le [of s n] assms(3) by auto
  ultimately show ?thesis by simp
qed

lemma back_off_char:
  assumes "utf8_char c" "length pre \<le> n" "n < length pre + length c"
  shows "back_off (pre @ c @ post) n = length pre"
proof (rule back_off_unique)
  have "(pre @ c @ post) ! length pre = hd c" using assms(1) by (cases c) (auto simp: utf8_char_def nth_append)
  with assms(1) show "length pre = 0 \<or> \<not> is_continuation ((pre @ c @ post) ! length pre)"
    by (simp add: utf8_char_def)
  fix i assume i: "length pre < i" "i \<le> n"
  then have "(pre @ c @ post) ! i = tl c ! (i - length pre - 1)"
    using assms(3) by (auto simp: nth_append nth_tl Suc_diff_Suc)
  moreover have "i - length pre - 1 < length (tl c)" using i assms(3) by simp
  ultimately show "is_continuation ((pre @ c @ post) ! i)"
    using assms(1) by (auto simp: utf8_char_def list_all_length)
qed (rule assms(2))

section \<open>The upload descriptor\<close>

definition upload_fields_ok :: "(string \<times> string) list \<Rightarrow> bool" where
  "upload_fields_ok fs \<longleftrightarrow> length fs \<le> 32 \<and> distinct (map fst fs) \<and>
    list_all (\<lambda>(name, v). field_name_ok name \<and> length v \<le> 16384) fs"

lemma upload_fields_step:
  "upload_fields_ok acc \<Longrightarrow> field_name_ok name \<Longrightarrow> length v \<le> 16384 \<Longrightarrow> length acc < 32 \<Longrightarrow>
    \<not> list_ex (\<lambda>entry. fst entry = name) acc \<Longrightarrow> upload_fields_ok (acc @ [(name, v)])"
  by (auto simp: upload_fields_ok_def list_ex_iff)

lemma upload_fields_sound:
  "upload_fields f i acc = Some fs \<Longrightarrow> upload_fields_ok acc \<Longrightarrow> upload_fields_ok fs"
proof (induction f i acc rule: upload_fields.induct)
  case (1 f i acc)
  from "1.prems"(1) obtain name c1 v c4 where
    name: "read_string f (skip_ws f i) = Some (name, c1)" "field_name_ok name"
    and colon: "\<not> (length f \<le> skip_ws f c1 \<or> f ! skip_ws f c1 \<noteq> CHR '':'')"
    and v: "read_string f (skip_ws f (Suc (skip_ws f c1))) = Some (v, c4)"
      "\<not> (16384 < length v \<or> 32 \<le> length acc)" "\<not> list_ex (\<lambda>entry. fst entry = name) acc"
    and room: "\<not> length f \<le> skip_ws f c4"
    and rest: "(if f ! skip_ws f c4 = CHR ''}'' then Some (acc @ [(name, v)])
       else if f ! skip_ws f c4 \<noteq> CHR '','' then None
       else upload_fields f (Suc (skip_ws f c4)) (acc @ [(name, v)])) = Some fs"
    by (subst (asm) upload_fields.simps) (auto split: option.splits if_splits)
  have ok: "upload_fields_ok (acc @ [(name, v)])"
    using "1.prems"(2) name v by (intro upload_fields_step) auto
  show ?case
  proof (cases "f ! skip_ws f c4 = CHR ''}''")
    case True
    with rest ok show ?thesis by simp
  next
    case False
    with rest have comma: "\<not> f ! skip_ws f c4 \<noteq> CHR '',''"
      and rec: "upload_fields f (Suc (skip_ws f c4)) (acc @ [(name, v)]) = Some fs"
      by (auto split: if_splits)
    from "1.IH" [OF name(1) refl _ colon v(1) refl _ _ _ False comma rec ok] name(2) v(2,3) room
    show ?thesis by blast
  qed
qed

lemma pending_loop_bound:
  "length out < 32 \<Longrightarrow> length (pending_loop s i depth q start out) \<le> 32"
proof (induction s i depth q start out rule: pending_loop.induct)
  case (1 s i depth q start out)
  then show ?case
    by (subst pending_loop.simps) (auto simp: Let_def split: option.split)
qed

section \<open>Properties\<close>

text \<open>C29. Strings survive the wire: what the writer quotes, at any place in any text, the reader
  decodes to the same bytes and stops right after the closing quote, for every byte string
  (quotes, backslashes, control characters, NUL and non-ASCII included).\<close>

theorem json_string_roundtrip:
  "read_string (pre @ quoted s @ rest) (length pre) = Some (s, length pre + length (quoted s))"
  by (rule read_string_quoted)

text \<open>Truncation never splits a character and never gives away a whole one: on a text made of
  encoded characters it yields the longest run of whole characters that fits.\<close>

theorem truncate_whole_characters:
  assumes "list_all utf8_char cs"
  shows "\<exists>as bs. cs = as @ bs \<and> utf8_safe_truncate (concat cs) n = concat as \<and> length (concat as) \<le> n \<and>
    (bs = [] \<or> n < length (concat as) + length (hd bs))"
proof (cases "length (concat cs) \<le> n")
  case True
  then show ?thesis by (intro exI [of _ cs] exI [of _ "[]"]) simp
next
  case False
  then obtain as c bs where cs: "cs = as @ c # bs" "length (concat as) \<le> n" "n < length (concat as) + length c"
    using split_at_byte [of n cs] by auto
  with assms have "utf8_char c" by simp
  from back_off_char [OF this cs(2,3), of "concat bs"] False have
    "utf8_safe_truncate (concat cs) n = concat as"
    by (simp add: utf8_safe_truncate_def cs(1))
  with cs show ?thesis by (intro exI [of _ as] exI [of _ "c # bs"]) auto
qed

theorem truncate_whole_characters_witness:
  "\<exists>as bs. [[CHR ''a''], [CHR 0xC3, CHR 0xA9]] = as @ bs \<and>
    utf8_safe_truncate [CHR ''a'', CHR 0xC3, CHR 0xA9] 2 = concat as \<and> length (concat as) \<le> 2 \<and>
    (bs = [] \<or> 2 < length (concat as) + length (hd bs))"
proof -
  have "list_all utf8_char [[CHR ''a''], [CHR 0xC3, CHR 0xA9]]" by code_simp
  from truncate_whole_characters [OF this, of 2] show ?thesis by simp
qed

text \<open>Field lookup is exact on every document the writer can produce from plain keys: the scanner
  returns the first string field of that name in document order, and nothing when there is none,
  whatever the string values contain.\<close>

theorem string_field_lookup:
  assumes "plain_key key" "tidy_fields F"
  shows "find_string_field (render (JObj F)) key =
    (case map_of (field_pairs F) key of Some (JStr s) \<Rightarrow> Some s | _ \<Rightarrow> None)"
  using find_string_document [OF assms(1), of F] assms(2) by simp

theorem string_field_lookup_witness:
  "find_string_field (render (JObj [(''a'', JStr (CHR 0x22 # ''b'' @ [CHR 0x22] @ '':'')), (''b'', JStr ''x'')])) ''b'' =
    Some ''x''"
proof -
  have "plain_key ''a''" "plain_key ''b''" by code_simp+
  then show ?thesis
    using string_field_lookup [of "''b''" "[(''a'', JStr (CHR 0x22 # ''b'' @ [CHR 0x22] @ '':'')), (''b'', JStr ''x'')]"]
    by simp
qed

text \<open>C30. Whatever a server (or an attacker in its place) answers, an accepted upload descriptor has
  a non-empty URL, method PUT without form fields or POST with at most 32 distinct fields, each
  with a name of safe characters that is not \<open>file\<close> and a value of at most 16 KiB.\<close>

theorem log_upload_descriptor_safe:
  "case find_log_upload body of
     None \<Rightarrow> True
   | Some u \<Rightarrow> lu_url u \<noteq> [] \<and> length body \<le> 131072 \<and>
       (lu_method u = ''PUT'' \<and> lu_fields u = [] \<or>
        lu_method u = ''POST'' \<and> upload_fields_ok (lu_fields u))"
proof -
  have "upload_fields_ok []" by (simp add: upload_fields_ok_def)
  then show ?thesis
    by (auto simp: find_log_upload_def Let_def split: option.splits if_splits dest: upload_fields_sound)
qed

text \<open>A heartbeat answer yields at most 32 pending pull requests, however long its array is, so
  one answer cannot make the worker upload without bound.\<close>

theorem pending_requests_bounded:
  "length (find_pending_requests body) \<le> 32"
  by (auto simp: find_pending_requests_def pending_loop_bound split: option.split)

end
