(* ===== verification/Json_Number.thy ===== *)
theory Json_Number
  imports Json_Writer
begin

text \<open>
  \<open>number_field\<close> and the process locale: the shape and length of \<open>%.17g\<close> text, and the proof
  that the separator patch makes the JSON number independent of the locale.
\<close>

section \<open>Shape of the text\<close>

definition number_alphabet :: string where
  "number_alphabet = ''0123456789+-einfa''"

lemma digit_table: "list_all (\<lambda>n. char_of (n::nat) \<in> set number_alphabet) [48..<58]"
  by code_simp

lemma digit_in_alphabet:
  assumes "is_digit c"
  shows "c \<in> set number_alphabet"
proof -
  have "(of_char c :: nat) \<in> set [48..<58]"
    using assms unfolding set_upt by (simp add: is_digit_iff)
  then have "char_of (of_char c :: nat) \<in> set number_alphabet"
    using digit_table unfolding list_all_iff by blast
  then show ?thesis by simp
qed

lemma dec_pos_alphabet: "0 \<le> n \<Longrightarrow> set (dec_pos n) \<subseteq> set number_alphabet"
  using dec_pos_digits digit_in_alphabet by blast

lemma set_strip_zeros: "set (strip_zeros s) \<subseteq> set s"
  by (auto simp: strip_zeros_def dest: set_dropWhileD)

text \<open>The text is a fixed prefix, the separator or nothing, and a fixed rest.\<close>

definition split_at_point :: "rat \<Rightarrow> string \<times> bool \<times> string" where
  "split_at_point q =
    (let (x, d) = dec17 q; ds = dec_pos d in
     if x < -4 \<or> 17 \<le> x then
       (take 1 ds, strip_zeros (drop 1 ds) \<noteq> [], strip_zeros (drop 1 ds) @ exp_text x)
     else if 0 \<le> x then
       (take (nat x + 1) ds, strip_zeros (drop (nat x + 1) ds) \<noteq> [], strip_zeros (drop (nat x + 1) ds))
     else (''0'', replicate (nat (- x) - 1) CHR ''0'' @ strip_zeros ds \<noteq> [],
           replicate (nat (- x) - 1) CHR ''0'' @ strip_zeros ds))"

lemma fmt17g_pos_split:
  "fmt17g_pos p q = (case split_at_point q of (pre, b, post) \<Rightarrow> pre @ (if b then p else []) @ post)"
  by (simp add: fmt17g_pos_def split_at_point_def with_point_def Let_def split: prod.split)

lemma dec17_range:
  assumes "0 < q"
  shows "0 \<le> snd (dec17 q)" and "snd (dec17 q) < 10 ^ 17"
    and "expo 10 q \<le> fst (dec17 q)" and "fst (dec17 q) \<le> expo 10 q + 1"
proof -
  define x where "x = expo 10 q"
  define d where "d = round_half_even (q / scale 10 (x - 16))"
  have pos: "0 < scale 10 (x - 16)" by (simp add: scale_pos)
  have "q < scale 10 (x + 1)" using expo_upper [of 10 q] assms by (simp add: x_def)
  also have "scale 10 (x + 1) = scale 10 (x - 16) * 10 ^ 17"
    using power_int_add [of "10::rat" "x - 16" 17] by (simp add: scale_power_int add.commute)
  finally have "q / scale 10 (x - 16) < 10 ^ 17" using pos by (simp add: field_simps)
  then have "of_int d < (10 ^ 17 + 1 :: rat)"
    using round_half_even_le [of "q / scale 10 (x - 16)"] by (simp add: d_def)
  then have "of_int d < (of_int (10 ^ 17 + 1) :: rat)" by simp
  then have d: "d \<le> 10 ^ 17" by (simp only: of_int_less_iff)
  have "0 \<le> d" using assms pos by (simp add: d_def round_half_even_nonneg)
  with d show "0 \<le> snd (dec17 q)" "snd (dec17 q) < 10 ^ 17" "expo 10 q \<le> fst (dec17 q)"
    "fst (dec17 q) \<le> expo 10 q + 1"
    by (auto simp: dec17_def Let_def x_def [symmetric] d_def [symmetric])
qed

lemma exp_text_alphabet: "set (exp_text x) \<subseteq> set number_alphabet"
  using dec_pos_alphabet [of "\<bar>x\<bar>"]
  by (auto simp: exp_text_def Let_def number_alphabet_def split: if_splits)

lemma split_at_point_alphabet:
  assumes "0 < q" "split_at_point q = (pre, b, post)"
  shows "set pre \<subseteq> set number_alphabet" and "set post \<subseteq> set number_alphabet"
proof -
  obtain x d where xd: "dec17 q = (x, d)" by force
  then have "set (dec_pos d) \<subseteq> set number_alphabet"
    using dec17_range(1) [OF assms(1)] dec_pos_alphabet by simp
  then have ds: "set (take n (dec_pos d)) \<subseteq> set number_alphabet"
    "set (strip_zeros (drop n (dec_pos d))) \<subseteq> set number_alphabet"
    "set (strip_zeros (dec_pos d)) \<subseteq> set number_alphabet" for n
    using set_strip_zeros set_take_subset set_drop_subset by (meson order_trans)+
  have zero: "CHR ''0'' \<in> set number_alphabet" by (simp add: number_alphabet_def)
  have "set pre \<subseteq> set number_alphabet \<and> set post \<subseteq> set number_alphabet"
  proof (cases "x < -4 \<or> 17 \<le> x")
    case True
    then have "pre = take 1 (dec_pos d)" "post = strip_zeros (drop 1 (dec_pos d)) @ exp_text x"
      using assms(2) by (auto simp: split_at_point_def xd Let_def)
    with ds(1) [of 1] ds(2) [of 1] exp_text_alphabet [of x] show ?thesis by simp
  next
    case False
    show ?thesis
    proof (cases "0 \<le> x")
      case True
      with False have "pre = take (nat x + 1) (dec_pos d)" "post = strip_zeros (drop (nat x + 1) (dec_pos d))"
        using assms(2) by (auto simp: split_at_point_def xd Let_def)
      with ds(1) [of "nat x + 1"] ds(2) [of "nat x + 1"] show ?thesis by simp
    next
      case neg: False
      with False have "pre = ''0''" "post = replicate (nat (- x) - 1) CHR ''0'' @ strip_zeros (dec_pos d)"
        using assms(2) by (auto simp: split_at_point_def xd Let_def)
      with ds(3) zero show ?thesis by (auto simp: set_replicate_conv_if)
    qed
  qed
  then show "set pre \<subseteq> set number_alphabet" "set post \<subseteq> set number_alphabet" by simp_all
qed

lemma length_strip_zeros: "length (strip_zeros s) \<le> length s"
  by (simp add: strip_zeros_def length_dropWhile_le [of _ "rev s", simplified])

lemma decimal_exponent_range:
  assumes "d_valid (Finite s m)" "m \<noteq> 0"
  shows "- 330 \<le> fst (dec17 m)" and "fst (dec17 m) \<le> 330"
proof -
  have m: "0 < m" using assms by (auto simp: d_valid_def)
  have "scale 10 (- 330) < scale 2 (- 1074)" by (simp add: scale_def)
  also have "\<dots> \<le> m" by (rule d_valid_range(1) [OF assms])
  also have "\<dots> < scale 10 (expo 10 m + 1)" using m by (intro expo_upper) simp_all
  finally have lo: "- 330 < expo 10 m + 1" by (intro scale_strict_mono [of 10]) simp
  have "scale 10 (expo 10 m) \<le> m" using m by (intro expo_lower) simp_all
  also have "\<dots> < scale 2 1024" by (rule d_valid_range(2) [OF assms])
  also have "\<dots> < scale 10 320" by (simp add: scale_def)
  finally have hi: "expo 10 m < 320" by (intro scale_strict_mono [of 10]) simp
  show "- 330 \<le> fst (dec17 m)" "fst (dec17 m) \<le> 330"
    using dec17_range(3,4) [OF m] lo hi by simp_all
qed

lemma length_exp_text: "\<bar>x\<bar> < 1000 \<Longrightarrow> length (exp_text x) \<le> 5"
  using length_dec_pos [of "\<bar>x\<bar>" 3] by (auto simp: exp_text_def Let_def)

lemma split_at_point_length:
  assumes "d_valid (Finite s m)" "m \<noteq> 0" "split_at_point m = (pre, b, post)"
  shows "length pre + length post \<le> 22"
proof -
  have m: "0 < m" using assms by (auto simp: d_valid_def)
  obtain x d where xd: "dec17 m = (x, d)" by force
  have len: "length (dec_pos d) \<le> 17"
    using dec17_range(1,2) [OF m] length_dec_pos [of d 17] by (simp add: xd)
  have "\<bar>x\<bar> < 1000" using decimal_exponent_range [OF assms(1,2)] by (simp add: xd)
  then have e: "length (exp_text x) \<le> 5" by (rule length_exp_text)
  have parts: "length (take n (dec_pos d)) + length (strip_zeros (drop n (dec_pos d))) \<le> 17" for n
    using len length_strip_zeros [of "drop n (dec_pos d)"] by simp
  have whole: "length (strip_zeros (dec_pos d)) \<le> 17"
    using len length_strip_zeros [of "dec_pos d"] by simp
  show ?thesis
  proof (cases "x < -4 \<or> 17 \<le> x")
    case True
    then have "pre = take 1 (dec_pos d)" "post = strip_zeros (drop 1 (dec_pos d)) @ exp_text x"
      using assms(3) by (auto simp: split_at_point_def xd Let_def)
    with parts [of 1] e show ?thesis by simp
  next
    case False
    show ?thesis
    proof (cases "0 \<le> x")
      case True
      with False have "pre = take (nat x + 1) (dec_pos d)" "post = strip_zeros (drop (nat x + 1) (dec_pos d))"
        using assms(3) by (auto simp: split_at_point_def xd Let_def)
      with parts [of "nat x + 1"] show ?thesis by simp
    next
      case neg: False
      with False have "pre = ''0''" "post = replicate (nat (- x) - 1) CHR ''0'' @ strip_zeros (dec_pos d)"
        and "nat (- x) - 1 \<le> 3"
        using assms(3) by (auto simp: split_at_point_def xd Let_def)
      with whole show ?thesis by simp
    qed
  qed
qed

section \<open>The separator patch\<close>

text \<open>A locale's separator: not empty, short, and none of its bytes occurs in number text.\<close>

definition separator_ok :: "string \<Rightarrow> bool" where
  "separator_ok dp \<longleftrightarrow> dp \<noteq> [] \<and> length dp \<le> 8 \<and> set dp \<inter> set number_alphabet = {}"

lemma find_separator:
  assumes "set pre \<inter> set dp = {}" "dp \<noteq> []"
  shows "find_from dp (pre @ dp @ post) 0 = Some (length pre)"
proof (cases "find_from dp (pre @ dp @ post) 0")
  case None
  from find_from_None [OF this, of "length pre"] show ?thesis by simp
next
  case (Some k)
  have "k \<le> length pre"
    using find_from_least [OF Some, of "length pre"] by (cases "k \<le> length pre") auto
  moreover have "\<not> k < length pre"
  proof
    assume k: "k < length pre"
    have "take (length dp) (drop k (pre @ dp @ post)) ! 0 = dp ! 0"
      using find_from_Some [OF Some] by simp
    moreover have "take (length dp) (drop k (pre @ dp @ post)) ! 0 = pre ! k"
      using k assms(2) by (simp add: nth_append)
    ultimately have "pre ! k \<in> set dp" using assms(2) nth_mem [of 0 dp] by simp
    with k assms(1) nth_mem [of k pre] show False by blast
  qed
  ultimately show ?thesis using Some by simp
qed

lemma find_separator_absent:
  assumes "set s \<inter> set dp = {}" "dp \<noteq> []"
  shows "find_from dp s 0 = None"
proof (cases "find_from dp s 0")
  case (Some k)
  from find_from_Some [OF this] have "set dp \<subseteq> set s"
    by (metis set_drop_subset set_take_subset subset_trans)
  with assms show ?thesis by (cases dp) auto
qed

lemma number_text_patched:
  assumes "separator_ok dp" "set pre \<subseteq> set number_alphabet" "set post \<subseteq> set number_alphabet"
    and "length pre + length post \<le> 23"
    and "\<And>p. fmt17g p v = pre @ (if b then p else []) @ post"
  shows "number_text dp v = pre @ (if b then ''.'' else []) @ post"
proof -
  have len: "length dp \<le> 8" and ne: "dp \<noteq> []" and disj: "set pre \<inter> set dp = {}" "set post \<inter> set dp = {}"
    using assms(1-3) by (auto simp: separator_ok_def)
  have buffer: "take 39 (fmt17g dp v) = pre @ (if b then dp else []) @ post"
  proof -
    have "length (pre @ (if b then dp else []) @ post) \<le> 39" using assms(4) len by (cases b) simp_all
    then show ?thesis by (simp only: assms(5) take_all)
  qed
  show ?thesis
  proof (cases b)
    case True
    then show ?thesis
      using find_separator [OF disj(1) ne, of post] unfolding number_text_def buffer
      by (simp add: ne Let_def)
  next
    case False
    then show ?thesis
      using find_separator_absent [of "pre @ post" dp] disj ne unfolding number_text_def buffer
      by (simp add: Let_def Int_Un_distrib2)
  qed
qed

lemma split_at_point_nonempty: "split_at_point q = (pre, b, post) \<Longrightarrow> pre \<noteq> []"
  by (auto simp: split_at_point_def Let_def split: prod.splits if_splits)

lemma number_text_plain:
  assumes "isfinite v" "d_valid v" "separator_ok dp"
  shows "number_text dp v = fmt17g ''.'' v" and "length (fmt17g ''.'' v) \<le> 24"
    and "set (number_text dp v) \<subseteq> set (''.'' @ number_alphabet)" and "number_text dp v \<noteq> []"
proof -
  obtain s m where v: "v = Finite s m" using assms(1) by (rule isfiniteE)
  have sign: "CHR ''-'' \<in> set number_alphabet" "CHR ''0'' \<in> set number_alphabet"
    by (simp_all add: number_alphabet_def)
  define sg where "sg = (if s then ''-'' else [] :: string)"
  have sg: "set sg \<subseteq> set number_alphabet" "length sg \<le> 1" using sign by (cases s; simp add: sg_def)+
  have "\<exists>pre b post. (\<forall>p. fmt17g p v = pre @ (if b then p else []) @ post) \<and> pre \<noteq> [] \<and>
      set pre \<subseteq> set number_alphabet \<and> set post \<subseteq> set number_alphabet \<and> length pre + length post \<le> 23"
  proof (cases "m = 0")
    case True
    then show ?thesis using sg sign
      by (intro exI [of _ "sg @ ''0''"] exI [of _ False] exI [of _ "[]"]) (simp add: fmt17g_def v sg_def)
  next
    case False
    obtain pre b post where split: "split_at_point m = (pre, b, post)" by (cases "split_at_point m")
    have "0 < m" using assms(2) False by (auto simp: v d_valid_def)
    then have "set pre \<subseteq> set number_alphabet" "set post \<subseteq> set number_alphabet" "length pre + length post \<le> 22"
      using split_at_point_alphabet [OF _ split] split_at_point_length [OF _ False split] assms(2)
      by (auto simp: v)
    with False sg split split_at_point_nonempty [OF split] show ?thesis
      by (intro exI [of _ "sg @ pre"] exI [of _ b] exI [of _ post])
        (simp add: fmt17g_def v sg_def fmt17g_pos_split)
  qed
  then obtain pre b post where p: "\<And>p. fmt17g p v = pre @ (if b then p else []) @ post" and "pre \<noteq> []"
    and a: "set pre \<subseteq> set number_alphabet" "set post \<subseteq> set number_alphabet" "length pre + length post \<le> 23"
    by blast
  from number_text_patched [OF assms(3) a p] \<open>pre \<noteq> []\<close> a
  show "number_text dp v = fmt17g ''.'' v" "length (fmt17g ''.'' v) \<le> 24"
    "set (number_text dp v) \<subseteq> set (''.'' @ number_alphabet)" "number_text dp v \<noteq> []"
    by (auto simp: p)
qed

section \<open>Properties\<close>

text \<open>C35. JSON numbers do not depend on the process locale: for every double the writer may be
  handed (finite, so that its magnitude is 0 or between 2^-1074 and 2^1024) and every separator
  whose bytes are not number characters, also a multi-byte one, the text is the \<open>%.17g\<close> text with
  a dot, and it is never cut by the 40-byte buffer.\<close>

theorem number_text_locale_independent:
  assumes "isfinite v" "d_valid v" "separator_ok dp"
  shows "number_text dp v = fmt17g ''.'' v \<and> length (fmt17g ''.'' v) \<le> 24 \<and>
    set (number_text dp v) \<subseteq> set (''.'' @ number_alphabet)"
  using number_text_plain [OF assms] by blast

theorem number_text_locale_independent_witness:
  "number_text '','' (Finite True (5/2)) = ''-2.5''"
proof -
  have "d_valid (Finite True (5/2))" "separator_ok '',''" "fmt17g ''.'' (Finite True (5/2)) = ''-2.5''"
    by code_simp+
  then show ?thesis using number_text_locale_independent [of "Finite True (5/2)" "'',''"] by simp
qed

end
