(* ===== verification/File_System.thy ===== *)
theory File_System
  imports Tomb_Prelude "HOL-Library.AList"
begin

text \<open>
  The part of \<open>std::filesystem\<close> and the file streams that the SDK uses, as a store from paths
  to bytes. Three predicates say where opening for reading, opening for writing and deleting
  succeed, so that a locked, missing or read-only file is a branch of the model. A file that was
  opened is written completely: the code does not check short writes. Directories exist once
  configured; a listing has the order of the store.
\<close>

type_synonym path = "string list"

record file_system =
  fl_files :: "(path \<times> string) list"
  fl_readable :: "path \<Rightarrow> bool"
  fl_writable :: "path \<Rightarrow> bool"
  fl_removable :: "path \<Rightarrow> bool"

definition fs_lookup :: "file_system \<Rightarrow> path \<Rightarrow> string option" where
  "fs_lookup fs p = map_of (fl_files fs) p"

definition fs_exists :: "file_system \<Rightarrow> path \<Rightarrow> bool" where
  "fs_exists fs p \<longleftrightarrow> fs_lookup fs p \<noteq> None"

text \<open>\<open>std::ifstream\<close>: \<^const>\<open>None\<close> when the open fails.\<close>

definition fs_read :: "file_system \<Rightarrow> path \<Rightarrow> string option" where
  "fs_read fs p = (if fl_readable fs p then fs_lookup fs p else None)"

text \<open>\<open>std::ofstream\<close> with \<open>trunc\<close> and with \<open>app\<close>; the flag is whether the open succeeded.\<close>

definition fs_put :: "path \<Rightarrow> string \<Rightarrow> file_system \<Rightarrow> file_system" where
  "fs_put p s fs = fs\<lparr>fl_files := AList.update p s (fl_files fs)\<rparr>"

definition fs_write :: "path \<Rightarrow> string \<Rightarrow> file_system \<Rightarrow> bool \<times> file_system" where
  "fs_write p s fs = (if fl_writable fs p then (True, fs_put p s fs) else (False, fs))"

definition fs_append :: "path \<Rightarrow> string \<Rightarrow> file_system \<Rightarrow> bool \<times> file_system" where
  "fs_append p s fs =
    (if fl_writable fs p
     then (True, fs_put p ((case fs_lookup fs p of None \<Rightarrow> [] | Some t \<Rightarrow> t) @ s) fs)
     else (False, fs))"

definition fs_remove :: "path \<Rightarrow> file_system \<Rightarrow> file_system" where
  "fs_remove p fs =
    (if fl_removable fs p then fs\<lparr>fl_files := AList.delete p (fl_files fs)\<rparr> else fs)"

definition fs_rename :: "path \<Rightarrow> path \<Rightarrow> file_system \<Rightarrow> file_system" where
  "fs_rename p q fs =
    (case fs_lookup fs p of
       None \<Rightarrow> fs
     | Some s \<Rightarrow> if fl_removable fs p \<and> fl_writable fs q
                 then fs_put q s (fs\<lparr>fl_files := AList.delete p (fl_files fs)\<rparr>) else fs)"

text \<open>The regular files directly inside a directory.\<close>

definition fs_list :: "file_system \<Rightarrow> path \<Rightarrow> (path \<times> string) list" where
  "fs_list fs dir = filter (\<lambda>(p, s). p \<noteq> [] \<and> butlast p = dir) (fl_files fs)"

definition fs_ok :: "file_system \<Rightarrow> bool" where
  "fs_ok fs \<longleftrightarrow> distinct (map fst (fl_files fs))"

section \<open>The store interface\<close>

text \<open>
  What the components above rely on: a write is read back, deleting forgets, and neither
  touches another path. Proved once, reached through the interpretation below.
\<close>

locale file_store =
  fixes lookup :: "'s \<Rightarrow> 'p \<Rightarrow> 'b option"
    and put :: "'p \<Rightarrow> 'b \<Rightarrow> 's \<Rightarrow> 's"
    and del :: "'p \<Rightarrow> 's \<Rightarrow> 's"
    and deletable :: "'s \<Rightarrow> 'p \<Rightarrow> bool"
  assumes lookup_put: "lookup (put p b s) q = (if q = p then Some b else lookup s q)"
    and lookup_del: "deletable s p \<Longrightarrow> lookup (del p s) q = (if q = p then None else lookup s q)"
    and del_locked: "\<not> deletable s p \<Longrightarrow> del p s = s"
    and deletable_put: "deletable (put p b s) q = deletable s q"
    and deletable_del: "deletable (del p s) q = deletable s q"
begin

lemma put_then_del: "deletable s p \<Longrightarrow> lookup s p = None \<Longrightarrow> lookup (del p (put p b s)) = lookup s"
  by (auto simp: lookup_put lookup_del deletable_put fun_eq_iff)

lemma put_put: "lookup (put p b (put p a s)) = lookup (put p b s)"
  by (auto simp: lookup_put fun_eq_iff)

lemma other_paths: "q \<noteq> p \<Longrightarrow> lookup (put p b s) q = lookup s q \<and> lookup (del p s) q = lookup s q"
  by (cases "deletable s p") (simp_all add: lookup_put lookup_del del_locked)

lemma del_never_adds: "lookup (del p s) q = Some b \<Longrightarrow> lookup s q = Some b"
  by (cases "deletable s p") (auto simp: lookup_del del_locked split: if_splits)

lemma deletable_fold: "deletable (fold del ps s) q = deletable s q"
  by (induction ps arbitrary: s) (simp_all add: deletable_del)

lemma del_all:
  "\<forall>p \<in> set ps. deletable s p \<Longrightarrow>
    lookup (fold del ps s) q = (if q \<in> set ps then None else lookup s q)"
  by (induction ps arbitrary: s) (auto simp: lookup_del deletable_del)

end

interpretation disk: file_store fs_lookup fs_put fs_remove fl_removable
  by unfold_locales
    (auto simp: fs_lookup_def fs_put_def fs_remove_def update_conv' delete_conv')

lemma fs_flags_put [simp]:
  "fl_readable (fs_put p s fs) = fl_readable fs" "fl_writable (fs_put p s fs) = fl_writable fs"
  "fl_removable (fs_put p s fs) = fl_removable fs"
  by (simp_all add: fs_put_def)

lemma fs_flags_remove [simp]:
  "fl_readable (fs_remove p fs) = fl_readable fs" "fl_writable (fs_remove p fs) = fl_writable fs"
  "fl_removable (fs_remove p fs) = fl_removable fs"
  by (simp_all add: fs_remove_def)

lemma fs_ok_put [simp]: "fs_ok fs \<Longrightarrow> fs_ok (fs_put p s fs)"
  by (simp add: fs_ok_def fs_put_def distinct_update)

lemma fs_ok_remove [simp]: "fs_ok fs \<Longrightarrow> fs_ok (fs_remove p fs)"
  by (simp add: fs_ok_def fs_remove_def distinct_delete)

lemma in_files_lookup: "fs_ok fs \<Longrightarrow> (p, s) \<in> set (fl_files fs) \<longleftrightarrow> fs_lookup fs p = Some s"
  by (simp add: fs_ok_def fs_lookup_def)

end
