(* ===== verification/Native_Crash.thy ===== *)
theory Native_Crash
  imports File_System
begin

text \<open>
  \<^verbatim>\<open>src/native_crash.cpp\<close>: the native crash handler of the POSIX build with 64-bit addresses, and the
  parser of the dump it leaves. Memory the loader maps is a list of bytes whose reads are checked,
  so an out-of-bounds access would be a failure of the model. The results of \<open>write\<close> are an argument.
\<close>

unbundle bit_operations_syntax

type_synonym u64 = "64 word"
type_synonym u32 = "32 word"

section \<open>Numbers as text\<close>

text \<open>The digits of the \<open>do\<close> loop, least significant first.\<close>

function dec_tmp :: "int \<Rightarrow> string" where
  "dec_tmp value = digit_char (nat (value mod 10)) # (if value div 10 \<le> 0 then [] else dec_tmp (value div 10))"
  by pat_completeness auto
termination
  by (relation "measure nat") auto

declare dec_tmp.simps [simp del]

definition dec_to :: "int \<Rightarrow> string" where
  "dec_to value = (if value < 0 then ''-'' @ rev (dec_tmp (- value)) else rev (dec_tmp value))"

definition nibble :: "u64 \<Rightarrow> nat \<Rightarrow> nat" where
  "nibble value k = unat (drop_bit (4 * k) value AND 0xF)"

text \<open>The number of the first non-zero nibble from the top, 0 if there is none: \<open>shift\<close> is four times it.\<close>

fun hex_start :: "u64 \<Rightarrow> nat \<Rightarrow> nat" where
  "hex_start value 0 = 0"
| "hex_start value (Suc k) = (if nibble value (Suc k) = 0 then hex_start value k else Suc k)"

fun hex_loop :: "u64 \<Rightarrow> nat \<Rightarrow> string" where
  "hex_loop value 0 = [hex_digits ! nibble value 0]"
| "hex_loop value (Suc k) = hex_digits ! nibble value (Suc k) # hex_loop value k"

definition hex_to :: "u64 \<Rightarrow> string" where
  "hex_to value = ''0x'' @ hex_loop value (hex_start value 15)"

definition signal_name :: "int \<Rightarrow> string" where
  "signal_name n =
    (if n = 4 then ''SIGILL'' else if n = 5 then ''SIGTRAP'' else if n = 6 then ''SIGABRT''
     else if n = 7 then ''SIGBUS'' else if n = 8 then ''SIGFPE'' else if n = 11 then ''SIGSEGV''
     else ''signal '' @ dec_to n)"

section \<open>The module table\<close>

record module_entry =
  me_base :: u64
  me_end :: u64
  me_name :: string
  me_build_id :: string

definition max_modules :: nat where "max_modules = 512"
definition max_build_id_bytes :: nat where "max_build_id_bytes = 20"
definition max_name_len :: nat where "max_name_len = 255"

definition copy_bounded :: "cstr \<Rightarrow> nat \<Rightarrow> string" where
  "copy_bounded src cap = (case src of None \<Rightarrow> [] | Some s \<Rightarrow> take cap s)"

text \<open>
  A \<open>PT_NOTE\<close> segment as its bytes; offsets replace the pointers into it. A read past the end is
  \<^const>\<open>None\<close>. Note headers are three little-endian 32-bit words: name size, descriptor size, type.
\<close>

definition byte_at :: "string \<Rightarrow> nat \<Rightarrow> char option" where
  "byte_at seg i = (if i < length seg then Some (seg ! i) else None)"

definition u32_at :: "string \<Rightarrow> nat \<Rightarrow> u32 option" where
  "u32_at seg i =
    (case (byte_at seg i, byte_at seg (i + 1), byte_at seg (i + 2), byte_at seg (i + 3)) of
       (Some a, Some b, Some c, Some d) \<Rightarrow>
         Some (of_char a OR push_bit 8 (of_char b) OR push_bit 16 (of_char c) OR push_bit 24 (of_char d))
     | _ \<Rightarrow> None)"

fun bytes_at :: "string \<Rightarrow> nat \<Rightarrow> nat \<Rightarrow> string option" where
  "bytes_at seg i 0 = Some []"
| "bytes_at seg i (Suc n) =
    (case (byte_at seg i, bytes_at seg (Suc i) n) of (Some c, Some s) \<Rightarrow> Some (c # s) | _ \<Rightarrow> None)"

text \<open>\<open>(n + 3) & ~3u\<close> on \<open>unsigned\<close>: it wraps.\<close>

definition align4 :: "u32 \<Rightarrow> nat" where
  "align4 n = unat ((n + 3) AND NOT 3)"

text \<open>
  The outer \<^const>\<open>None\<close> would be an access outside the segment; the inner one leaves the entry's build id
  as it is. \<open>3\<close> is \<open>NT_GNU_BUILD_ID\<close>.
\<close>

function read_build_id :: "string \<Rightarrow> nat \<Rightarrow> string option option" where
  "read_build_id seg note =
    (if length seg < note + 12 then Some None
     else
       case (u32_at seg note, u32_at seg (note + 4), u32_at seg (note + 8)) of
         (Some namesz, Some descsz, Some ty) \<Rightarrow>
           (let name = note + 12; desc = name + align4 namesz in
            if length seg < desc then Some None
            else
              case (if ty = 3 \<and> namesz = 4 \<and> name + 4 \<le> length seg
                    then map_option (\<lambda>s. s = ''GNU'') (bytes_at seg name 3) else Some False) of
                None \<Rightarrow> None
              | Some True \<Rightarrow>
                  (let len = (if max_build_id_bytes < unat descsz then max_build_id_bytes else unat descsz)
                   in if desc + len \<le> length seg then map_option Some (bytes_at seg desc len) else Some None)
              | Some False \<Rightarrow>
                  (let next_note = desc + align4 descsz in
                   if next_note \<le> note then Some None else read_build_id seg next_note))
       | _ \<Rightarrow> None)"
  by pat_completeness auto
termination
  by (relation "measure (\<lambda>(seg, note). length seg - note)") auto

declare read_build_id.simps [simp del]

text \<open>One program header: its type, virtual address and size, and the bytes of its segment.\<close>

datatype phdr_type = PT_LOAD | PT_NOTE | PT_OTHER

record phdr =
  ph_type :: phdr_type
  ph_vaddr :: u64
  ph_memsz :: u64
  ph_bytes :: string

record phdr_scan =
  ps_lo :: u64
  ps_hi :: u64
  ps_first :: bool
  ps_build_id :: string

definition phdr_step :: "u64 \<Rightarrow> phdr \<Rightarrow> phdr_scan \<Rightarrow> phdr_scan option" where
  "phdr_step addr ph s =
    (case ph_type ph of
       PT_LOAD \<Rightarrow>
         let seg_lo = addr + ph_vaddr ph; seg_hi = seg_lo + ph_memsz ph in
         Some (s\<lparr>ps_lo := (if ps_first s \<or> seg_lo < ps_lo s then seg_lo else ps_lo s),
                 ps_hi := (if ps_first s \<or> ps_hi s < seg_hi then seg_hi else ps_hi s), ps_first := False\<rparr>)
     | PT_NOTE \<Rightarrow>
         map_option (\<lambda>b. case b of None \<Rightarrow> s | Some build_id \<Rightarrow> s\<lparr>ps_build_id := build_id\<rparr>) (read_build_id (ph_bytes ph) 0)
     | PT_OTHER \<Rightarrow> Some s)"

fun phdr_loop :: "u64 \<Rightarrow> phdr list \<Rightarrow> phdr_scan \<Rightarrow> phdr_scan option" where
  "phdr_loop addr [] s = Some s"
| "phdr_loop addr (ph # phs) s = (case phdr_step addr ph s of None \<Rightarrow> None | Some s \<Rightarrow> phdr_loop addr phs s)"

text \<open>
  The table: its slots and how many are in use. A module without \<open>PT_LOAD\<close> leaves its name and build id
  in the slot the next module takes.
\<close>

record module_table =
  mt_slots :: "module_entry list"
  mt_count :: nat

definition empty_table :: module_table where
  "empty_table =
    \<lparr>mt_slots = replicate max_modules \<lparr>me_base = 0, me_end = 0, me_name = [], me_build_id = []\<rparr>, mt_count = 0\<rparr>"

definition table_modules :: "module_table \<Rightarrow> module_entry list" where
  "table_modules t = take (mt_count t) (mt_slots t)"

definition phdr_callback :: "u64 \<Rightarrow> cstr \<Rightarrow> phdr list \<Rightarrow> module_table \<Rightarrow> module_table option" where
  "phdr_callback addr dlpi_name phs t =
    (if max_modules \<le> mt_count t then Some t
     else
       let name = (if cstr_blank dlpi_name then Some ''main'' else dlpi_name);
           entry = (mt_slots t ! mt_count t)\<lparr>me_name := copy_bounded name max_name_len\<rparr>
       in case phdr_loop addr phs \<lparr>ps_lo = 0, ps_hi = 0, ps_first = True, ps_build_id = me_build_id entry\<rparr> of
            None \<Rightarrow> None
          | Some s \<Rightarrow>
              let entry = entry\<lparr>me_build_id := ps_build_id s\<rparr> in
              if ps_first s then Some (t\<lparr>mt_slots := (mt_slots t)[mt_count t := entry]\<rparr>)
              else Some (t\<lparr>mt_slots := (mt_slots t)[mt_count t := entry\<lparr>me_base := ps_lo s, me_end := ps_hi s\<rparr>],
                           mt_count := mt_count t + 1\<rparr>))"

fun resolve_module :: "module_entry list \<Rightarrow> u64 \<Rightarrow> (module_entry \<times> u64) option" where
  "resolve_module [] addr = None"
| "resolve_module (m # ms) addr =
    (if me_base m \<le> addr \<and> addr < me_end m then Some (m, addr - me_base m) else resolve_module ms addr)"

section \<open>The handler\<close>

datatype write_result = Wrote nat | Interrupted | Failed

text \<open>
  \<open>write_all\<close> on the results \<open>write\<close> gives: the bytes that reached the file. A positive result is
  at most the rest; no result left is a process that died.
\<close>

fun write_all :: "write_result list \<Rightarrow> string \<Rightarrow> string" where
  "write_all results [] = []"
| "write_all [] (c # cs) = []"
| "write_all (Interrupted # results) (c # cs) = write_all results (c # cs)"
| "write_all (Failed # results) (c # cs) = []"
| "write_all (Wrote n # results) (c # cs) =
    (if n = 0 then [] else take n (c # cs) @ write_all results (drop n (c # cs)))"

definition build_id_hex :: "string \<Rightarrow> string" where
  "build_id_hex bytes =
    concat (map (\<lambda>c. [hex_digits ! (of_char c div 16), hex_digits ! (of_char c mod 16)]) bytes)"

text \<open>The bytes the handler writes, in the order of its \<open>write\<close> calls.\<close>

definition newline :: string where "newline = [CHR 0x0A]"

definition frame_text :: "module_entry list \<Rightarrow> u64 \<Rightarrow> string" where
  "frame_text modules addr =
    ''frame '' @
    (case resolve_module modules addr of
       None \<Rightarrow> ''?? '' @ hex_to addr @ '' '' @ newline
     | Some (m, offset) \<Rightarrow> me_name m @ '' '' @ hex_to offset @ '' '' @ build_id_hex (me_build_id m) @ newline)"

definition dump_text :: "module_entry list \<Rightarrow> int \<Rightarrow> int \<Rightarrow> u64 \<Rightarrow> u64 \<Rightarrow> u64 \<Rightarrow> string" where
  "dump_text modules sig code fault pc lr =
    ''tombstone-native-crash 1'' @ newline @
    ''signal '' @ dec_to sig @ newline @
    ''code '' @ dec_to code @ newline @
    ''fault '' @ hex_to fault @ newline @
    (if pc \<noteq> 0 then frame_text modules pc else []) @
    (if lr \<noteq> 0 then frame_text modules lr else []) @
    ''end'' @ newline"

text \<open>What the previous disposition of a signal was, and what the handler does in turn.\<close>

datatype disposition = SigDefault | SigIgnore | SigPlain | SigInfo

datatype handler_action = CallInfo int | CallPlain int | ReraiseDefault int

definition handled_signals :: "int list" where
  "handled_signals = [11, 6, 7, 4, 8, 5]"

definition chain_old :: "(int \<Rightarrow> disposition) \<Rightarrow> int \<Rightarrow> handler_action list" where
  "chain_old old_actions sig =
    (if sig \<notin> set handled_signals then [ReraiseDefault sig]
     else case old_actions sig of
            SigInfo \<Rightarrow> [CallInfo sig]
          | SigDefault \<Rightarrow> [ReraiseDefault sig]
          | SigIgnore \<Rightarrow> [ReraiseDefault sig]
          | SigPlain \<Rightarrow> [CallPlain sig])"

text \<open>
  The handler: the re-entrance flag and the text already in the dump file, and afterwards the same
  with the actions. The file is \<^const>\<open>None\<close> when there is no descriptor.
\<close>

definition signal_handler ::
    "module_entry list \<Rightarrow> (int \<Rightarrow> disposition) \<Rightarrow> int \<Rightarrow> int \<Rightarrow> u64 \<Rightarrow> u64 \<Rightarrow> u64 \<Rightarrow>
      bool \<times> string option \<Rightarrow> (bool \<times> string option) \<times> handler_action list" where
  "signal_handler modules old_actions sig code fault pc lr = (\<lambda>(in_handler, dump).
    if in_handler then ((True, dump), chain_old old_actions sig)
    else ((True, map_option (\<lambda>text. text @ dump_text modules sig code fault pc lr) dump),
          chain_old old_actions sig @ [ReraiseDefault sig]))"

section \<open>Reading the dump\<close>

record crash_frame =
  cf_module :: string
  cf_offset :: u64
  cf_build_id :: string

record crash_dump =
  cd_signal :: int
  cd_code :: int
  cd_fault :: u64
  cd_frames :: "crash_frame list"

definition hex_digit_val :: "char \<Rightarrow> u64 option" where
  "hex_digit_val c =
    (if is_digit c then Some (of_nat (digit_val c))
     else if CHR ''a'' \<le> c \<and> c \<le> CHR ''f'' then Some (of_nat (10 + (of_char c - 97)))
     else if CHR ''A'' \<le> c \<and> c \<le> CHR ''F'' then Some (of_nat (10 + (of_char c - 65)))
     else None)"

fun parse_hex_loop :: "u64 \<Rightarrow> string \<Rightarrow> u64" where
  "parse_hex_loop v [] = v"
| "parse_hex_loop v (c # cs) =
    (case hex_digit_val c of None \<Rightarrow> v | Some d \<Rightarrow> parse_hex_loop (push_bit 4 v OR d) cs)"

definition parse_hex :: "string \<Rightarrow> u64" where
  "parse_hex s =
    parse_hex_loop 0 (if take 2 s = ''0x'' \<or> take 2 s = ''0X'' then drop 2 s else s)"

fun parse_dec_loop :: "int \<Rightarrow> string \<Rightarrow> int" where
  "parse_dec_loop v [] = v"
| "parse_dec_loop v (c # cs) = (if is_digit c then parse_dec_loop (v * 10 + int (digit_val c)) cs else v)"

text \<open>\<open>long\<close> overflow needs more than eighteen digits, which the writer never produces.\<close>

definition parse_dec :: "string \<Rightarrow> int" where
  "parse_dec s =
    (if take 1 s = ''-'' then - parse_dec_loop 0 (drop 1 s) else parse_dec_loop 0 s)"

definition before_space :: "string \<Rightarrow> string" where
  "before_space = takeWhile (\<lambda>c. c \<noteq> CHR '' '')"

definition after_space :: "string \<Rightarrow> string option" where
  "after_space s = (case dropWhile (\<lambda>c. c \<noteq> CHR '' '') s of [] \<Rightarrow> None | _ # r \<Rightarrow> Some r)"

definition rstrip_space :: "string \<Rightarrow> string" where
  "rstrip_space s = rev (dropWhile (\<lambda>c. c = CHR '' '') (rev s))"

definition parse_frame :: "string \<Rightarrow> crash_frame option" where
  "parse_frame rest =
    (case after_space rest of
       None \<Rightarrow> None
     | Some after \<Rightarrow>
         Some \<lparr>cf_module = before_space rest, cf_offset = parse_hex (before_space after),
               cf_build_id = (case after_space after of None \<Rightarrow> [] | Some bid \<Rightarrow> rstrip_space bid)\<rparr>)"

text \<open>C's conversion of a \<open>long\<close> to \<open>int\<close>: 32 bits, two's complement.\<close>

definition to_int :: "int \<Rightarrow> int" where
  "to_int v = sint (word_of_int v :: u32)"

definition parse_line :: "string \<Rightarrow> bool \<times> crash_dump \<Rightarrow> bool \<times> crash_dump" where
  "parse_line line = (\<lambda>(saw_header, d).
    if line = [] then (saw_header, d)
    else if prefix ''tombstone-native-crash'' line then (True, d)
    else if prefix ''signal '' line then (saw_header, d\<lparr>cd_signal := to_int (parse_dec (drop 7 line))\<rparr>)
    else if prefix ''code '' line then (saw_header, d\<lparr>cd_code := to_int (parse_dec (drop 5 line))\<rparr>)
    else if prefix ''fault '' line then (saw_header, d\<lparr>cd_fault := parse_hex (drop 6 line)\<rparr>)
    else if prefix ''frame '' line
    then (case parse_frame (drop 6 line) of
            None \<Rightarrow> (saw_header, d)
          | Some f \<Rightarrow> (saw_header, d\<lparr>cd_frames := cd_frames d @ [f]\<rparr>))
    else (saw_header, d))"

text \<open>The line loop over the text; a missing final newline ends the last line at the end.\<close>

function dump_lines :: "string \<Rightarrow> string list" where
  "dump_lines text =
    (if text = [] then []
     else takeWhile (\<lambda>c. c \<noteq> CHR 0x0A) text #
          dump_lines (drop 1 (dropWhile (\<lambda>c. c \<noteq> CHR 0x0A) text)))"
  by pat_completeness auto
termination
proof (relation "measure length")
  fix s :: string
  assume "s \<noteq> []"
  with length_dropWhile_le [of "\<lambda>c. c \<noteq> CHR 0x0A" s]
  show "(drop 1 (dropWhile (\<lambda>c. c \<noteq> CHR 0x0A) s), s) \<in> measure length"
    by (cases s) auto
qed simp

declare dump_lines.simps [simp del]

definition parse_dump :: "string \<Rightarrow> crash_dump option" where
  "parse_dump text =
    (let (saw_header, d) = fold parse_line (dump_lines text)
           (False, \<lparr>cd_signal = 0, cd_code = 0, cd_fault = 0, cd_frames = []\<rparr>)
     in if saw_header then Some d else None)"

definition dump_file_name :: string where "dump_file_name = ''native-crash.dump''"

definition take_previous_dump :: "path \<Rightarrow> file_system \<Rightarrow> crash_dump option \<times> file_system" where
  "take_previous_dump data_dir fs =
    (let dump_path = data_dir @ [dump_file_name] in
     if \<not> fs_exists fs dump_path then (None, fs)
     else ((case fs_read fs dump_path of None \<Rightarrow> None | Some text \<Rightarrow> parse_dump text),
           fs_remove dump_path fs))"

text \<open>
  \<open>install\<close>: the state it leaves (the module table and whether the handler is installed) and the
  disk. \<open>loaded\<close> are the modules \<open>dl_iterate_phdr\<close> reports and \<open>any\<close> says whether a handler could be set.
\<close>

record handler_state =
  hs_modules :: module_table
  hs_dump_open :: bool
  hs_installed :: bool

fun load_modules :: "(u64 \<times> cstr \<times> phdr list) list \<Rightarrow> module_table \<Rightarrow> module_table option" where
  "load_modules [] modules = Some modules"
| "load_modules ((addr, name, phs) # rest) modules =
    (case phdr_callback addr name phs modules of None \<Rightarrow> None | Some modules \<Rightarrow> load_modules rest modules)"

definition install_handler ::
    "path \<Rightarrow> (u64 \<times> cstr \<times> phdr list) list \<Rightarrow> bool \<Rightarrow> handler_state \<Rightarrow> file_system \<Rightarrow>
      (bool \<times> handler_state \<times> file_system) option" where
  "install_handler data_dir loaded any s fs =
    (if hs_installed s then Some (True, s, fs)
     else
       let (opened, fs) = fs_write (data_dir @ [dump_file_name]) [] fs in
       if \<not> opened then Some (False, s\<lparr>hs_dump_open := False\<rparr>, fs)
       else
         case load_modules loaded ((hs_modules s)\<lparr>mt_count := 0\<rparr>) of
           None \<Rightarrow> None
         | Some modules \<Rightarrow>
             if \<not> any then Some (False, s\<lparr>hs_modules := modules, hs_dump_open := False\<rparr>, fs)
             else Some (True, s\<lparr>hs_modules := modules, hs_dump_open := True, hs_installed := True\<rparr>, fs))"

end
