(* ===== verification/Native_Crash_Roundtrip.thy ===== *)
theory Native_Crash_Roundtrip
  imports Native_Crash
begin

text \<open>
  The dump the handler writes is the dump the next launch reads, and the table built at install
  time stays within its bounds whatever the loaded modules contain.
\<close>

section \<open>Hexadecimal\<close>

lemma hex_digit_val_nth: "n < 16 \<Longrightarrow> hex_digit_val (hex_digits ! n) = Some (of_nat n)"
proof -
  have "list_all (\<lambda>n. hex_digit_val (hex_digits ! n) = Some (of_nat n)) [0..<16]"
    by (simp add: upt_rec hex_digits_def hex_digit_val_def is_digit_def digit_val_def)
  then show "n < 16 \<Longrightarrow> ?thesis" by (simp add: list_all_iff)
qed

lemma nibble_less [simp]: "nibble v k < 16"
proof -
  have "drop_bit (4 * k) v AND 0xF = take_bit 4 (drop_bit (4 * k) v)"
    by (simp add: take_bit_eq_mask mask_eq_exp_minus_1)
  then show ?thesis
    by (simp add: nibble_def unsigned_take_bit_eq take_bit_nat_less_exp [of 4, simplified])
qed

lemma of_nat_nibble: "of_nat (nibble v k) = drop_bit (4 * k) v AND 0xF"
  by (simp add: nibble_def)

lemma nibble_split: "push_bit 4 (drop_bit 4 w) OR (w AND 0xF) = (w :: u64)"
proof (rule bit_eqI)
  fix i
  have "bit (push_bit 4 (drop_bit 4 w) OR (w AND mask 4)) i = bit w i"
    by (cases "4 \<le> i") (auto simp: bit_simps dest: bit_imp_le_length)
  moreover have "(0xF :: u64) = mask 4" by (simp add: mask_eq_exp_minus_1)
  ultimately show "bit (push_bit 4 (drop_bit 4 w) OR (w AND 0xF)) i = bit w i" by simp
qed

lemma drop_nibble: "push_bit 4 (drop_bit (4 * Suc k) v) OR (drop_bit (4 * k) v AND 0xF) = drop_bit (4 * k) (v :: u64)"
  using nibble_split [of "drop_bit (4 * k) v"] by (simp add: add.commute)

lemma parse_hex_loop_digits:
  "parse_hex_loop (drop_bit (4 * Suc k) v) (hex_loop v k) = v"
proof (induction k)
  case 0
  then show ?case using drop_nibble [of 0 v] by (simp add: hex_digit_val_nth of_nat_nibble)
next
  case (Suc k)
  have "push_bit 4 (drop_bit (4 * Suc (Suc k)) v) OR of_nat (nibble v (Suc k)) = drop_bit (4 * Suc k) v"
    unfolding of_nat_nibble by (rule drop_nibble)
  with Suc show ?case by (simp add: hex_digit_val_nth)
qed

lemma parse_hex_start:
  "drop_bit (4 * Suc k) v = 0 \<Longrightarrow> parse_hex_loop 0 (hex_loop v (hex_start v k)) = v"
proof (induction k)
  case 0
  then show ?case using parse_hex_loop_digits [of 0 v] by simp
next
  case (Suc k)
  show ?case
  proof (cases "nibble v (Suc k) = 0")
    case True
    have "drop_bit (4 * Suc k) v = push_bit 4 (drop_bit (4 * Suc (Suc k)) v) OR of_nat (nibble v (Suc k))"
      unfolding of_nat_nibble by (rule drop_nibble [symmetric])
    with Suc True show ?thesis by simp
  next
    case False
    with Suc.prems parse_hex_loop_digits [of "Suc k" v] show ?thesis by simp
  qed
qed

lemma parse_hex_to [simp]: "parse_hex (hex_to v) = v"
proof -
  have "drop_bit (4 * Suc 15) v = 0" by (rule bit_eqI) (auto simp: bit_simps dest: bit_imp_le_length)
  from parse_hex_start [OF this] show ?thesis by (simp add: parse_hex_def hex_to_def)
qed

lemma hex_loop_lower: "c \<in> set (hex_loop v k) \<Longrightarrow> is_lower_hex c"
  by (induction k) auto

definition plain_char :: "char \<Rightarrow> bool" where
  "plain_char c \<longleftrightarrow> c \<noteq> CHR '' '' \<and> c \<noteq> CHR 0x0A"

lemma lower_hex_plain: "is_lower_hex c \<Longrightarrow> plain_char c"
  by (auto simp: is_lower_hex_def is_digit_def plain_char_def)

lemma hex_to_plain: "c \<in> set (hex_to v) \<Longrightarrow> plain_char c"
  using hex_loop_lower [THEN lower_hex_plain] by (auto simp: hex_to_def plain_char_def)

lemma build_id_plain: "c \<in> set (build_id_hex b) \<Longrightarrow> plain_char c"
proof -
  have "hex_digits ! (of_char d div 16) \<in> set hex_digits" "hex_digits ! (of_char d mod 16) \<in> set hex_digits" for d
    using of_char_less_256 [of d] by (intro nth_mem; simp add: less_mult_imp_div_less)+
  then have "c \<in> set (build_id_hex b) \<Longrightarrow> c \<in> set hex_digits" by (auto simp: build_id_hex_def)
  moreover have "c \<in> set hex_digits \<Longrightarrow> is_lower_hex c" using hex_digits_lower by (auto simp: list_all_iff)
  ultimately show "c \<in> set (build_id_hex b) \<Longrightarrow> ?thesis" using lower_hex_plain by blast
qed

section \<open>Decimal\<close>

lemma rev_dec_tmp: "0 \<le> n \<Longrightarrow> rev (dec_tmp n) = dec_pos n"
proof (induction n rule: dec_pos.induct)
  case (1 n)
  show ?case
  proof (cases "n < 10")
    case True
    with 1(2) show ?thesis by (simp add: dec_tmp.simps [of n] dec_pos.simps [of n])
  next
    case False
    then have "0 < n div 10" by (simp add: pos_imp_zdiv_pos_iff)
    with 1 False show ?thesis by (simp add: dec_tmp.simps [of n] dec_pos.simps [of n])
  qed
qed

lemma dec_to_int: "dec_to n = dec_int n"
  by (simp add: dec_to_def dec_int_def rev_dec_tmp)

lemma parse_dec_loop_digits:
  "list_all is_digit s \<Longrightarrow> parse_dec_loop v s = foldl (\<lambda>v c. 10 * v + int (digit_val c)) v s"
  by (induction s arbitrary: v) (simp_all add: mult.commute)

lemma parse_dec_pos: "0 \<le> n \<Longrightarrow> parse_dec_loop 0 (dec_pos n) = n"
  using parse_dec_loop_digits [of "dec_pos n" 0] dec_val_dec_pos [of n]
  by (simp add: list_all_iff dec_pos_digits dec_val_def)

lemma parse_dec_to [simp]: "parse_dec (dec_to n) = n"
proof (cases "n < 0")
  case False
  have "hd (dec_pos n) \<noteq> CHR ''-''"
    using dec_pos_digits [of n "hd (dec_pos n)"] False by (auto simp: is_digit_def)
  then have "take 1 (dec_pos n) \<noteq> ''-''" by (cases "dec_pos n") auto
  with False show ?thesis by (simp add: dec_to_int dec_int_def parse_dec_def parse_dec_pos)
qed (simp add: dec_to_int dec_int_def parse_dec_def parse_dec_pos)

lemma dec_to_plain: "c \<in> set (dec_to n) \<Longrightarrow> plain_char c"
  using dec_pos_digits [of n c] dec_pos_digits [of "- n" c]
  by (auto simp: dec_to_int dec_int_def plain_char_def is_digit_def split: if_splits)

lemma to_int_id: "- (2 ^ 31) \<le> n \<Longrightarrow> n < 2 ^ 31 \<Longrightarrow> to_int n = n"
  by (simp add: to_int_def sint_sbintrunc' signed_take_bit_int_eq_self)

section \<open>Lines and frames\<close>

lemma dump_lines_line:
  "CHR 0x0A \<notin> set l \<Longrightarrow> dump_lines (l @ newline @ r) = l # dump_lines r"
proof -
  assume a: "CHR 0x0A \<notin> set l"
  then have "takeWhile (\<lambda>c. c \<noteq> CHR 0x0A) (l @ CHR 0x0A # r) = l"
    "dropWhile (\<lambda>c. c \<noteq> CHR 0x0A) (l @ CHR 0x0A # r) = CHR 0x0A # r"
    by (induction l) auto
  then show ?thesis by (simp add: dump_lines.simps [of "l @ CHR 0x0A # r"] newline_def)
qed

definition unlines :: "string list \<Rightarrow> string" where
  "unlines ls = concat (map (\<lambda>l. l @ newline) ls)"

lemma dump_lines_unlines: "\<forall>l \<in> set ls. CHR 0x0A \<notin> set l \<Longrightarrow> dump_lines (unlines ls) = ls"
proof (induction ls)
  case Nil
  then show ?case by (simp add: unlines_def dump_lines.simps)
next
  case (Cons l ls)
  then show ?case using dump_lines_line [of l "unlines ls"] by (simp add: unlines_def)
qed

lemma no_space [simp]: "\<forall>c \<in> set s. plain_char c \<Longrightarrow> CHR '' '' \<notin> set s"
  "\<forall>c \<in> set s. plain_char c \<Longrightarrow> CHR 0x0A \<notin> set s"
  by (auto simp: plain_char_def)

lemma split_space:
  assumes "\<forall>c \<in> set s. plain_char c"
  shows "before_space (s @ CHR '' '' # r) = s" "after_space (s @ CHR '' '' # r) = Some r"
  using assms by (induction s) (auto simp: before_space_def after_space_def plain_char_def)

lemma rstrip_plain: "\<forall>c \<in> set s. plain_char c \<Longrightarrow> rstrip_space s = s"
  by (cases s rule: rev_cases) (auto simp: rstrip_space_def plain_char_def)

definition frame_line :: "module_entry list \<Rightarrow> u64 \<Rightarrow> string" where
  "frame_line modules addr =
    ''frame '' @
    (case resolve_module modules addr of
       None \<Rightarrow> ''?? '' @ hex_to addr @ '' ''
     | Some (m, offset) \<Rightarrow> me_name m @ '' '' @ hex_to offset @ '' '' @ build_id_hex (me_build_id m))"

text \<open>The frame a reader should see: module, offset and build id, or the bare address.\<close>

definition frame_of :: "module_entry list \<Rightarrow> u64 \<Rightarrow> crash_frame" where
  "frame_of modules addr =
    (case resolve_module modules addr of
       None \<Rightarrow> \<lparr>cf_module = ''??'', cf_offset = addr, cf_build_id = []\<rparr>
     | Some (m, offset) \<Rightarrow>
         \<lparr>cf_module = me_name m, cf_offset = offset, cf_build_id = build_id_hex (me_build_id m)\<rparr>)"

definition plain_names :: "module_entry list \<Rightarrow> bool" where
  "plain_names modules \<longleftrightarrow> (\<forall>m \<in> set modules. \<forall>c \<in> set (me_name m). plain_char c)"

lemma resolve_module_set: "resolve_module modules addr = Some (m, off) \<Longrightarrow> m \<in> set modules"
  by (induction modules) (auto split: if_splits)

lemma parse_frame_line:
  "plain_names modules \<Longrightarrow> parse_frame (drop 6 (frame_line modules addr)) = Some (frame_of modules addr)"
proof -
  assume names: "plain_names modules"
  have hex: "\<forall>c \<in> set (hex_to v). plain_char c" for v using hex_to_plain by blast
  have bid: "\<forall>c \<in> set (build_id_hex b). plain_char c" for b using build_id_plain by blast
  show ?thesis
  proof (cases "resolve_module modules addr")
    case None
    then show ?thesis
      using split_space [of "''??''" "hex_to addr @ '' ''"] split_space [OF hex, of addr "[]"]
      by (simp add: frame_line_def frame_of_def parse_frame_def plain_char_def rstrip_plain)
  next
    case (Some x)
    obtain m off where x: "x = (m, off)" by force
    have m: "\<forall>c \<in> set (me_name m). plain_char c"
      using names resolve_module_set Some x by (auto simp: plain_names_def)
    show ?thesis
      using split_space [OF m, of "hex_to off @ '' '' @ build_id_hex (me_build_id m)"]
        split_space [OF hex, of off "build_id_hex (me_build_id m)"]
      by (simp add: Some x frame_line_def frame_of_def parse_frame_def rstrip_plain [OF bid])
  qed
qed

lemma frame_line_no_newline: "plain_names modules \<Longrightarrow> CHR 0x0A \<notin> set (frame_line modules addr)"
proof -
  assume names: "plain_names modules"
  have "CHR 0x0A \<notin> set (hex_to v)" "CHR 0x0A \<notin> set (build_id_hex b)" for v b
    by (intro no_space ballI hex_to_plain build_id_plain; assumption)+
  moreover have "CHR 0x0A \<notin> set (me_name m)" if "resolve_module modules addr = Some (m, off)" for m off
    using names resolve_module_set [OF that] by (intro no_space) (simp add: plain_names_def)
  ultimately show ?thesis by (auto simp: frame_line_def split: option.split)
qed

lemma parse_frame_lines:
  "plain_names modules \<Longrightarrow>
    fold parse_line (map (frame_line modules) addrs) (h, d) =
      (h, d\<lparr>cd_frames := cd_frames d @ map (frame_of modules) addrs\<rparr>)"
proof (induction addrs arbitrary: d)
  case (Cons a addrs)
  have "parse_line (frame_line modules a) (h, d) = (h, d\<lparr>cd_frames := cd_frames d @ [frame_of modules a]\<rparr>)"
    using parse_frame_line [OF Cons.prems, of a] by (simp add: parse_line_def frame_line_def)
  with Cons show ?case by simp
qed simp

definition crash_addrs :: "u64 \<Rightarrow> u64 \<Rightarrow> u64 list" where
  "crash_addrs pc lr = filter (\<lambda>a. a \<noteq> 0) [pc, lr]"

definition dump_line_list :: "module_entry list \<Rightarrow> int \<Rightarrow> int \<Rightarrow> u64 \<Rightarrow> u64 \<Rightarrow> u64 \<Rightarrow> string list" where
  "dump_line_list modules sig code fault pc lr =
    [''tombstone-native-crash 1'', ''signal '' @ dec_to sig, ''code '' @ dec_to code, ''fault '' @ hex_to fault] @
    map (frame_line modules) (crash_addrs pc lr) @ [''end'']"

lemma dump_text_lines: "dump_text modules sig code fault pc lr = unlines (dump_line_list modules sig code fault pc lr)"
proof -
  have "frame_text modules a = frame_line modules a @ newline" for a
    by (simp add: frame_text_def frame_line_def split: option.split)
  then show ?thesis
    by (simp add: dump_text_def dump_line_list_def unlines_def crash_addrs_def)
qed

lemma dump_lines_no_newline:
  "plain_names modules \<Longrightarrow> \<forall>l \<in> set (dump_line_list modules sig code fault pc lr). CHR 0x0A \<notin> set l"
proof -
  assume names: "plain_names modules"
  have "CHR 0x0A \<notin> set (hex_to v)" "CHR 0x0A \<notin> set (dec_to n)" for v n
    by (intro no_space ballI hex_to_plain dec_to_plain; assumption)+
  with frame_line_no_newline [OF names] show ?thesis by (auto simp: dump_line_list_def)
qed

section \<open>The note walk stays inside its segment\<close>

lemma u32_at_inside: "i + 4 \<le> length seg \<Longrightarrow> \<exists>v. u32_at seg i = Some v"
  by (simp add: u32_at_def byte_at_def)

lemma bytes_at_inside: "i + n \<le> length seg \<Longrightarrow> \<exists>s. bytes_at seg i n = Some s \<and> length s = n"
proof (induction n arbitrary: i)
  case (Suc n)
  then have "Suc i + n \<le> length seg" by simp
  from Suc.IH [OF this] obtain s where "bytes_at seg (Suc i) n = Some s" "length s = n" by blast
  with Suc.prems show ?case by (simp add: byte_at_def)
qed simp

lemma read_build_id_safe:
  "\<exists>r. read_build_id seg k = Some r \<and> (\<forall>b. r = Some b \<longrightarrow> length b \<le> max_build_id_bytes)"
proof (induction seg k rule: read_build_id.induct)
  case (1 seg k)
  show ?case
  proof (cases "length seg < k + 12")
    case True
    then show ?thesis by (simp add: read_build_id.simps [of seg k])
  next
    case False
    then obtain namesz descsz ty where h: "u32_at seg k = Some namesz" "u32_at seg (k + 4) = Some descsz"
      "u32_at seg (k + 8) = Some ty"
      using u32_at_inside [of k seg] u32_at_inside [of "k + 4" seg] u32_at_inside [of "k + 8" seg] by auto
    define desc where "desc = k + 12 + align4 namesz"
    define len where "len = (if max_build_id_bytes < unat descsz then max_build_id_bytes else unat descsz)"
    define gnu where "gnu = (if ty = 3 \<and> namesz = 4 \<and> k + 12 + 4 \<le> length seg
      then map_option (\<lambda>s. s = ''GNU'') (bytes_at seg (k + 12) 3) else Some False)"
    have step: "read_build_id seg k =
        (if length seg < desc then Some None
         else case gnu of None \<Rightarrow> None
              | Some True \<Rightarrow> (if desc + len \<le> length seg then map_option Some (bytes_at seg desc len) else Some None)
              | Some False \<Rightarrow> (if desc + align4 descsz \<le> k then Some None else read_build_id seg (desc + align4 descsz)))"
      unfolding desc_def len_def gnu_def
      by (subst read_build_id.simps [of seg k])
        (simp only: h False if_False option.case prod.case Let_def)
    have "gnu \<noteq> None" using bytes_at_inside [of "k + 12" 3 seg] by (auto simp: gnu_def)
    then obtain g where g: "gnu = Some g" by auto
    have id: "\<exists>s. bytes_at seg desc len = Some s \<and> length s \<le> max_build_id_bytes" if "desc + len \<le> length seg"
      using bytes_at_inside [OF that] by (auto simp: len_def)
    have rest: "\<exists>r. read_build_id seg (desc + align4 descsz) = Some r \<and> (\<forall>b. r = Some b \<longrightarrow> length b \<le> max_build_id_bytes)"
      if "\<not> length seg < desc" "\<not> g" "\<not> desc + align4 descsz \<le> k"
      using 1 [OF False _ refl refl refl] h that g by (simp add: desc_def gnu_def)
    show ?thesis
    proof (cases g)
      case True
      with id show ?thesis by (auto simp: step g)
    next
      case False
      with rest show ?thesis by (auto simp: step g)
    qed
  qed
qed

definition entry_ok :: "module_entry \<Rightarrow> bool" where
  "entry_ok m \<longleftrightarrow> length (me_name m) \<le> max_name_len \<and> length (me_build_id m) \<le> max_build_id_bytes"

definition table_ok :: "module_table \<Rightarrow> bool" where
  "table_ok t \<longleftrightarrow> length (mt_slots t) = max_modules \<and> mt_count t \<le> max_modules \<and> (\<forall>m \<in> set (mt_slots t). entry_ok m)"

lemma phdr_loop_safe:
  "length (ps_build_id s) \<le> max_build_id_bytes \<Longrightarrow>
    \<exists>s'. phdr_loop addr phs s = Some s' \<and> length (ps_build_id s') \<le> max_build_id_bytes"
proof (induction phs arbitrary: s)
  case (Cons ph phs)
  obtain r where r: "read_build_id (ph_bytes ph) 0 = Some r" "\<forall>b. r = Some b \<longrightarrow> length b \<le> max_build_id_bytes"
    using read_build_id_safe by blast
  have "\<exists>s1. phdr_step addr ph s = Some s1 \<and> length (ps_build_id s1) \<le> max_build_id_bytes"
    using Cons.prems r by (cases "ph_type ph") (auto simp: phdr_step_def Let_def split: option.split)
  then obtain s1 where "phdr_step addr ph s = Some s1" "length (ps_build_id s1) \<le> max_build_id_bytes" by blast
  with Cons.IH show ?case by simp
qed simp

lemma phdr_callback_safe: "table_ok t \<Longrightarrow> \<exists>t'. phdr_callback addr name phs t = Some t' \<and> table_ok t'"
proof -
  assume ok: "table_ok t"
  show ?thesis
  proof (cases "max_modules \<le> mt_count t")
    case True
    with ok show ?thesis by (simp add: phdr_callback_def)
  next
    case False
    define nm where "nm = copy_bounded (if cstr_blank name then Some ''main'' else name) max_name_len"
    define entry where "entry = (mt_slots t ! mt_count t)\<lparr>me_name := nm\<rparr>"
    have slot: "entry_ok (mt_slots t ! mt_count t)" using ok False by (simp add: table_ok_def)
    have nm: "length nm \<le> max_name_len" by (simp add: nm_def copy_bounded_def split: option.split)
    have "length (me_build_id entry) \<le> max_build_id_bytes" using slot by (simp add: entry_ok_def entry_def)
    with phdr_loop_safe [of "\<lparr>ps_lo = 0, ps_hi = 0, ps_first = True, ps_build_id = me_build_id entry\<rparr>" addr phs]
    obtain s where s: "phdr_loop addr phs \<lparr>ps_lo = 0, ps_hi = 0, ps_first = True, ps_build_id = me_build_id entry\<rparr> = Some s"
      "length (ps_build_id s) \<le> max_build_id_bytes" by auto
    have upd: "table_ok (t\<lparr>mt_slots := (mt_slots t)[mt_count t := e], mt_count := k\<rparr>)"
      if "entry_ok e" "k \<le> max_modules" for e k
      using ok that set_update_subset_insert [of "mt_slots t" "mt_count t" e] by (auto simp: table_ok_def)
    define built where "built = entry\<lparr>me_build_id := ps_build_id s\<rparr>"
    have "phdr_callback addr name phs t =
        Some (if ps_first s then t\<lparr>mt_slots := (mt_slots t)[mt_count t := built], mt_count := mt_count t\<rparr>
              else t\<lparr>mt_slots := (mt_slots t)[mt_count t := built\<lparr>me_base := ps_lo s, me_end := ps_hi s\<rparr>],
                     mt_count := mt_count t + 1\<rparr>)"
      using False s(1) by (simp add: phdr_callback_def Let_def nm_def entry_def built_def)
    moreover have "entry_ok built" "entry_ok (built\<lparr>me_base := ps_lo s, me_end := ps_hi s\<rparr>)"
      using s(2) nm by (simp_all add: entry_ok_def built_def entry_def)
    ultimately show ?thesis
      using False upd [of built "mt_count t"]
        upd [of "built\<lparr>me_base := ps_lo s, me_end := ps_hi s\<rparr>" "mt_count t + 1"] by simp
  qed
qed

lemma load_modules_safe: "table_ok t \<Longrightarrow> \<exists>t'. load_modules loaded t = Some t' \<and> table_ok t'"
proof (induction loaded arbitrary: t)
  case (Cons x loaded)
  obtain addr name phs where x: "x = (addr, name, phs)" by (cases x) auto
  from phdr_callback_safe [OF Cons.prems, of addr name phs] obtain t1 where
    "phdr_callback addr name phs t = Some t1" "table_ok t1" by blast
  with Cons.IH [of t1] show ?case by (simp add: x)
qed simp

lemma empty_table_ok: "table_ok empty_table"
  by (simp add: table_ok_def empty_table_def entry_ok_def)

section \<open>The text in the file\<close>

text \<open>Whatever \<open>write\<close> does, the file holds a prefix of the text; with no failure all of it.\<close>

lemma write_all_prefix: "prefix (write_all results s) s"
proof (induction results s rule: write_all.induct)
  case (5 n results c cs)
  show ?case
  proof (cases "n = 0")
    case False
    have "prefix (take n (c # cs) @ write_all results (drop n (c # cs))) (take n (c # cs) @ drop n (c # cs))"
      using 5 [OF False] by (simp only: same_prefix_prefix)
    then show ?thesis using False by simp
  qed simp
qed auto

lemma parse_unlines:
  "\<forall>l \<in> set ls. CHR 0x0A \<notin> set l \<Longrightarrow>
    parse_dump (unlines ls) =
      (let (h, d) = fold parse_line ls (False, \<lparr>cd_signal = 0, cd_code = 0, cd_fault = 0, cd_frames = []\<rparr>)
       in if h then Some d else None)"
  by (simp add: parse_dump_def dump_lines_unlines)

lemma parse_end_lines:
  "plain_names modules \<Longrightarrow>
    fold parse_line (take k (map (frame_line modules) addrs @ [''end''])) (h, d) =
      (h, d\<lparr>cd_frames := cd_frames d @ take k (map (frame_of modules) addrs)\<rparr>)"
proof -
  assume names: "plain_names modules"
  have e: "parse_line ''end'' s = s" for s :: "bool \<times> crash_dump"
    by (cases s) (simp add: parse_line_def)
  have "take k (map (frame_line modules) addrs @ [''end'']) =
      map (frame_line modules) (take k addrs) @ take (k - length addrs) [''end'']"
    by (simp add: take_map)
  moreover have "fold parse_line (take j [''end'']) s = s" for j and s :: "bool \<times> crash_dump"
    by (cases j) (simp_all add: e)
  ultimately show ?thesis by (simp add: parse_frame_lines [OF names] take_map)
qed

lemma parse_number_lines:
  "parse_line (''signal '' @ dec_to n) (h, d) = (h, d\<lparr>cd_signal := to_int n\<rparr>)"
  "parse_line (''code '' @ dec_to n) (h, d) = (h, d\<lparr>cd_code := to_int n\<rparr>)"
  "parse_line (''fault '' @ hex_to v) (h, d) = (h, d\<lparr>cd_fault := v\<rparr>)"
  "parse_line ''tombstone-native-crash 1'' (h, d) = (True, d)"
  by (simp_all add: parse_line_def)

lemmas parse_number_chars = parse_number_lines [unfolded append_Cons append_Nil]

section \<open>Properties\<close>

text \<open>C14. The next launch reads what the handler wrote, also from a dump cut short: with module names
  free of blanks and newlines, the text cut after any \<open>n \<ge> 1\<close> lines parses to exactly the facts in
  those lines (the rest zero), and the whole text to the signal, the code, the fault address and
  one frame per captured address, each with its module, offset and build id.\<close>

theorem crash_dump_roundtrip:
  assumes "plain_names modules" "- (2 ^ 31) \<le> sig" "sig < 2 ^ 31" "- (2 ^ 31) \<le> code" "code < 2 ^ 31" "0 < n"
  shows "parse_dump (unlines (take n (dump_lines (dump_text modules sig code fault pc lr)))) =
      Some \<lparr>cd_signal = (if 2 \<le> n then sig else 0), cd_code = (if 3 \<le> n then code else 0),
            cd_fault = (if 4 \<le> n then fault else 0),
            cd_frames = take (n - 4) (map (frame_of modules) (crash_addrs pc lr))\<rparr> \<and>
    parse_dump (dump_text modules sig code fault pc lr) =
      Some \<lparr>cd_signal = sig, cd_code = code, cd_fault = fault,
            cd_frames = map (frame_of modules) (crash_addrs pc lr)\<rparr>"
proof -
  let ?L = "dump_line_list modules sig code fault pc lr"
  have ids: "to_int sig = sig" "to_int code = code" using assms(2-5) by (simp_all add: to_int_id)
  have nl: "\<forall>l \<in> set ?L. CHR 0x0A \<notin> set l" by (rule dump_lines_no_newline [OF assms(1)])
  then have lines: "dump_lines (dump_text modules sig code fault pc lr) = ?L"
    by (simp add: dump_text_lines dump_lines_unlines)
  have cut: "parse_dump (unlines (take k ?L)) =
      Some \<lparr>cd_signal = (if 2 \<le> k then sig else 0), cd_code = (if 3 \<le> k then code else 0),
            cd_fault = (if 4 \<le> k then fault else 0),
            cd_frames = take (k - 4) (map (frame_of modules) (crash_addrs pc lr))\<rparr>" if pos: "0 < k" for k
  proof -
    have "\<forall>l \<in> set (take k ?L). CHR 0x0A \<notin> set l" using nl by (auto dest: in_set_takeD)
    note parsed = parse_unlines [OF this]
    consider "k = 1" | "k = 2" | "k = 3" | "4 \<le> k" using pos by linarith
    then show ?thesis
    proof cases
      case 4
      then obtain m where "k = 4 + m" using le_Suc_ex by blast
      then have "k = Suc (Suc (Suc (Suc m)))" by simp
      then show ?thesis
        unfolding parsed
        by (simp add: dump_line_list_def parse_number_chars parse_end_lines [OF assms(1)] ids
            del: take_append)
    qed (unfold parsed, simp_all add: dump_line_list_def parse_number_chars ids numeral_eq_Suc)
  qed
  have "take (Suc (length ?L)) ?L = ?L" by simp
  moreover have "length ?L = 5 + length (crash_addrs pc lr)" by (simp add: dump_line_list_def)
  ultimately have "parse_dump (unlines ?L) =
      Some \<lparr>cd_signal = sig, cd_code = code, cd_fault = fault, cd_frames = map (frame_of modules) (crash_addrs pc lr)\<rparr>"
    using cut [of "Suc (length ?L)"] by simp
  with cut [OF assms(6)] show ?thesis unfolding lines by (simp add: dump_text_lines)
qed

definition lib_module :: "string \<Rightarrow> module_entry" where
  "lib_module name = \<lparr>me_base = 0x1000, me_end = 0x2000, me_name = name, me_build_id = []\<rparr>"

theorem crash_dump_roundtrip_witness:
  "parse_dump (dump_text [lib_module ''libg.so''] 11 1 0 0x1234 0) =
     Some \<lparr>cd_signal = 11, cd_code = 1, cd_fault = 0,
           cd_frames = [\<lparr>cf_module = ''libg.so'', cf_offset = 0x234, cf_build_id = []\<rparr>]\<rparr>"
proof -
  have "plain_names [lib_module ''libg.so'']" by (simp add: plain_names_def lib_module_def plain_char_def)
  from crash_dump_roundtrip [OF this, of 11 1 1 0 "0x1234" 0] show ?thesis
    by (simp add: crash_addrs_def frame_of_def lib_module_def build_id_hex_def)
qed

text \<open>A blank in a module's path breaks its frame: the reader takes the path only up to the first
  blank, so the module name of the report is never the real one (the offset is then read from the
  middle of the path).\<close>

theorem blank_in_module_path:
  assumes "resolve_module modules addr = Some (m, off)" "CHR '' '' \<in> set (me_name m)"
  shows "\<exists>f. parse_frame (drop 6 (frame_line modules addr)) = Some f \<and> cf_module f \<noteq> me_name m \<and>
    prefix (cf_module f) (me_name m)"
proof -
  obtain a b where ab: "me_name m = a @ CHR '' '' # b" "CHR '' '' \<notin> set a"
    using split_list_first [OF assms(2)] by blast
  have "takeWhile (\<lambda>c. c \<noteq> CHR '' '') (a @ CHR '' '' # x) = a"
    "dropWhile (\<lambda>c. c \<noteq> CHR '' '') (a @ CHR '' '' # x) = CHR '' '' # x" for x
    using ab(2) by (induction a) auto
  then show ?thesis
    by (simp add: frame_line_def assms(1) parse_frame_def before_space_def after_space_def ab(1))
qed

theorem blank_in_module_path_witness:
  "\<exists>f. parse_frame (drop 6 (frame_line [lib_module ''/opt/My Game/g.so''] 0x1234)) = Some f \<and>
     cf_module f \<noteq> ''/opt/My Game/g.so''"
proof -
  have "resolve_module [lib_module ''/opt/My Game/g.so''] 0x1234 = Some (lib_module ''/opt/My Game/g.so'', 0x234)"
    "CHR '' '' \<in> set (me_name (lib_module ''/opt/My Game/g.so''))"
    by (simp_all add: lib_module_def)
  from blank_in_module_path [OF this] show ?thesis by (auto simp: lib_module_def)
qed

text \<open>C26. Install time is memory safe: whatever the loaded modules' names, program headers and note
  segments contain (truncated, hostile, wrapping sizes), building the table never reads outside a
  segment and never exceeds its 512 slots, 255-byte names and 20-byte build ids.\<close>

theorem install_memory_safe:
  assumes "table_ok (hs_modules s)"
  shows "\<exists>r s' fs'. install_handler data_dir loaded any s fs = Some (r, s', fs') \<and> table_ok (hs_modules s') \<and>
    (r \<longrightarrow> hs_installed s')"
proof -
  have "table_ok ((hs_modules s)\<lparr>mt_count := 0\<rparr>)" using assms by (simp add: table_ok_def)
  from load_modules_safe [OF this, of loaded] obtain t where
    "load_modules loaded ((hs_modules s)\<lparr>mt_count := 0\<rparr>) = Some t" "table_ok t" by blast
  with assms show ?thesis by (auto simp: install_handler_def fs_write_def Let_def)
qed

theorem install_memory_safe_witness:
  "install_handler [] [(0, None, [\<lparr>ph_type = PT_NOTE, ph_vaddr = 0, ph_memsz = 12, ph_bytes = replicate 12 (CHR 0xFF)\<rparr>])] True
     \<lparr>hs_modules = empty_table, hs_dump_open = False, hs_installed = False\<rparr>
     \<lparr>fl_files = [], fl_readable = (\<lambda>_. True), fl_writable = (\<lambda>_. True), fl_removable = (\<lambda>_. True)\<rparr> \<noteq> None"
  using install_memory_safe [of "\<lparr>hs_modules = empty_table, hs_dump_open = False, hs_installed = False\<rparr>"] empty_table_ok
  by fastforce

end
