(* ===== verification/Signal_Race.thy ===== *)
theory Signal_Race
  imports Native_Crash_Roundtrip
begin

text \<open>
  The signal handler of \<^verbatim>\<open>src/native_crash.cpp\<close> under several fatal signals: every \<open>write_all\<close> is a step with
  any results of its \<open>write\<close> calls, so that a chunk may be given up and the next one written;
  signals arrive on any thread at any time, also inside a handler, and the default action of any of
  them ends the process wherever the others are.
\<close>

section \<open>The interrupted context\<close>

text \<open>What the handler reads of \<open>ucontext_t\<close>: the program counter and the numbered registers of the build's CPU.\<close>

datatype cpu = Aarch64 | Arm32 | X86_64 | I386 | Other_Cpu

record ucontext =
  uc_pc :: u64
  uc_arm_lr :: u64
  uc_regs :: "nat \<Rightarrow> u64"

definition extract_pc_lr :: "cpu \<Rightarrow> ucontext option \<Rightarrow> u64 \<times> u64" where
  "extract_pc_lr cpu context =
    (case context of
       None \<Rightarrow> (0, 0)
     | Some uc \<Rightarrow>
         (case cpu of
            Aarch64 \<Rightarrow> (uc_pc uc, uc_regs uc 30)
          | Arm32 \<Rightarrow> (uc_pc uc, uc_arm_lr uc)
          | X86_64 \<Rightarrow> (uc_pc uc, 0)
          | I386 \<Rightarrow> (uc_pc uc, 0)
          | Other_Cpu \<Rightarrow> (0, 0)))"

record siginfo =
  si_code :: int
  si_addr :: u64

section \<open>The handler, write by write\<close>

datatype handler_op = Write string | Act handler_action

definition write_str :: "string \<Rightarrow> handler_op list" where "write_str s = [Write s]"
definition write_hex :: "u64 \<Rightarrow> handler_op list" where "write_hex v = [Write (hex_to v)]"
definition write_dec :: "int \<Rightarrow> handler_op list" where "write_dec v = [Write (dec_to v)]"

definition write_frame :: "module_entry list \<Rightarrow> u64 \<Rightarrow> handler_op list" where
  "write_frame modules addr =
    write_str ''frame '' @
    (case resolve_module modules addr of
       None \<Rightarrow> write_str ''?? '' @ write_hex addr @ write_str ('' '' @ newline)
     | Some (m, offset) \<Rightarrow>
         write_str (me_name m) @ write_str '' '' @ write_hex offset @ write_str '' '' @
         [Write (build_id_hex (me_build_id m))] @ write_str newline)"

definition dump_writes :: "module_entry list \<Rightarrow> int \<Rightarrow> siginfo option \<Rightarrow> u64 \<Rightarrow> u64 \<Rightarrow> handler_op list" where
  "dump_writes modules sig info pc lr =
    write_str (''tombstone-native-crash 1'' @ newline) @
    write_str ''signal '' @ write_dec sig @ write_str newline @
    write_str ''code '' @ write_dec (case info of None \<Rightarrow> 0 | Some i \<Rightarrow> si_code i) @ write_str newline @
    write_str ''fault '' @ write_hex (case info of None \<Rightarrow> 0 | Some i \<Rightarrow> si_addr i) @ write_str newline @
    (if pc \<noteq> 0 then write_frame modules pc else []) @
    (if lr \<noteq> 0 then write_frame modules lr else []) @
    write_str (''end'' @ newline)"

text \<open>
  A signal: its number, the arguments of the handler. \<open>handler_entry\<close> is the test-and-set of the guard and the
  operations it leads to.
\<close>

record signal =
  sg_number :: int
  sg_info :: "siginfo option"
  sg_context :: "ucontext option"

record handler_setup =
  su_cpu :: cpu
  su_modules :: "module_entry list"
  su_old :: "int \<Rightarrow> disposition"
  su_open :: bool

definition handler_entry :: "handler_setup \<Rightarrow> signal \<Rightarrow> bool \<Rightarrow> bool \<times> handler_op list" where
  "handler_entry su sg in_handler =
    (let chain = map Act (chain_old (su_old su) (sg_number sg)); (pc, lr) = extract_pc_lr (su_cpu su) (sg_context sg) in
     if in_handler then (True, chain)
     else (True, (if su_open su then dump_writes (su_modules su) (sg_number sg) (sg_info sg) pc lr else []) @
                 chain @ [Act (ReraiseDefault (sg_number sg))]))"

section \<open>Interleaving\<close>

text \<open>
  The operations left to each thread; a signal that arrives inside a handler runs first. A handler of someone
  else's may return or not, or end the process. \<open>cr_gave_up\<close> records that a chunk was not written whole.
\<close>

record crash_state =
  cr_alive :: bool
  cr_in_handler :: bool
  cr_dump :: string
  cr_gave_up :: bool
  cr_threads :: "nat \<Rightarrow> handler_op list"

definition calm :: crash_state where
  "calm = \<lparr>cr_alive = True, cr_in_handler = False, cr_dump = [], cr_gave_up = False, cr_threads = (\<lambda>_. [])\<rparr>"

text \<open>What \<open>write_all\<close> leaves in the file is what it wrote before it gave up, or before the process ended.\<close>

inductive crash_step :: "handler_setup \<Rightarrow> crash_state \<Rightarrow> crash_state \<Rightarrow> bool" for su where
  crash_signal:
    "cr_alive s \<Longrightarrow> handler_entry su sg (cr_in_handler s) = (g, ops) \<Longrightarrow>
      crash_step su s (s\<lparr>cr_in_handler := g, cr_threads := (cr_threads s)(k := ops @ cr_threads s k)\<rparr>)"
| crash_write:
    "cr_alive s \<Longrightarrow> cr_threads s k = Write text # ops \<Longrightarrow> write_all results text = part \<Longrightarrow>
      crash_step su s (s\<lparr>cr_dump := cr_dump s @ part, cr_gave_up := (cr_gave_up s \<or> part \<noteq> text),
                         cr_threads := (cr_threads s)(k := ops)\<rparr>)"
| crash_cut:
    "cr_alive s \<Longrightarrow> cr_threads s k = Write text # ops \<Longrightarrow> write_all results text = part \<Longrightarrow>
      crash_step su s (s\<lparr>cr_dump := cr_dump s @ part, cr_alive := False\<rparr>)"
| crash_call:
    "cr_alive s \<Longrightarrow> cr_threads s k = Act a # ops \<Longrightarrow> a = CallInfo sig \<or> a = CallPlain sig \<Longrightarrow>
      crash_step su s (s\<lparr>cr_threads := (cr_threads s)(k := ops)\<rparr>)"
| crash_leave:
    "cr_alive s \<Longrightarrow> cr_threads s k = Act a # ops \<Longrightarrow> a = CallInfo sig \<or> a = CallPlain sig \<Longrightarrow>
      crash_step su s (s\<lparr>cr_threads := (cr_threads s)(k := [])\<rparr>)"
| crash_end:
    "cr_alive s \<Longrightarrow> cr_threads s k = Act a # ops \<Longrightarrow> crash_step su s (s\<lparr>cr_alive := False\<rparr>)"

inductive_cases crash_stepE: "crash_step su s s'"

section \<open>One writer\<close>

fun writes :: "handler_op list \<Rightarrow> string" where
  "writes [] = []"
| "writes (Write text # ops) = text @ writes ops"
| "writes (Act a # ops) = writes ops"

fun acts :: "handler_op list \<Rightarrow> handler_action list" where
  "acts [] = []"
| "acts (Write text # ops) = acts ops"
| "acts (Act a # ops) = a # acts ops"

fun chunks :: "handler_op list \<Rightarrow> string list" where
  "chunks [] = []"
| "chunks (Write text # ops) = text # chunks ops"
| "chunks (Act a # ops) = chunks ops"

lemma chunks_append [simp]: "chunks (xs @ ys) = chunks xs @ chunks ys"
  by (induction xs rule: chunks.induct) simp_all

lemma chunks_acts [simp]: "chunks (map Act xs) = []"
  by (induction xs) simp_all

lemma writes_chunks: "writes ops = concat (chunks ops)"
  by (induction ops rule: chunks.induct) simp_all

lemma ops_append [simp]: "writes (xs @ ys) = writes xs @ writes ys" "acts (xs @ ys) = acts xs @ acts ys"
  by (induction xs rule: writes.induct) simp_all

lemma ops_acts [simp]: "writes (map Act xs) = []" "acts (map Act xs) = xs"
  by (induction xs) simp_all

text \<open>The text of the whole dump for a signal.\<close>

definition signal_text :: "handler_setup \<Rightarrow> signal \<Rightarrow> string" where
  "signal_text su sg =
    (let (pc, lr) = extract_pc_lr (su_cpu su) (sg_context sg) in
     if su_open su
     then dump_text (su_modules su) (sg_number sg) (case sg_info sg of None \<Rightarrow> 0 | Some i \<Rightarrow> si_code i)
            (case sg_info sg of None \<Rightarrow> 0 | Some i \<Rightarrow> si_addr i) pc lr
     else [])"

lemma frame_writes: "writes (write_frame modules addr) = frame_text modules addr" "acts (write_frame modules addr) = []"
  by (auto simp: write_frame_def frame_text_def write_str_def write_hex_def split: option.split)

lemma dump_writes_text:
  "writes (dump_writes modules sig info pc lr) =
    dump_text modules sig (case info of None \<Rightarrow> 0 | Some i \<Rightarrow> si_code i) (case info of None \<Rightarrow> 0 | Some i \<Rightarrow> si_addr i) pc lr"
  "acts (dump_writes modules sig info pc lr) = []"
  by (simp_all add: dump_writes_def dump_text_def write_str_def write_hex_def write_dec_def frame_writes)

lemma entry_writes:
  "writes (snd (handler_entry su sg b)) = (if b then [] else signal_text su sg)" "fst (handler_entry su sg b)"
  by (simp_all add: handler_entry_def signal_text_def case_prod_unfold Let_def dump_writes_text)

text \<open>The chunks of the dump for a signal, in the order of the \<open>write_all\<close> calls.\<close>

definition signal_chunks :: "handler_setup \<Rightarrow> signal \<Rightarrow> string list" where
  "signal_chunks su sg = chunks (snd (handler_entry su sg False))"

lemma entry_chunks: "chunks (snd (handler_entry su sg b)) = (if b then [] else signal_chunks su sg)"
  by (simp add: signal_chunks_def) (simp add: handler_entry_def case_prod_unfold Let_def)

lemma signal_text_chunks: "signal_text su sg = concat (signal_chunks su sg)"
  using entry_writes(1) [of su sg False] by (simp add: signal_chunks_def writes_chunks)

text \<open>The handler in one piece is its writes and then its actions.\<close>

lemma handler_in_one_piece:
  assumes "su_open su" "extract_pc_lr (su_cpu su) (sg_context sg) = (pc, lr)" "sg_info sg = Some i"
  shows "signal_handler (su_modules su) (su_old su) (sg_number sg) (si_code i) (si_addr i) pc lr (b, Some dump) =
    ((fst (handler_entry su sg b), Some (dump @ writes (snd (handler_entry su sg b)))), acts (snd (handler_entry su sg b)))"
  using assms by (simp add: signal_handler_def handler_entry_def dump_writes_text Let_def)

text \<open>
  The file is made of the beginnings of the chunks that were begun, in order; if none was given up it is the beginning of
  the whole.
\<close>

definition beginnings :: "string list \<Rightarrow> string \<Rightarrow> bool" where
  "beginnings texts dump \<longleftrightarrow> (\<exists>parts. dump = concat parts \<and> list_all2 prefix parts texts)"

lemma beginnings_Nil [simp]: "beginnings [] []"
  by (simp add: beginnings_def)

lemma beginnings_snoc: "beginnings texts dump \<Longrightarrow> prefix part text \<Longrightarrow> beginnings (texts @ [text]) (dump @ part)"
proof -
  assume "beginnings texts dump" "prefix part text"
  then obtain parts where "dump = concat parts" "list_all2 prefix parts texts" by (auto simp: beginnings_def)
  with \<open>prefix part text\<close> show ?thesis
    unfolding beginnings_def by (intro exI [of _ "parts @ [part]"]) (simp add: list_all2_appendI)
qed

definition owned :: "nat \<Rightarrow> string list \<Rightarrow> crash_state \<Rightarrow> bool" where
  "owned k texts s \<longleftrightarrow> cr_in_handler s \<and> (\<forall>j. j \<noteq> k \<longrightarrow> chunks (cr_threads s j) = []) \<and>
    (\<exists>begun. prefix begun texts \<and> beginnings begun (cr_dump s) \<and>
       (cr_alive s \<longrightarrow> prefix (begun @ chunks (cr_threads s k)) texts \<and> (\<not> cr_gave_up s \<longrightarrow> cr_dump s = concat begun)) \<and>
       (\<not> cr_gave_up s \<longrightarrow> prefix (cr_dump s) (concat texts)))"

lemma owned_written:
  assumes "prefix (begun @ text # rest) texts" "beginnings begun dump" "prefix part text"
  shows "prefix (begun @ [text]) texts \<and> beginnings (begun @ [text]) (dump @ part) \<and> prefix ((begun @ [text]) @ rest) texts \<and>
    (dump = concat begun \<longrightarrow> prefix (dump @ part) (concat texts))"
proof -
  obtain more where texts: "texts = begun @ text # rest @ more" using assms(1) by (auto simp: prefix_def)
  show ?thesis
    using assms(3) beginnings_snoc [OF assms(2,3)] by (auto simp: texts prefix_def)
qed

lemma owned_step:
  assumes "crash_step su s s'" "owned k texts s"
  shows "owned k texts s'"
  using assms
proof (induction rule: crash_step.induct)
  case (crash_signal s sg g ops j)
  then have "chunks ops = []" "g"
    using entry_chunks [of su sg True] entry_writes(2) [of su sg True] by (simp_all add: owned_def)
  with crash_signal show ?case by (auto simp: owned_def)
next
  case (crash_write s j t ops results part)
  then have k: "j = k" by (auto simp: owned_def)
  from crash_write obtain begun where b: "prefix (begun @ t # chunks ops) texts" "beginnings begun (cr_dump s)"
    "\<not> cr_gave_up s \<longrightarrow> cr_dump s = concat begun"
    by (auto simp: owned_def k)
  have "prefix part t" using crash_write(3) write_all_prefix by blast
  from owned_written [OF b(1,2) this] b(3) crash_write show ?case
    by (auto simp: owned_def k intro!: exI [of _ "begun @ [t]"])
next
  case (crash_cut s j t ops results part)
  then have k: "j = k" by (auto simp: owned_def)
  from crash_cut obtain begun where b: "prefix (begun @ t # chunks ops) texts" "beginnings begun (cr_dump s)"
    "\<not> cr_gave_up s \<longrightarrow> cr_dump s = concat begun"
    by (auto simp: owned_def k)
  have "prefix part t" using crash_cut(3) write_all_prefix by blast
  from owned_written [OF b(1,2) this] b(3) crash_cut show ?case
    by (auto simp: owned_def k intro!: exI [of _ "begun @ [t]"])
next
  case (crash_call s j a ops sig)
  then show ?case by (cases "j = k") (auto simp: owned_def)
next
  case (crash_leave s j a ops sig)
  then show ?case by (cases "j = k") (auto simp: owned_def)
next
  case (crash_end s j a ops)
  then show ?case by (auto simp: owned_def)
qed

text \<open>C15. One signal owns the dump file: after the first signal, whatever further signals arrive on whatever
  threads, nested or not, wherever other handlers lead, whatever the disk does to the writes and whenever
  the process ends, the file consists of beginnings of the first chunks of the first signal's
  dump, in their order, and of nothing else; unless a chunk was given up it is the beginning of that dump; and no
  other thread has a write left to do.\<close>

theorem first_signal_owns_dump:
  assumes "handler_entry su sg False = (g, ops)"
    and "(crash_step su)\<^sup>*\<^sup>* (calm\<lparr>cr_in_handler := g, cr_threads := (cr_threads calm)(k := ops)\<rparr>) s"
  shows "(\<exists>n parts. cr_dump s = concat parts \<and> list_all2 prefix parts (take n (signal_chunks su sg))) \<and>
    (\<not> cr_gave_up s \<longrightarrow> prefix (cr_dump s) (signal_text su sg)) \<and>
    cr_in_handler s \<and> (\<forall>j. j \<noteq> k \<longrightarrow> writes (cr_threads s j) = [])"
proof -
  have "chunks ops = signal_chunks su sg" "g"
    using entry_chunks [of su sg False] entry_writes(2) [of su sg False] assms(1) by simp_all
  then have "owned k (signal_chunks su sg) (calm\<lparr>cr_in_handler := g, cr_threads := (cr_threads calm)(k := ops)\<rparr>)"
    by (auto simp: owned_def calm_def intro!: exI [of _ "[]"])
  with assms(2) have own: "owned k (signal_chunks su sg) s"
    by (induction rule: rtranclp_induct) (auto intro: owned_step)
  then obtain begun where begun: "prefix begun (signal_chunks su sg)" "beginnings begun (cr_dump s)"
    by (auto simp: owned_def)
  then have "begun = take (length begun) (signal_chunks su sg)" by (auto simp: prefix_def)
  with begun(2) have "\<exists>n parts. cr_dump s = concat parts \<and> list_all2 prefix parts (take n (signal_chunks su sg))"
    unfolding beginnings_def by metis
  moreover have "writes (cr_threads s j) = []" if "j \<noteq> k" for j using own that by (simp add: owned_def writes_chunks)
  ultimately show ?thesis using own by (auto simp: owned_def signal_text_chunks)
qed

section \<open>A second signal\<close>

lemma writes_run:
  assumes "cr_alive s" "cr_threads s k = map Write texts @ ops"
  shows "(crash_step su)\<^sup>*\<^sup>* s (s\<lparr>cr_dump := cr_dump s @ concat texts, cr_threads := (cr_threads s)(k := ops)\<rparr>)"
  using assms
proof (induction texts arbitrary: s)
  case Nil
  then have "(cr_threads s)(k := ops) = cr_threads s" by (simp add: fun_upd_idem)
  then show ?case by (simp del: fun_upd_apply)
next
  case (Cons t texts)
  let ?s = "s\<lparr>cr_dump := cr_dump s @ t, cr_threads := (cr_threads s)(k := map Write texts @ ops)\<rparr>"
  have whole: "write_all [Wrote (length t)] t = t" by (cases t) simp_all
  have ops: "cr_threads s k = Write t # map Write texts @ ops" using Cons.prems(2) by simp
  from crash_write [OF Cons.prems(1) ops whole, of su] have "crash_step su s ?s" by simp
  moreover have "(crash_step su)\<^sup>*\<^sup>* ?s (s\<lparr>cr_dump := cr_dump s @ concat (t # texts), cr_threads := (cr_threads s)(k := ops)\<rparr>)"
    using Cons.IH [of ?s] Cons.prems(1) by (simp add: fun_upd_upd del: fun_upd_apply) simp
  ultimately show ?case by (rule converse_rtranclp_into_rtranclp)
qed

lemma second_ends:
  fixes sg :: signal
  assumes "cr_alive s" "cr_in_handler s" "cr_threads s j = []" "su_old su (sg_number sg) = SigDefault"
  shows "\<exists>s'. (crash_step su)\<^sup>*\<^sup>* s s' \<and> \<not> cr_alive s' \<and> cr_dump s' = cr_dump s"
proof -
  let ?ops = "[Act (ReraiseDefault (sg_number sg))]"
  let ?t = "s\<lparr>cr_in_handler := True, cr_threads := (cr_threads s)(j := ?ops)\<rparr>"
  have "handler_entry su sg (cr_in_handler s) = (True, ?ops)"
    using assms(2,4) by (simp add: handler_entry_def chain_old_def Let_def case_prod_unfold)
  from crash_signal [OF assms(1) this, of j] have "crash_step su s ?t" using assms(3) by simp
  moreover have "crash_step su ?t (?t\<lparr>cr_alive := False\<rparr>)" using assms(1) by (intro crash_end [where k = j]) simp_all
  ultimately have "(crash_step su)\<^sup>*\<^sup>* s (?t\<lparr>cr_alive := False\<rparr>)" by simp
  then show ?thesis by (intro exI [of _ "?t\<lparr>cr_alive := False\<rparr>"] conjI) simp_all
qed

lemma torn_frame_read:
  assumes "\<forall>c \<in> set name. plain_char c"
  shows "\<exists>d. parse_dump (unlines [''tombstone-native-crash 1'', ''signal '' @ dec_to sig, ''code '' @ dec_to code, ''fault '' @ hex_to fault]
      @ ''frame '' @ name @ '' '') = Some d \<and> cd_frames d = [\<lparr>cf_module = name, cf_offset = 0, cf_build_id = []\<rparr>]"
proof -
  let ?ls = "[''tombstone-native-crash 1'', ''signal '' @ dec_to sig, ''code '' @ dec_to code, ''fault '' @ hex_to fault]"
  have last: "dump_lines (l @ r) = l # dump_lines r" if "l \<noteq> []" "CHR 0x0A \<notin> set l" "r = []" for l r
  proof -
    have cut: "takeWhile (\<lambda>c. c \<noteq> CHR 0x0A) l = l" "dropWhile (\<lambda>c. c \<noteq> CHR 0x0A) l = []"
      using that(2) by (auto simp: takeWhile_eq_all_conv dropWhile_eq_Nil_conv)
    have "dump_lines l = l # dump_lines []" by (subst dump_lines.simps) (simp add: cut that(1))
    with that(3) show ?thesis by simp
  qed
  have unl: "dump_lines (unlines ls @ r) = ls @ dump_lines r" if "\<forall>l \<in> set ls. CHR 0x0A \<notin> set l" for ls r
    using that by (induction ls) (simp_all add: unlines_def dump_lines_line)
  have "\<forall>l \<in> set ?ls. CHR 0x0A \<notin> set l"
    using no_space [of "dec_to n" for n] dec_to_plain hex_to_plain by auto
  moreover have "CHR 0x0A \<notin> set (''frame '' @ name @ '' '')" using no_space(2) [OF assms] by simp
  ultimately have "dump_lines (unlines ?ls @ ''frame '' @ name @ '' '') = ?ls @ [''frame '' @ name @ '' '']"
    using last [of "''frame '' @ name @ '' ''" "[]"] unl by (simp add: dump_lines.simps [of "[]"])
  moreover have "parse_frame (name @ '' '') = Some \<lparr>cf_module = name, cf_offset = 0, cf_build_id = []\<rparr>"
    using split_space [OF assms, of "[]"]
    by (simp add: parse_frame_def before_space_def after_space_def parse_hex_def)
  then have "parse_line (''frame '' @ name @ '' '') (h, d) =
      (h, d\<lparr>cd_frames := cd_frames d @ [\<lparr>cf_module = name, cf_offset = 0, cf_build_id = []\<rparr>]\<rparr>)" for h d
    by (simp add: parse_line_def)
  ultimately show ?thesis
    by (simp add: parse_dump_def parse_number_lines [simplified])
qed

text \<open>C40. A second signal takes the first one's dump away: if the default action is all that stood behind the
  second one, it ends the process while the first is still writing. The next launch then finds no
  dump at all, or a crash at the very start of the module although the first signal came from another
  place in it.\<close>

theorem second_signal_tears_dump:
  assumes "su_open su" "extract_pc_lr (su_cpu su) (sg_context sg) = (pc, lr)" "pc \<noteq> 0"
    and "resolve_module (su_modules su) pc = Some (m, offset)" "plain_names (su_modules su)"
    and "su_old su (sg_number (sg' :: signal)) = SigDefault"
  defines "s0 \<equiv> calm\<lparr>cr_in_handler := True, cr_threads := (cr_threads calm)(0 := snd (handler_entry su sg False))\<rparr>"
  shows "crash_step su calm s0 \<and>
    (\<exists>s. (crash_step su)\<^sup>*\<^sup>* s0 s \<and> \<not> cr_alive s \<and> parse_dump (cr_dump s) = None) \<and>
    (\<exists>s d. (crash_step su)\<^sup>*\<^sup>* s0 s \<and> \<not> cr_alive s \<and> parse_dump (cr_dump s) = Some d \<and>
       cd_frames d = [\<lparr>cf_module = me_name m, cf_offset = 0, cf_build_id = []\<rparr>])"
proof -
  have first: "crash_step su calm s0"
    using crash_signal [of calm su sg] entry_writes(2) [of su sg False]
    by (simp add: s0_def calm_def prod_eq_iff)
  have s0: "cr_alive s0" "cr_in_handler s0" "cr_threads s0 1 = []" "cr_dump s0 = []"
    by (simp_all add: s0_def calm_def)
  obtain s where s: "(crash_step su)\<^sup>*\<^sup>* s0 s" "\<not> cr_alive s" "cr_dump s = []"
    using second_ends [OF s0(1-3) assms(6)] s0(4) by auto
  have none: "parse_dump [] = None" by (simp add: parse_dump_def dump_lines.simps)
  define texts where "texts = [''tombstone-native-crash 1'' @ newline, ''signal '', dec_to (sg_number sg), newline, ''code '',
    dec_to (case sg_info sg of None \<Rightarrow> 0 | Some i \<Rightarrow> si_code i), newline, ''fault '',
    hex_to (case sg_info sg of None \<Rightarrow> 0 | Some i \<Rightarrow> si_addr i), newline, ''frame '', me_name m, '' '']"
  obtain ops where "cr_threads s0 0 = map Write texts @ ops"
    using assms(1-4) by (simp add: s0_def handler_entry_def dump_writes_def write_frame_def write_str_def write_hex_def write_dec_def
        texts_def Let_def)
  note written = writes_run [OF s0(1) this, of su]
  let ?s = "s0\<lparr>cr_dump := cr_dump s0 @ concat texts, cr_threads := (cr_threads s0)(0 := ops)\<rparr>"
  obtain s' where s': "(crash_step su)\<^sup>*\<^sup>* ?s s'" "\<not> cr_alive s'" "cr_dump s' = concat texts"
    using second_ends [of ?s 1 su sg'] s0 assms(6) by auto
  have "\<forall>c \<in> set (me_name m). plain_char c"
    using assms(5) resolve_module_set [OF assms(4)] by (simp add: plain_names_def)
  from torn_frame_read [OF this] obtain d where
    "parse_dump (concat texts) = Some d" "cd_frames d = [\<lparr>cf_module = me_name m, cf_offset = 0, cf_build_id = []\<rparr>]"
    by (fastforce simp: texts_def unlines_def)
  with first s none s' rtranclp_trans [OF written s'(1)] show ?thesis by metis
qed

text \<open>A segmentation fault in a library and an abort on another thread.\<close>

definition one_setup :: handler_setup where
  "one_setup = \<lparr>su_cpu = X86_64, su_modules = [lib_module ''libg.so''], su_old = (\<lambda>_. SigDefault), su_open = True\<rparr>"

definition segv :: signal where
  "segv = \<lparr>sg_number = 11, sg_info = Some \<lparr>si_code = 1, si_addr = 0\<rparr>,
     sg_context = Some \<lparr>uc_pc = 0x1234, uc_arm_lr = 0, uc_regs = (\<lambda>_. 0)\<rparr>\<rparr>"

definition abrt :: signal where "abrt = \<lparr>sg_number = 6, sg_info = None, sg_context = None\<rparr>"

text \<open>The header could not be written, the word after it could.\<close>

theorem first_signal_owns_dump_witness:
  "\<exists>n parts. ''signal '' = concat parts \<and> list_all2 prefix parts (take n (signal_chunks one_setup segv))"
proof -
  let ?ops = "snd (handler_entry one_setup segv False)"
  let ?s0 = "calm\<lparr>cr_in_handler := True, cr_threads := (cr_threads calm)(0 := ?ops)\<rparr>"
  have entry: "handler_entry one_setup segv False = (True, ?ops)"
    using entry_writes(2) [of one_setup segv False] by (simp add: prod_eq_iff)
  obtain ops where ops: "?ops = Write (''tombstone-native-crash 1'' @ newline) # Write ''signal '' # ops"
    by (simp add: handler_entry_def dump_writes_def write_str_def one_setup_def case_prod_unfold Let_def)
  let ?s1 = "?s0\<lparr>cr_dump := cr_dump ?s0 @ [], cr_gave_up := (cr_gave_up ?s0 \<or> [] \<noteq> ''tombstone-native-crash 1'' @ newline),
    cr_threads := (cr_threads ?s0)(0 := Write ''signal '' # ops)\<rparr>"
  let ?s2 = "?s1\<lparr>cr_dump := cr_dump ?s1 @ ''signal '', cr_gave_up := (cr_gave_up ?s1 \<or> ''signal '' \<noteq> ''signal ''),
    cr_threads := (cr_threads ?s1)(0 := ops)\<rparr>"
  have "crash_step one_setup ?s0 ?s1"
    by (rule crash_write [where results = "[Failed]"]) (simp_all add: calm_def ops)
  moreover have "crash_step one_setup ?s1 ?s2"
    by (rule crash_write [where results = "[Wrote 7]"]) (simp_all add: calm_def)
  ultimately have "(crash_step one_setup)\<^sup>*\<^sup>* ?s0 ?s2" by simp
  from first_signal_owns_dump [OF entry this, THEN conjunct1] show ?thesis by (simp add: calm_def)
qed

theorem second_signal_tears_dump_witness:
  "\<exists>s d. (crash_step one_setup)\<^sup>*\<^sup>*
      (calm\<lparr>cr_in_handler := True, cr_threads := (cr_threads calm)(0 := snd (handler_entry one_setup segv False))\<rparr>) s \<and>
    parse_dump (cr_dump s) = Some d \<and> cd_frames d = [\<lparr>cf_module = ''libg.so'', cf_offset = 0, cf_build_id = []\<rparr>]"
proof -
  have "su_open one_setup" "extract_pc_lr (su_cpu one_setup) (sg_context segv) = (0x1234, 0)" "(0x1234 :: u64) \<noteq> 0"
    "resolve_module (su_modules one_setup) 0x1234 = Some (lib_module ''libg.so'', 0x234)" "plain_names (su_modules one_setup)"
    "su_old one_setup (sg_number abrt) = SigDefault"
    by (simp_all add: one_setup_def segv_def extract_pc_lr_def lib_module_def plain_names_def plain_char_def)
  from second_signal_tears_dump [OF this] show ?thesis by (auto simp: lib_module_def)
qed

end
