(* ===== verification/Retry_After.thy ===== *)
theory Retry_After
  imports Tomb_Prelude
begin

text \<open>
  \<^verbatim>\<open>src/retry_after.cpp\<close>: the parser of the \<open>Retry-After\<close> header and the delay before a retry.
  A header value that is absent or unusable is \<open>-1\<close>, as in the code.
\<close>

definition max_retry_after_seconds :: int where
  "max_retry_after_seconds = 300"

definition is_ows :: "char \<Rightarrow> bool" where
  "is_ows c \<longleftrightarrow> c = CHR '' '' \<or> c = CHR 0x09 \<or> c = CHR 0x0D \<or> c = CHR 0x0A"

text \<open>The two index loops: skip white space at the front, then at the back.\<close>

definition strip_ows :: "string \<Rightarrow> string" where
  "strip_ows value = rev (dropWhile is_ows (rev (dropWhile is_ows value)))"

fun retry_digits :: "int \<Rightarrow> string \<Rightarrow> int" where
  "retry_digits out [] = out"
| "retry_digits out (c # cs) =
    (if \<not> is_digit c then - 1 else retry_digits (out * 10 + int (digit_val c)) cs)"

definition parse_retry_after_seconds :: "string \<Rightarrow> int" where
  "parse_retry_after_seconds value =
    (let s = strip_ows value in if s = [] \<or> 9 < length s then - 1 else retry_digits 0 s)"

definition retry_delay :: "int \<Rightarrow> int \<Rightarrow> int" where
  "retry_delay attempt retry_after =
    (let attempt = (if attempt < 1 then 1 else attempt);
         attempt = (if 5 < attempt then 5 else attempt);
         delay = 2 * 2 ^ nat (attempt - 1);
         delay = (if delay < retry_after then retry_after else delay)
     in if max_retry_after_seconds < delay then max_retry_after_seconds else delay)"

section \<open>Lemmas\<close>

lemma retry_digits_all:
  "list_all is_digit s \<Longrightarrow> retry_digits v s = foldl (\<lambda>v c. 10 * v + int (digit_val c)) v s"
  by (induction s arbitrary: v) (simp_all add: mult.commute)

lemma retry_digits_stop: "0 \<le> v \<Longrightarrow> \<not> list_all is_digit s \<Longrightarrow> retry_digits v s = - 1"
  by (induction s arbitrary: v) auto

lemma dec_val_bound: "list_all is_digit s \<Longrightarrow> 0 \<le> dec_val s \<and> dec_val s < 10 ^ length s"
proof (induction s rule: rev_induct)
  case (snoc c s)
  then have "digit_val c < 10" by (simp add: digit_val_less)
  with snoc show ?case by simp
qed simp

lemma strip_ows_pad:
  assumes "list_all is_ows a" "list_all is_ows b" "s \<noteq> []" "\<forall>c \<in> set s. \<not> is_ows c"
  shows "strip_ows (a @ s @ b) = s"
proof -
  have "dropWhile is_ows (a @ s @ b) = s @ b"
    using assms by (cases s) (simp_all add: dropWhile_append3 list_all_iff)
  moreover have "dropWhile is_ows (rev b @ rev s) = rev s"
    using assms by (cases "rev s") (auto simp: dropWhile_append3 list_all_iff Cons_eq_rev_iff
        rev_eq_Cons_iff)
  ultimately show ?thesis by (simp add: strip_ows_def)
qed

lemma digit_not_ows: "is_digit c \<Longrightarrow> \<not> is_ows c"
  by (auto simp: is_digit_iff is_ows_def)

lemma retry_delay_value:
  "retry_delay attempt ra = min 300 (max (2 ^ nat (max 1 (min 5 attempt))) ra) \<and>
   2 \<le> retry_delay attempt ra \<and> retry_delay attempt ra \<le> 300"
proof -
  have "attempt < 1 \<or> attempt = 1 \<or> attempt = 2 \<or> attempt = 3 \<or> attempt = 4 \<or> attempt = 5 \<or> 5 < attempt"
    by linarith
  then have "retry_delay attempt ra = min 300 (max (2 ^ nat (max 1 (min 5 attempt))) ra) \<and>
      2 \<le> (2::int) ^ nat (max 1 (min 5 attempt))"
    by (elim disjE) (simp_all add: retry_delay_def max_retry_after_seconds_def)
  then show ?thesis by (auto simp: min_def max_def)
qed

section \<open>Properties\<close>

text \<open>The delay before any retry is the backoff \<open>2^attempt\<close> seconds (attempt clamped to 1 to 5),
  raised to the server's \<open>Retry-After\<close> and capped at 300 seconds: so it lies between 2 and 300
  seconds whatever the server sends and never drops below the backoff.\<close>

theorem retry_delay_exact:
  "retry_delay attempt ra = min 300 (max (2 ^ nat (max 1 (min 5 attempt))) ra) \<and>
   2 \<le> retry_delay attempt ra \<and> retry_delay attempt ra \<le> 300"
  by (rule retry_delay_value)

text \<open>A \<open>Retry-After\<close> value of one to nine digits, with any white space around it, is read as
  its number; every other value gives \<open>-1\<close>, so the parser never yields a number outside 0 to
  999999999.\<close>

theorem retry_after_exact:
  "(list_all is_digit (strip_ows v) \<and> strip_ows v \<noteq> [] \<and> length (strip_ows v) \<le> 9 \<and>
     parse_retry_after_seconds v = dec_val (strip_ows v) \<and>
     0 \<le> parse_retry_after_seconds v \<and> parse_retry_after_seconds v < 10 ^ 9) \<or>
   (\<not> (list_all is_digit (strip_ows v) \<and> strip_ows v \<noteq> [] \<and> length (strip_ows v) \<le> 9) \<and>
     parse_retry_after_seconds v = - 1)"
proof (cases "list_all is_digit (strip_ows v) \<and> strip_ows v \<noteq> [] \<and> length (strip_ows v) \<le> 9")
  case True
  then have "dec_val (strip_ows v) < 10 ^ length (strip_ows v)" "0 \<le> dec_val (strip_ows v)"
    using dec_val_bound by auto
  moreover have "(10::int) ^ length (strip_ows v) \<le> 10 ^ 9"
    using True by (intro power_increasing) auto
  moreover have "parse_retry_after_seconds v = dec_val (strip_ows v)"
    using True by (simp add: parse_retry_after_seconds_def Let_def retry_digits_all dec_val_def)
  ultimately show ?thesis using True by linarith
next
  case False
  then have "parse_retry_after_seconds v = - 1"
    by (auto simp: parse_retry_after_seconds_def Let_def retry_digits_stop not_le)
  with False show ?thesis by blast
qed

end
