(* ===== verification/Session_Log.thy ===== *)
theory Session_Log
  imports File_System
begin

text \<open>
  \<^verbatim>\<open>src/session_log.cpp\<close>: the rolling session log. The in-memory buffer, the byte counter and the
  paths are the state; the file lives in the file system. Each method is one step (the two
  mutexes are never held across each other's critical sections).
\<close>

record session_log =
  sl_pending :: string
  sl_dropped_lines :: nat
  sl_paths :: "(path \<times> path) option"
  sl_file_bytes :: nat

definition max_log_bytes :: nat where "max_log_bytes = 512 * 1024"
definition trimmed_log_bytes :: nat where "trimmed_log_bytes = max_log_bytes div 2"
definition max_pending_bytes :: nat where "max_pending_bytes = 64 * 1024"

definition log_newline :: char where "log_newline = CHR 0x0A"

definition new_session_log :: session_log where
  "new_session_log = \<lparr>sl_pending = [], sl_dropped_lines = 0, sl_paths = None, sl_file_bytes = 0\<rparr>"

definition log_configure :: "path \<Rightarrow> session_log \<Rightarrow> session_log" where
  "log_configure data_dir l = l\<lparr>sl_paths := Some (data_dir @ [''session.log''], data_dir @ [''previous-session.log''])\<rparr>"

definition log_rotate :: "session_log \<Rightarrow> file_system \<Rightarrow> bool \<times> session_log \<times> file_system" where
  "log_rotate l fs =
    (case sl_paths l of
       None \<Rightarrow> (False, l, fs)
     | Some (current, previous) \<Rightarrow>
         let fs = fs_remove previous fs;
             fs = (if fs_exists fs current then fs_rename current previous fs else fs)
         in (fs_exists fs previous, l\<lparr>sl_file_bytes := 0\<rparr>, fs))"

definition log_append :: "string \<Rightarrow> string \<Rightarrow> string \<Rightarrow> session_log \<Rightarrow> session_log" where
  "log_append ts_iso level message l =
    (if message = [] then l
     else if max_pending_bytes \<le> length (sl_pending l) then l\<lparr>sl_dropped_lines := sl_dropped_lines l + 1\<rparr>
     else l\<lparr>sl_pending := sl_pending l @ ts_iso @ '' ['' @ level @ ''] '' @ message @
              (if last message \<noteq> log_newline then [log_newline] else [])\<rparr>)"

definition take_pending :: "session_log \<Rightarrow> string \<times> session_log" where
  "take_pending l =
    (if sl_pending l = [] then ([], l)
     else
       let pending = sl_pending l @
             (if 0 < sl_dropped_lines l
              then ''[tombstone] session log buffer overflow: '' @ dec_nat (sl_dropped_lines l) @
                   '' lines dropped'' @ [log_newline]
              else [])
       in (pending, l\<lparr>sl_pending := [], sl_dropped_lines := 0\<rparr>))"

definition read_file :: "path \<Rightarrow> file_system \<Rightarrow> string" where
  "read_file p fs = (case fs_read fs p of None \<Rightarrow> [] | Some s \<Rightarrow> s)"

text \<open>The cut position of \<open>trim_from_front\<close>: past the first newline of the last 256 KiB.\<close>

definition trim_start :: "string \<Rightarrow> nat" where
  "trim_start all =
    (let start = length all - trimmed_log_bytes;
         start = start + length (takeWhile (\<lambda>c. c \<noteq> log_newline) (drop start all))
     in if start < length all then start + 1 else start)"

definition trim_from_front :: "path \<Rightarrow> session_log \<Rightarrow> file_system \<Rightarrow> session_log \<times> file_system" where
  "trim_from_front current l fs =
    (let all = read_file current fs in
     if length all \<le> trimmed_log_bytes then (l\<lparr>sl_file_bytes := length all\<rparr>, fs)
     else let start = trim_start all; (opened, fs') = fs_write current (drop start all) fs in
       if \<not> opened then (l, fs) else (l\<lparr>sl_file_bytes := length all - start\<rparr>, fs'))"

definition write_chunk :: "string \<Rightarrow> session_log \<Rightarrow> file_system \<Rightarrow> session_log \<times> file_system" where
  "write_chunk chunk l fs =
    (case sl_paths l of
       None \<Rightarrow> (l, fs)
     | Some (current, previous) \<Rightarrow>
         let (opened, fs') = fs_append current chunk fs in
         if \<not> opened then (l, fs)
         else let l = l\<lparr>sl_file_bytes := sl_file_bytes l + length chunk\<rparr> in
           if max_log_bytes < sl_file_bytes l then trim_from_front current l fs' else (l, fs'))"

definition flush_now :: "session_log \<Rightarrow> file_system \<Rightarrow> session_log \<times> file_system" where
  "flush_now l fs =
    (let (chunk, l) = take_pending l in if chunk \<noteq> [] then write_chunk chunk l fs else (l, fs))"

definition read_current :: "session_log \<Rightarrow> file_system \<Rightarrow> string \<times> session_log \<times> file_system" where
  "read_current l fs =
    (let (l, fs) = flush_now l fs in
     ((case sl_paths l of None \<Rightarrow> [] | Some (current, _) \<Rightarrow> read_file current fs), l, fs))"

definition read_previous :: "session_log \<Rightarrow> file_system \<Rightarrow> string" where
  "read_previous l fs = (case sl_paths l of None \<Rightarrow> [] | Some (_, previous) \<Rightarrow> read_file previous fs)"

section \<open>Runs\<close>

datatype log_op = LogAppend string string string | LogFlush

fun log_step :: "log_op \<Rightarrow> session_log \<times> file_system \<Rightarrow> session_log \<times> file_system" where
  "log_step (LogAppend ts level message) (l, fs) = (log_append ts level message l, fs)"
| "log_step LogFlush (l, fs) = flush_now l fs"

section \<open>Lemmas\<close>

text \<open>A file system on which the log file can be opened.\<close>

definition log_disk_ok :: "path \<Rightarrow> file_system \<Rightarrow> bool" where
  "log_disk_ok p fs \<longleftrightarrow> fl_readable fs p \<and> fl_writable fs p"

definition content :: "path \<Rightarrow> file_system \<Rightarrow> string" where
  "content p fs = (case fs_lookup fs p of None \<Rightarrow> [] | Some s \<Rightarrow> s)"

definition ends_line :: "string \<Rightarrow> bool" where
  "ends_line s \<longleftrightarrow> s \<noteq> [] \<and> last s = log_newline"

definition line_suffix :: "string \<Rightarrow> string \<Rightarrow> bool" where
  "line_suffix c s \<longleftrightarrow> c = s \<or> (\<exists>pre. s = pre @ log_newline # c)"

lemma line_suffix_trans: "line_suffix b a \<Longrightarrow> line_suffix c b \<Longrightarrow> line_suffix c a"
  by (auto simp: line_suffix_def)

lemma line_suffix_append: "line_suffix c s \<Longrightarrow> line_suffix (c @ x) (s @ x)"
  by (auto simp: line_suffix_def)

lemma take_pending_line:
  "(sl_pending l = [] \<or> ends_line (sl_pending l)) \<Longrightarrow> fst (take_pending l) = [] \<or> ends_line (fst (take_pending l))"
  by (auto simp: take_pending_def ends_line_def)

lemma log_append_line:
  "sl_pending l = [] \<or> ends_line (sl_pending l) \<Longrightarrow>
    sl_pending (log_append ts lv m l) = [] \<or> ends_line (sl_pending (log_append ts lv m l))"
  by (auto simp: log_append_def ends_line_def)

lemma trim_start_cut:
  assumes "trimmed_log_bytes < length all" "ends_line all"
  shows "line_suffix (drop (trim_start all) all) all" and "trim_start all \<le> length all"
    and "length all - trim_start all \<le> trimmed_log_bytes"
proof -
  define s where "s = length all - trimmed_log_bytes"
  define t where "t = takeWhile (\<lambda>c. c \<noteq> log_newline) (drop s all)"
  have s: "s < length all" using assms(1) by (simp add: s_def trimmed_log_bytes_def max_log_bytes_def)
  have "log_newline \<in> set (drop s all)"
    using assms(2) s by (metis ends_line_def last_drop last_in_set drop_eq_Nil not_le)
  then have "t \<noteq> drop s all" by (auto simp: t_def dest: set_takeWhileD)
  moreover define u where "u = dropWhile (\<lambda>c. c \<noteq> log_newline) (drop s all)"
  have u: "drop s all = t @ u" unfolding t_def u_def by (rule takeWhile_dropWhile_id [symmetric])
  ultimately have "u \<noteq> []" by auto
  moreover have "hd u = log_newline" using hd_dropWhile [of "\<lambda>c. c \<noteq> log_newline" "drop s all"] \<open>u \<noteq> []\<close>
    unfolding u_def by blast
  ultimately obtain v where v: "u = log_newline # v" by (cases u) auto
  have all: "all = (take s all @ t) @ log_newline # v"
    using append_take_drop_id [of s all] u v by simp
  have len: "length (take s all @ t) = s + length t" using s by simp
  have "s + length t < length all" using arg_cong [OF all, of length] len by simp
  then have ts: "trim_start all = Suc (s + length t)"
    by (simp add: trim_start_def Let_def s_def [symmetric] t_def [symmetric])
  have "drop (trim_start all) all = v"
  proof -
    have "drop (Suc (length A)) (A @ log_newline # v) = v" for A :: string by simp
    from this [of "take s all @ t"] show ?thesis by (simp only: ts len all [symmetric])
  qed
  with all show "line_suffix (drop (trim_start all) all) all" unfolding line_suffix_def by metis
  show "trim_start all \<le> length all" using \<open>s + length t < length all\<close> by (simp add: ts)
  show "length all - trim_start all \<le> trimmed_log_bytes" by (simp add: ts s_def)
qed

lemma content_put [simp]: "content p (fs_put p s fs) = s"
  by (simp add: content_def disk.lookup_put)

lemma read_file_content: "fl_readable fs p \<Longrightarrow> read_file p fs = content p fs"
  by (simp add: read_file_def fs_read_def content_def)

lemma write_chunk_effect:
  assumes "sl_paths l = Some (p, q)" "log_disk_ok p fs" "sl_file_bytes l = length (content p fs)"
    and "ends_line chunk" "write_chunk chunk l fs = (l', fs')"
  shows "sl_paths l' = Some (p, q)" "sl_pending l' = sl_pending l" "log_disk_ok p fs'"
    "sl_file_bytes l' = length (content p fs')" "length (content p fs') \<le> max_log_bytes"
    "line_suffix (content p fs') (content p fs @ chunk)"
    "r \<noteq> p \<Longrightarrow> fs_lookup fs' r = fs_lookup fs r"
proof -
  let ?all = "content p fs @ chunk"
  have app: "fs_append p chunk fs = (True, fs_put p ?all fs)"
    using assms(2) by (simp add: fs_append_def log_disk_ok_def content_def)
  have "sl_paths l' = Some (p, q) \<and> sl_pending l' = sl_pending l \<and> log_disk_ok p fs' \<and>
      sl_file_bytes l' = length (content p fs') \<and> length (content p fs') \<le> max_log_bytes \<and>
      line_suffix (content p fs') ?all \<and> (r \<noteq> p \<longrightarrow> fs_lookup fs' r = fs_lookup fs r)"
  proof (cases "max_log_bytes < length ?all")
    case False
    then have "l' = l\<lparr>sl_file_bytes := length ?all\<rparr>" "fs' = fs_put p ?all fs"
      using assms(1,3,5) by (auto simp: write_chunk_def app Let_def)
    with assms(1,2) False show ?thesis
      by (simp add: log_disk_ok_def line_suffix_def disk.lookup_put)
  next
    case True
    then have big: "trimmed_log_bytes < length ?all" by (simp add: trimmed_log_bytes_def)
    have "ends_line ?all" using assms(4) by (simp add: ends_line_def)
    note cut = trim_start_cut [OF big this]
    have "read_file p (fs_put p ?all fs) = ?all"
      using assms(2) by (simp add: read_file_content log_disk_ok_def)
    then have "l' = l\<lparr>sl_file_bytes := length ?all - trim_start ?all\<rparr>"
      "fs' = fs_put p (drop (trim_start ?all) ?all) (fs_put p ?all fs)"
      using assms(1,2,3,5) True big
      by (auto simp: write_chunk_def app Let_def trim_from_front_def fs_write_def log_disk_ok_def)
    with assms(1,2) cut show ?thesis
      by (simp add: log_disk_ok_def disk.lookup_put trimmed_log_bytes_def del: drop_append length_append)
  qed
  then show "sl_paths l' = Some (p, q)" "sl_pending l' = sl_pending l" "log_disk_ok p fs'"
    "sl_file_bytes l' = length (content p fs')" "length (content p fs') \<le> max_log_bytes"
    "line_suffix (content p fs') ?all" "r \<noteq> p \<Longrightarrow> fs_lookup fs' r = fs_lookup fs r"
    by simp_all
qed

text \<open>
  The invariant of a run: the counter is the file's length, the file fits the cap, and together
  with what was flushed (\<open>S\<close>) the file is a tail of it cut at a line.
\<close>

definition log_inv :: "path \<Rightarrow> path \<Rightarrow> string \<Rightarrow> session_log \<times> file_system \<Rightarrow> bool" where
  "log_inv p q S st \<longleftrightarrow>
    sl_paths (fst st) = Some (p, q) \<and> log_disk_ok p (snd st) \<and>
    sl_file_bytes (fst st) = length (content p (snd st)) \<and> length (content p (snd st)) \<le> max_log_bytes \<and>
    (sl_pending (fst st) = [] \<or> ends_line (sl_pending (fst st))) \<and> line_suffix (content p (snd st)) S"

text \<open>What an operation flushes.\<close>

fun flushed_by :: "log_op \<Rightarrow> session_log \<Rightarrow> string" where
  "flushed_by (LogAppend ts level message) l = []"
| "flushed_by LogFlush l = fst (take_pending l)"

fun flushed :: "log_op list \<Rightarrow> session_log \<times> file_system \<Rightarrow> string" where
  "flushed [] st = []"
| "flushed (op # ops) st = flushed_by op (fst st) @ flushed ops (log_step op st)"

lemma log_step_inv:
  assumes "log_inv p q S st"
  shows "log_inv p q (S @ flushed_by op (fst st)) (log_step op st)"
proof (cases op)
  case (LogAppend ts level message)
  obtain l fs where st: "st = (l, fs)" by force
  have "sl_paths (log_append ts level message l) = sl_paths l"
    "sl_file_bytes (log_append ts level message l) = sl_file_bytes l"
    by (simp_all add: log_append_def)
  with assms log_append_line [of l ts level message] show ?thesis
    by (simp add: log_inv_def LogAppend st)
next
  case LogFlush
  obtain l fs where st: "st = (l, fs)" by force
  obtain chunk l1 where take: "take_pending l = (chunk, l1)" by force
  have l1: "sl_paths l1 = sl_paths l" "sl_file_bytes l1 = sl_file_bytes l" "sl_pending l1 = []"
    using take by (auto simp: take_pending_def split: if_splits)
  show ?thesis
  proof (cases "chunk = []")
    case True
    with assms l1 take show ?thesis by (simp add: log_inv_def LogFlush st flush_now_def)
  next
    case False
    have inv: "sl_paths l1 = Some (p, q)" "log_disk_ok p fs" "sl_file_bytes l1 = length (content p fs)"
      using assms l1 by (simp_all add: log_inv_def st)
    have chunk: "ends_line chunk"
      using take_pending_line [of l] assms False take by (simp add: log_inv_def st)
    obtain l2 fs2 where w: "write_chunk chunk l1 fs = (l2, fs2)" by force
    note eff = write_chunk_effect [OF inv chunk w]
    have "line_suffix (content p fs2) (S @ chunk)"
      using line_suffix_trans [OF line_suffix_append eff(6)] assms by (simp add: log_inv_def st)
    with eff l1 w take False show ?thesis by (simp add: log_inv_def LogFlush st flush_now_def)
  qed
qed

lemma log_run_inv: "log_inv p q S st \<Longrightarrow> log_inv p q (S @ flushed ops st) (fold log_step ops st)"
proof (induction ops arbitrary: S st)
  case (Cons op ops)
  from Cons.IH [OF log_step_inv [OF Cons.prems, of op]] show ?case by simp
qed simp

section \<open>Properties\<close>

text \<open>C28. The log file is bounded and keeps the newest whole lines: from an empty file on a working
  disk, after any interleaving of appends and flushes the file is at most 512 KiB, and it is a tail
  of everything flushed so far that starts at the beginning of a line.\<close>

theorem session_log_bounded_tail:
  assumes "sl_paths l = Some (p, q)" "log_disk_ok p fs" "fs_lookup fs p = None"
    and "sl_pending l = []" "sl_file_bytes l = 0"
  shows "length (content p (snd (fold log_step ops (l, fs)))) \<le> 524288 \<and>
    line_suffix (content p (snd (fold log_step ops (l, fs)))) (flushed ops (l, fs))"
proof -
  have "content p fs = []" using assms(3) by (simp add: content_def)
  then have "log_inv p q [] (l, fs)"
    using assms by (simp add: log_inv_def line_suffix_def)
  from log_run_inv [OF this, of ops] show ?thesis by (simp add: log_inv_def max_log_bytes_def)
qed

definition free_disk :: file_system where
  "free_disk = \<lparr>fl_files = [], fl_readable = (\<lambda>_. True), fl_writable = (\<lambda>_. True), fl_removable = (\<lambda>_. True)\<rparr>"

theorem session_log_bounded_tail_witness:
  "line_suffix (content [''session.log''] (snd (fold log_step [LogAppend ''t'' ''info'' ''m'', LogFlush]
      (log_configure [] new_session_log, free_disk))))
    (flushed [LogAppend ''t'' ''info'' ''m'', LogFlush] (log_configure [] new_session_log, free_disk))"
  using session_log_bounded_tail [of "log_configure [] new_session_log" "[''session.log'']" "[''previous-session.log'']"
      free_disk "[LogAppend ''t'' ''info'' ''m'', LogFlush]"]
  by (simp add: log_configure_def new_session_log_def free_disk_def log_disk_ok_def fs_lookup_def)

text \<open>Rotation preserves the previous run's log: on a disk that allows it, what \<open>session.log\<close> held
  is afterwards in \<open>previous-session.log\<close>, whatever stale file was there, the current log is gone,
  and the result says whether a previous log exists.\<close>

theorem rotation_preserves_log:
  assumes "sl_paths l = Some (p, q)" "p \<noteq> q"
    and "fl_removable fs p" "fl_removable fs q" "fl_writable fs q" "fl_readable fs q"
  shows "log_rotate l fs = (r, l', fs') \<Longrightarrow>
    r = fs_exists fs p \<and> fs_lookup fs' q = fs_lookup fs p \<and> fs_lookup fs' p = None \<and>
    read_previous l' fs' = content p fs"
proof -
  assume "log_rotate l fs = (r, l', fs')"
  then have r: "r = fs_exists fs' q" "l' = l\<lparr>sl_file_bytes := 0\<rparr>"
    and fs': "fs' = (if fs_exists (fs_remove q fs) p then fs_rename p q (fs_remove q fs) else fs_remove q fs)"
    using assms(1) by (auto simp: log_rotate_def Let_def)
  have lp: "fs_lookup (fs_remove q fs) p = fs_lookup fs p" "fs_lookup (fs_remove q fs) q = None"
    using assms by (simp_all add: disk.lookup_del)
  have look: "fs_lookup fs' q = fs_lookup fs p \<and> fs_lookup fs' p = None"
  proof (cases "fs_lookup fs p")
    case None
    then show ?thesis using lp by (simp add: fs' fs_exists_def)
  next
    case (Some s)
    let ?d = "(fs_remove q fs)\<lparr>fl_files := AList.delete p (fl_files (fs_remove q fs))\<rparr>"
    have "fs' = fs_put q s ?d"
      using Some lp assms by (simp add: fs' fs_exists_def fs_rename_def)
    moreover have "fs_lookup ?d p = None" by (simp add: fs_lookup_def delete_conv')
    ultimately show ?thesis using Some assms(2) by (simp add: disk.lookup_put)
  qed
  moreover have "fl_readable fs' = fl_readable fs"
    by (simp add: fs' fs_rename_def split: option.split)
  ultimately show ?thesis
    using assms(1,6) r by (simp add: fs_exists_def read_previous_def read_file_def fs_read_def content_def)
qed

theorem rotation_preserves_log_witness:
  "fst (log_rotate (log_configure [] new_session_log) (fs_put [''session.log''] ''crash'' free_disk)) = True"
proof -
  obtain r l' fs' where e: "log_rotate (log_configure [] new_session_log) (fs_put [''session.log''] ''crash'' free_disk) = (r, l', fs')"
    by (metis prod_cases3)
  from rotation_preserves_log [OF _ _ _ _ _ _ e, of "[''session.log'']" "[''previous-session.log'']"] have r
    by (simp add: log_configure_def free_disk_def fs_exists_def disk.lookup_put)
  then show ?thesis by (simp add: e)
qed

end
