(* ===== verification/Sidecar_Queue.thy ===== *)
theory Sidecar_Queue
  imports File_System
begin

text \<open>
  \<^verbatim>\<open>src/sidecar_queue.cpp\<close>: the offline durability queue, one file per pending payload. The unique
  file name (wall clock and random engine) is an argument of \<open>write\<close>.
\<close>

unbundle bit_operations_syntax

datatype sidecar_kind = Crash | BugReport | Event

text \<open>The order of the enumeration, in which the code walks the kinds.\<close>

fun kind_rank :: "sidecar_kind \<Rightarrow> nat" where
  "kind_rank Crash = 0"
| "kind_rank BugReport = 1"
| "kind_rank Event = 2"

instantiation sidecar_kind :: linorder
begin

definition less_eq_sidecar_kind :: "sidecar_kind \<Rightarrow> sidecar_kind \<Rightarrow> bool" where
  "less_eq_sidecar_kind a b \<longleftrightarrow> kind_rank a \<le> kind_rank b"

definition less_sidecar_kind :: "sidecar_kind \<Rightarrow> sidecar_kind \<Rightarrow> bool" where
  "less_sidecar_kind a b \<longleftrightarrow> kind_rank a < kind_rank b"

instance
proof
  fix a b c :: sidecar_kind
  show "a < b \<longleftrightarrow> a \<le> b \<and> \<not> b \<le> a" by (auto simp: less_eq_sidecar_kind_def less_sidecar_kind_def)
  show "a \<le> a" by (simp add: less_eq_sidecar_kind_def)
  show "a \<le> b \<Longrightarrow> b \<le> c \<Longrightarrow> a \<le> c" by (simp add: less_eq_sidecar_kind_def)
  show "a \<le> b \<Longrightarrow> b \<le> a \<Longrightarrow> a = b"
    by (cases a; cases b) (simp_all add: less_eq_sidecar_kind_def)
  show "a \<le> b \<or> b \<le> a" by (auto simp: less_eq_sidecar_kind_def)
qed

end

record sidecar_record =
  sr_kind :: sidecar_kind
  sr_path :: path
  sr_body :: string

text \<open>\<^const>\<open>None\<close> until \<open>configure\<close> has created the directories.\<close>

type_synonym sidecar_queue = "path option"

definition max_files_per_kind :: nat where
  "max_files_per_kind = 64"

definition all_kinds :: "sidecar_kind list" where
  "all_kinds = [Crash, BugReport, Event]"

fun kind_dir_name :: "sidecar_kind \<Rightarrow> string" where
  "kind_dir_name Crash = ''crashes''"
| "kind_dir_name BugReport = ''bug-reports''"
| "kind_dir_name Event = ''events''"

text \<open>\<open>created\<close> says whether the directories could be created.\<close>

definition sidecar_configure :: "path \<Rightarrow> bool \<Rightarrow> sidecar_queue" where
  "sidecar_configure data_dir created = (if created then Some (data_dir @ [''pending'']) else None)"

definition kind_dir :: "path \<Rightarrow> sidecar_kind \<Rightarrow> path" where
  "kind_dir pending_dir kind = pending_dir @ [kind_dir_name kind]"

definition count_files :: "file_system \<Rightarrow> path \<Rightarrow> nat" where
  "count_files fs dir = length (fs_list fs dir)"

text \<open>\<open>random_hex8\<close> and the file name from the clock's milliseconds and the engine's value.\<close>

definition random_hex8 :: "64 word \<Rightarrow> string" where
  "random_hex8 v = map (\<lambda>i. hex_digits ! unat (drop_bit (i * 4) v AND 0xF)) [0..<8]"

definition unique_file_name :: "int \<Rightarrow> 64 word \<Rightarrow> string" where
  "unique_file_name ms v = dec_int ms @ ''-'' @ random_hex8 v @ ''.json''"

text \<open>The backing path, empty when nothing was persisted.\<close>

definition sidecar_write ::
    "sidecar_kind \<Rightarrow> string \<Rightarrow> string \<Rightarrow> sidecar_queue \<Rightarrow> file_system \<Rightarrow> path \<times> file_system" where
  "sidecar_write kind body name q fs =
    (case q of
       None \<Rightarrow> ([], fs)
     | Some pending \<Rightarrow>
         let dir = kind_dir pending kind in
         if max_files_per_kind \<le> count_files fs dir then ([], fs)
         else let file = dir @ [name]; (opened, fs') = fs_write file body fs in
           if \<not> opened then ([], fs) else (file, fs'))"

definition sidecar_remove :: "path \<Rightarrow> file_system \<Rightarrow> file_system" where
  "sidecar_remove p fs = (if p = [] then fs else fs_remove p fs)"

text \<open>\<open>path::extension() == ".json"\<close>: the name ends in it and is more than that.\<close>

definition json_file :: "path \<Rightarrow> bool" where
  "json_file p \<longleftrightarrow> p \<noteq> [] \<and> suffix ''.json'' (last p) \<and> length (last p) \<noteq> 5"

definition scan_kind :: "path \<Rightarrow> file_system \<Rightarrow> sidecar_kind \<Rightarrow> sidecar_record list" where
  "scan_kind pending fs kind =
    concat (map (\<lambda>(p, s).
        if \<not> json_file p then []
        else case fs_read fs p of
               None \<Rightarrow> []
             | Some body \<Rightarrow>
                 if body \<noteq> [] then [\<lparr>sr_kind = kind, sr_path = p, sr_body = body\<rparr>] else [])
      (fs_list fs (kind_dir pending kind)))"

definition sidecar_scan :: "sidecar_queue \<Rightarrow> file_system \<Rightarrow> sidecar_record list" where
  "sidecar_scan q fs =
    (case q of None \<Rightarrow> [] | Some pending \<Rightarrow> concat (map (scan_kind pending fs) all_kinds))"

definition pending_count :: "sidecar_queue \<Rightarrow> file_system \<Rightarrow> nat" where
  "pending_count q fs =
    (case q of None \<Rightarrow> 0
     | Some pending \<Rightarrow> sum_list (map (\<lambda>kind. count_files fs (kind_dir pending kind)) all_kinds))"

section \<open>Lemmas\<close>

lemma kind_dir_inject [simp]: "kind_dir pending k = kind_dir pending k' \<longleftrightarrow> k = k'"
  by (cases k; cases k') (simp_all add: kind_dir_def)

lemma all_kinds_complete [simp]: "k \<in> set all_kinds"
  by (cases k) (simp_all add: all_kinds_def)

lemma in_scan_kind:
  "fs_ok fs \<Longrightarrow> r \<in> set (scan_kind pending fs kind) \<longleftrightarrow>
    sr_kind r = kind \<and> json_file (sr_path r) \<and> butlast (sr_path r) = kind_dir pending kind \<and>
    fl_readable fs (sr_path r) \<and> fs_lookup fs (sr_path r) = Some (sr_body r) \<and> sr_body r \<noteq> []"
proof -
  assume ok: "fs_ok fs"
  have "r \<in> set (scan_kind pending fs kind) \<longleftrightarrow>
      (\<exists>p s. (p, s) \<in> set (fl_files fs) \<and> p \<noteq> [] \<and> butlast p = kind_dir pending kind \<and> json_file p \<and>
        fl_readable fs p \<and> (\<exists>b. fs_lookup fs p = Some b \<and> b \<noteq> [] \<and> r = \<lparr>sr_kind = kind, sr_path = p, sr_body = b\<rparr>))"
    by (auto simp: scan_kind_def fs_list_def fs_read_def split: if_splits option.splits)
  also have "\<dots> \<longleftrightarrow> sr_kind r = kind \<and> json_file (sr_path r) \<and> butlast (sr_path r) = kind_dir pending kind \<and>
    fl_readable fs (sr_path r) \<and> fs_lookup fs (sr_path r) = Some (sr_body r) \<and> sr_body r \<noteq> []"
    using in_files_lookup [OF ok] by (cases r) (auto simp: json_file_def)
  finally show ?thesis .
qed

lemma in_scan:
  "fs_ok fs \<Longrightarrow> r \<in> set (sidecar_scan (Some pending) fs) \<longleftrightarrow>
    json_file (sr_path r) \<and> butlast (sr_path r) = kind_dir pending (sr_kind r) \<and>
    fl_readable fs (sr_path r) \<and> fs_lookup fs (sr_path r) = Some (sr_body r) \<and> sr_body r \<noteq> []"
  by (simp add: sidecar_scan_def in_scan_kind)

lemma json_file_unique: "json_file (dir @ [unique_file_name ms v])"
  by (auto simp: json_file_def unique_file_name_def suffix_def)

lemma length_fs_list_put:
  "length (fs_list (fs_put p s fs) dir) \<le>
    length (fs_list fs dir) + (if p \<noteq> [] \<and> butlast p = dir then 1 else 0)"
proof -
  have "length (filter P (AList.update p s al)) \<le> length (filter P al) + (if Q then 1 else 0)"
    if "\<And>q t. P (q, t) \<longleftrightarrow> q \<noteq> [] \<and> butlast q = dir" "Q \<longleftrightarrow> p \<noteq> [] \<and> butlast p = dir" for P Q al
    using that by (induction al) auto
  then show ?thesis by (simp add: fs_list_def fs_put_def)
qed

lemma length_fs_list_remove: "length (fs_list (fs_remove p fs) dir) \<le> length (fs_list fs dir)"
proof -
  have "length (filter P (AList.delete p al)) \<le> length (filter P al)" for P and al :: "(path \<times> string) list"
    by (induction al) (auto simp: le_Suc_eq)
  then show ?thesis by (simp add: fs_list_def fs_remove_def)
qed

definition sidecars_ok :: "path \<Rightarrow> file_system \<Rightarrow> bool" where
  "sidecars_ok pending fs \<longleftrightarrow> (\<forall>kind. count_files fs (kind_dir pending kind) \<le> max_files_per_kind)"

lemma sidecar_write_ok: "sidecars_ok pending fs \<Longrightarrow> sidecars_ok pending (snd (sidecar_write k b n (Some pending) fs))"
proof -
  assume ok: "sidecars_ok pending fs"
  have "count_files (fs_put (kind_dir pending k @ [n]) b fs) (kind_dir pending kind) \<le> max_files_per_kind"
    if "count_files fs (kind_dir pending k) < max_files_per_kind" for kind
    using ok length_fs_list_put [of "kind_dir pending k @ [n]" b fs "kind_dir pending kind"] that
    by (cases "k = kind") (auto simp: sidecars_ok_def count_files_def dest: spec [of _ kind])
  with ok show ?thesis by (auto simp: sidecar_write_def Let_def fs_write_def sidecars_ok_def)
qed

lemma sidecar_remove_ok: "sidecars_ok pending fs \<Longrightarrow> sidecars_ok pending (sidecar_remove p fs)"
  using length_fs_list_remove [of p fs]
  by (auto simp: sidecars_ok_def sidecar_remove_def count_files_def intro: order_trans)

section \<open>Properties\<close>

text \<open>C19. A persisted payload comes back: after a successful write of a non-empty body under a fresh
  unique name, the next scan finds exactly what it would have found before plus this payload, byte
  for byte and under its own endpoint; deleting the returned path takes exactly it away again.\<close>

theorem sidecar_write_scan:
  assumes "fs_ok fs" "sidecar_write kind body (unique_file_name ms v) (Some pending) fs = (p, fs')"
    and "p \<noteq> []" "body \<noteq> []" "fs_lookup fs p = None" "fl_readable fs p" "fl_removable fs p"
  shows "set (sidecar_scan (Some pending) fs') =
      insert \<lparr>sr_kind = kind, sr_path = p, sr_body = body\<rparr> (set (sidecar_scan (Some pending) fs)) \<and>
    set (sidecar_scan (Some pending) (sidecar_remove p fs')) = set (sidecar_scan (Some pending) fs)"
proof -
  have p: "p = kind_dir pending kind @ [unique_file_name ms v]" and fs': "fs' = fs_put p body fs"
    using assms(2,3) by (auto simp: sidecar_write_def Let_def fs_write_def split: if_splits)
  have json: "json_file p" by (simp add: p json_file_unique)
  have scan: "r \<in> set (sidecar_scan (Some pending) fs') \<longleftrightarrow>
      r = \<lparr>sr_kind = kind, sr_path = p, sr_body = body\<rparr> \<or> r \<in> set (sidecar_scan (Some pending) fs)" for r
    using assms(1,4,5,6) json in_scan [OF assms(1), of r pending] in_scan [of fs' r pending]
    by (cases r) (auto simp: fs' disk.lookup_put p)
  have gone: "fs_lookup (sidecar_remove p fs') = fs_lookup fs"
    using assms(3,5,7) disk.put_then_del [of fs p body] by (simp add: sidecar_remove_def fs')
  have "fs_ok (sidecar_remove p fs')" "fl_readable (sidecar_remove p fs') = fl_readable fs"
    using assms(1) by (simp_all add: sidecar_remove_def fs')
  then have "set (sidecar_scan (Some pending) (sidecar_remove p fs')) = set (sidecar_scan (Some pending) fs)"
    using in_scan [OF assms(1)] in_scan [of "sidecar_remove p fs'"] gone by auto
  with scan show ?thesis by blast
qed

definition empty_disk :: file_system where
  "empty_disk = \<lparr>fl_files = [], fl_readable = (\<lambda>_. True), fl_writable = (\<lambda>_. True), fl_removable = (\<lambda>_. True)\<rparr>"

theorem sidecar_write_scan_witness:
  "set (sidecar_scan (Some [''pending'']) (snd (sidecar_write Crash ''{}'' (unique_file_name 1 0) (Some [''pending'']) empty_disk))) =
    {\<lparr>sr_kind = Crash, sr_path = [''pending'', ''crashes'', unique_file_name 1 0], sr_body = ''{}''\<rparr>}"
proof -
  have w: "sidecar_write Crash ''{}'' (unique_file_name 1 0) (Some [''pending'']) empty_disk =
      ([''pending'', ''crashes'', unique_file_name 1 0],
       fs_put [''pending'', ''crashes'', unique_file_name 1 0] ''{}'' empty_disk)"
    by (simp add: sidecar_write_def Let_def count_files_def fs_list_def fs_write_def empty_disk_def kind_dir_def
        max_files_per_kind_def)
  have e: "fs_ok empty_disk" "fs_lookup empty_disk q = None" "fl_readable empty_disk q" "fl_removable empty_disk q"
    "sidecar_scan (Some [''pending'']) empty_disk = []" for q
    by (simp_all add: sidecar_scan_def scan_kind_def fs_list_def empty_disk_def fs_ok_def fs_lookup_def)
  show ?thesis
    using sidecar_write_scan [OF e(1) w _ _ e(2-4)] by (simp add: w e(5))
qed

text \<open>The disk use is bounded: any sequence of writes and removals keeps at most 64 files per kind,
  and at the bound a write is refused and changes nothing.\<close>

datatype sidecar_op = SWrite sidecar_kind string string | SRemove path

fun sidecar_step :: "sidecar_queue \<Rightarrow> sidecar_op \<Rightarrow> file_system \<Rightarrow> file_system" where
  "sidecar_step q (SWrite kind body name) fs = snd (sidecar_write kind body name q fs)"
| "sidecar_step q (SRemove p) fs = sidecar_remove p fs"

theorem sidecar_queue_bounded:
  assumes "sidecars_ok pending fs"
  shows "count_files (fold (sidecar_step (Some pending)) ops fs) (kind_dir pending kind) \<le> 64 \<and>
    (count_files fs (kind_dir pending kind) = 64 \<longrightarrow>
      sidecar_write kind body name (Some pending) fs = ([], fs))"
proof -
  have "sidecars_ok pending (fold (sidecar_step (Some pending)) ops fs)"
    using assms
  proof (induction ops arbitrary: fs)
    case (Cons op ops)
    then show ?case by (cases op) (simp_all add: sidecar_write_ok sidecar_remove_ok)
  qed simp
  then show ?thesis by (simp add: sidecars_ok_def max_files_per_kind_def sidecar_write_def)
qed

theorem sidecar_queue_bounded_witness:
  "count_files (fold (sidecar_step (Some [''p''])) [SWrite Crash ''a'' ''1.json'', SRemove [''p'', ''crashes'', ''1.json'']] empty_disk)
     (kind_dir [''p''] Crash) \<le> 64"
proof -
  have "sidecars_ok [''p''] empty_disk" by (simp add: sidecars_ok_def count_files_def fs_list_def empty_disk_def)
  from sidecar_queue_bounded [OF this] show ?thesis by blast
qed

lemma distinct_paths:
  assumes "distinct (map fst ps)"
    and one: "\<And>x. f x = [] \<or> (\<exists>r. f x = [r] \<and> sr_path r = fst x)"
  shows "distinct (map sr_path (concat (map f ps)))"
proof -
  have sub: "sr_path ` set (concat (map f qs)) \<subseteq> fst ` set qs" for qs
  proof (induction qs)
    case (Cons x qs)
    have "sr_path ` set (f x) \<subseteq> {fst x}" using one [of x] by auto
    with Cons show ?case by (simp only: list.map concat.simps set_append image_Un list.set image_insert) blast
  qed simp
  show ?thesis
    using assms(1)
  proof (induction ps)
    case (Cons x ps)
    then have rest: "distinct (map sr_path (concat (map f ps)))" "fst x \<notin> sr_path ` set (concat (map f ps))"
      using sub [of ps] by auto
    from one [of x] show ?case
    proof
      assume "f x = []"
      with rest(1) show ?thesis by simp
    next
      assume "\<exists>r. f x = [r] \<and> sr_path r = fst x"
      then obtain r where "f x = [r]" "sr_path r = fst x" by blast
      with rest show ?thesis by simp
    qed
  qed simp
qed

text \<open>A scan reports the payloads kind by kind, crashes first, and each pending file once.\<close>

theorem scan_sorted_distinct:
  assumes "fs_ok fs"
  shows "sorted (map sr_kind (sidecar_scan (Some pending) fs)) \<and>
    distinct (map sr_path (sidecar_scan (Some pending) fs))"
proof -
  have kind: "r \<in> set (scan_kind pending fs k) \<Longrightarrow> sr_kind r = k \<and> butlast (sr_path r) = kind_dir pending k" for r k
    using in_scan_kind [OF assms] by blast
  have kinds: "map sr_kind (scan_kind pending fs k) = replicate (length (scan_kind pending fs k)) k" for k
    using kind by (intro replicate_eqI) auto
  have "distinct (map fst (fs_list fs dir))" for dir
    using assms by (simp add: fs_ok_def fs_list_def distinct_map_filter)
  then have paths: "distinct (map sr_path (scan_kind pending fs k))" for k
    unfolding scan_kind_def
    by (intro distinct_paths) (auto simp: fs_read_def split: option.split)
  have scan: "sidecar_scan (Some pending) fs =
      scan_kind pending fs Crash @ scan_kind pending fs BugReport @ scan_kind pending fs Event"
    by (simp add: sidecar_scan_def all_kinds_def)
  have "sorted (map sr_kind (sidecar_scan (Some pending) fs))"
    by (simp add: scan sorted_append kinds less_eq_sidecar_kind_def)
  moreover have "sr_path ` set (scan_kind pending fs k) \<inter> sr_path ` set (scan_kind pending fs k') = {}" if "k \<noteq> k'" for k k'
  proof -
    have "kind_dir pending k = kind_dir pending k'"
      if "r \<in> set (scan_kind pending fs k)" "r' \<in> set (scan_kind pending fs k')" "sr_path r = sr_path r'" for r r'
      using kind [OF that(1)] kind [OF that(2)] that(3) by simp
    with \<open>k \<noteq> k'\<close> show ?thesis by (auto dest: sym)
  qed
  ultimately show ?thesis using paths by (simp add: scan Int_Un_distrib)
qed

theorem scan_sorted_distinct_witness:
  "sorted (map sr_kind (sidecar_scan (Some [''p'']) empty_disk)) \<and> distinct (map sr_path (sidecar_scan (Some [''p'']) empty_disk))"
  by (rule scan_sorted_distinct) (simp add: fs_ok_def empty_disk_def)

end
