(* ===== verification/Worker.thy ===== *)
theory Worker
  imports Json_Scan Retry_After Session_Log Sidecar_Queue Ieee_Double
begin

text \<open>
  \<^verbatim>\<open>src/worker.h\<close> and \<^verbatim>\<open>src/worker.cpp\<close>: the delivery thread. The worker's fields, together with the
  session log, the sidecar queue and the disk it works on, form one state; every method is a
  function on it. The answers of the server, the clock, the measured round trip and the random
  file name of a sidecar are arguments. The client's callbacks are arguments too (\<open>handlers\<close>).
\<close>

section \<open>Types\<close>

datatype outcome = Delivered | Transient | Poison

datatype durability = Ephemeral | PersistOnFailure | WriteAhead

text \<open>\<open>HttpResponse\<close> of \<^verbatim>\<open>src/transport.h\<close>.\<close>

record http_response =
  hr_transport_error :: bool
  hr_status :: int
  hr_body :: string
  hr_retry_after :: string

record upload_job =
  uj_is_log_upload :: bool
  uj_form_fields :: "(string \<times> string) list"
  uj_url :: string
  uj_body :: string
  uj_raw :: string
  uj_durability :: durability
  uj_kind :: sidecar_kind
  uj_sidecar_path :: path
  uj_request_log :: bool
  uj_log_from_previous :: bool
  uj_no_persist :: bool
  uj_parse_ack :: bool
  uj_sign_body :: bool
  uj_suppress_rtt :: bool
  uj_attempt :: int
  uj_not_before :: int

definition new_job :: upload_job where
  "new_job =
    \<lparr>uj_is_log_upload = False, uj_form_fields = [], uj_url = [], uj_body = [], uj_raw = [],
     uj_durability = PersistOnFailure, uj_kind = Event, uj_sidecar_path = [],
     uj_request_log = False, uj_log_from_previous = False, uj_no_persist = False,
     uj_parse_ack = False, uj_sign_body = False, uj_suppress_rtt = False, uj_attempt = 0,
     uj_not_before = 0\<rparr>"

record worker =
  wk_session_log :: session_log
  wk_sidecars :: sidecar_queue
  wk_disk :: file_system
  wk_queue :: "upload_job list"
  wk_running :: bool
  wk_in_flight :: bool
  wk_previous_log_claimed :: bool
  wk_wake_requested :: bool
  wk_next_log_flush :: int

definition max_queue_size :: nat where "max_queue_size = 256"
definition max_attempts :: int where "max_attempts = 5"

text \<open>Durations in nanoseconds, the tick of the steady clock.\<close>

definition seconds :: "int \<Rightarrow> int" where "seconds n = n * 1000000000"
definition log_flush_interval :: int where "log_flush_interval = seconds 5"
definition batch_check_interval :: int where "batch_check_interval = seconds 1"

text \<open>The three callbacks the client installs; \<^const>\<open>None\<close> is an empty \<open>std::function\<close>.\<close>

record 'w handlers =
  hd_drain :: "('w \<Rightarrow> 'w) option"
  hd_ack :: "(string \<Rightarrow> 'w \<Rightarrow> 'w) option"
  hd_rtt :: "(double \<Rightarrow> 'w \<Rightarrow> 'w) option"

section \<open>The code\<close>

definition classify :: "bool \<Rightarrow> int \<Rightarrow> outcome" where
  "classify transport_error status =
    (if transport_error then Transient
     else if 200 \<le> status \<and> status < 300 then Delivered
     else if status = 408 \<or> status = 429 \<or> 500 \<le> status then Transient
     else Poison)"

definition retry_after_hint :: "int \<Rightarrow> string \<Rightarrow> int" where
  "retry_after_hint status retry_after =
    (if status \<noteq> 429 \<and> status \<noteq> 503 then - 1 else parse_retry_after_seconds retry_after)"

definition response_outcome :: "http_response \<Rightarrow> outcome" where
  "response_outcome r = classify (hr_transport_error r) (hr_status r)"

definition worker_start :: "int \<Rightarrow> 'a worker_scheme \<Rightarrow> 'a worker_scheme" where
  "worker_start now w =
    (if wk_running w then w
     else w\<lparr>wk_running := True, wk_next_log_flush := now + log_flush_interval\<rparr>)"

definition worker_wake :: "'a worker_scheme \<Rightarrow> 'a worker_scheme" where
  "worker_wake w = w\<lparr>wk_wake_requested := True\<rparr>"

definition enqueue :: "upload_job \<Rightarrow> 'a worker_scheme \<Rightarrow> 'a worker_scheme" where
  "enqueue job w =
    w\<lparr>wk_queue := (if max_queue_size \<le> length (wk_queue w) then tl (wk_queue w) else wk_queue w) @ [job]\<rparr>"

text \<open>The predicate \<open>flush\<close> waits for, and the diagnostic counter.\<close>

definition flush_done :: "'a worker_scheme \<Rightarrow> bool" where
  "flush_done w \<longleftrightarrow> wk_queue w = [] \<and> \<not> wk_in_flight w"

definition queued_count :: "'a worker_scheme \<Rightarrow> nat" where
  "queued_count w = length (wk_queue w)"

definition next_wakeup :: "bool \<Rightarrow> int \<Rightarrow> 'a worker_scheme \<Rightarrow> int" where
  "next_wakeup has_drainer now w =
    (let wakeup = fold (\<lambda>queued t. if uj_not_before queued < t then uj_not_before queued else t)
                    (wk_queue w) (wk_next_log_flush w)
     in if has_drainer \<and> now + batch_check_interval < wakeup then now + batch_check_interval else wakeup)"

text \<open>The wait ends at once when this holds.\<close>

definition wait_over :: "int \<Rightarrow> 'a worker_scheme \<Rightarrow> bool" where
  "wait_over now w \<longleftrightarrow>
    \<not> wk_running w \<or> wk_wake_requested w \<or> list_ex (\<lambda>queued. uj_not_before queued \<le> now) (wk_queue w) \<or>
    wk_next_log_flush w \<le> now"

fun take_first_ready :: "int \<Rightarrow> upload_job list \<Rightarrow> (upload_job \<times> upload_job list) option" where
  "take_first_ready now [] = None"
| "take_first_ready now (job # jobs) =
    (if uj_not_before job \<le> now then Some (job, jobs)
     else map_option (\<lambda>(out, rest). (out, job # rest)) (take_first_ready now jobs))"

definition take_ready_job :: "int \<Rightarrow> 'a worker_scheme \<Rightarrow> (upload_job \<times> 'a worker_scheme) option" where
  "take_ready_job now w =
    map_option (\<lambda>(out, rest). (out, w\<lparr>wk_queue := rest\<rparr>)) (take_first_ready now (wk_queue w))"

text \<open>The condition under which a payload is worth a sidecar of its own.\<close>

definition needs_sidecar :: "upload_job \<Rightarrow> bool" where
  "needs_sidecar job \<longleftrightarrow>
    \<not> uj_is_log_upload job \<and> \<not> uj_no_persist job \<and> uj_sidecar_path job = [] \<and>
    uj_durability job \<noteq> Ephemeral"

definition persist_job :: "string \<Rightarrow> upload_job \<Rightarrow> 'a worker_scheme \<Rightarrow> 'a worker_scheme" where
  "persist_job name job w =
    (if needs_sidecar job
     then w\<lparr>wk_disk := snd (sidecar_write (uj_kind job) (uj_body job) name (wk_sidecars w) (wk_disk w))\<rparr>
     else w)"

definition retry_or_give_up ::
    "int \<Rightarrow> string \<Rightarrow> upload_job \<Rightarrow> int \<Rightarrow> 'a worker_scheme \<Rightarrow> 'a worker_scheme" where
  "retry_or_give_up now name job retry_after_seconds w =
    (if uj_attempt job + 1 < max_attempts
     then let job = job\<lparr>uj_attempt := uj_attempt job + 1\<rparr>;
              job = job\<lparr>uj_not_before := now + seconds (retry_delay (uj_attempt job) retry_after_seconds)\<rparr>
          in enqueue job w
     else persist_job name job w)"

definition schedule_log_upload :: "upload_job \<Rightarrow> string \<Rightarrow> 'a worker_scheme \<Rightarrow> 'a worker_scheme" where
  "schedule_log_upload job response_body w =
    (case find_log_upload response_body of
       None \<Rightarrow> w
     | Some upload \<Rightarrow>
         if uj_log_from_previous job \<and> wk_previous_log_claimed w then w
         else
           let w = (if uj_log_from_previous job then w\<lparr>wk_previous_log_claimed := True\<rparr> else w);
               (bytes, w) =
                 (if uj_log_from_previous job
                  then (read_previous (wk_session_log w) (wk_disk w), w)
                  else let (bytes, l, fs) = read_current (wk_session_log w) (wk_disk w)
                       in (bytes, w\<lparr>wk_session_log := l, wk_disk := fs\<rparr>))
           in if bytes = [] then w
              else enqueue (new_job\<lparr>uj_is_log_upload := True, uj_url := lu_url upload,
                     uj_form_fields := lu_fields upload, uj_raw := bytes,
                     uj_durability := PersistOnFailure\<rparr>) w)"

definition remove_sidecar :: "path \<Rightarrow> 'a worker_scheme \<Rightarrow> 'a worker_scheme" where
  "remove_sidecar p w = w\<lparr>wk_disk := sidecar_remove p (wk_disk w)\<rparr>"

definition handle_post_result ::
    "'a worker_scheme handlers \<Rightarrow> int \<Rightarrow> string \<Rightarrow> upload_job \<Rightarrow> http_response \<Rightarrow>
      'a worker_scheme \<Rightarrow> 'a worker_scheme" where
  "handle_post_result hs now name job response w =
    (case response_outcome response of
       Delivered \<Rightarrow>
         let w = remove_sidecar (uj_sidecar_path job) w;
             w = (if uj_request_log job then schedule_log_upload job (hr_body response) w else w)
         in (case hd_ack hs of
               Some ack \<Rightarrow> if uj_parse_ack job then ack (hr_body response) w else w
             | None \<Rightarrow> w)
     | Poison \<Rightarrow> remove_sidecar (uj_sidecar_path job) w
     | Transient \<Rightarrow>
         if uj_durability job = Ephemeral then w
         else retry_or_give_up now name job
                (retry_after_hint (hr_status response) (hr_retry_after response)) w)"

definition process ::
    "'a worker_scheme handlers \<Rightarrow> int \<Rightarrow> string \<Rightarrow> double \<Rightarrow> http_response \<Rightarrow> upload_job \<Rightarrow>
      'a worker_scheme \<Rightarrow> 'a worker_scheme" where
  "process hs now name ms response job w =
    (if uj_is_log_upload job
     then if response_outcome response = Transient \<and> uj_attempt job + 1 < max_attempts
          then retry_or_give_up now name job
                 (retry_after_hint (hr_status response) (hr_retry_after response)) w
          else w
     else
       let emit_rtt = (hd_rtt hs \<noteq> None \<and> uj_sign_body job \<and> \<not> uj_suppress_rtt job \<and>
                       response_outcome response = Delivered);
           w = handle_post_result hs now name job response w
       in (case hd_rtt hs of Some rtt \<Rightarrow> if emit_rtt then rtt ms w else w | None \<Rightarrow> w))"

text \<open>
  One round of \<open>run\<close>, woken at time \<open>now\<close>; the wait may also end spuriously or by its time limit,
  so a round may happen at any time. \<open>round_wake\<close> is its locked part before the job is taken,
  with the paced log flush. The first result is false when the thread returns. The arguments
  \<open>now\<close> and \<open>later\<close> are the clock readings before and after the request.
\<close>

definition round_wake :: "int \<Rightarrow> 'a worker_scheme \<Rightarrow> 'a worker_scheme" where
  "round_wake now w =
    (let w = w\<lparr>wk_wake_requested := False\<rparr> in
     if wk_next_log_flush w \<le> now
     then let (l, fs) = flush_now (wk_session_log w) (wk_disk w)
          in w\<lparr>wk_next_log_flush := now + log_flush_interval, wk_session_log := l, wk_disk := fs\<rparr>
     else w)"

definition worker_round ::
    "'a worker_scheme handlers \<Rightarrow> int \<Rightarrow> int \<Rightarrow> string \<Rightarrow> double \<Rightarrow> http_response \<Rightarrow>
      'a worker_scheme \<Rightarrow> bool \<times> 'a worker_scheme" where
  "worker_round hs now later name ms response w =
    (let w = (case hd_drain hs of Some drain \<Rightarrow> drain w | None \<Rightarrow> w) in
     if \<not> wk_running w then (False, w)
     else
       let w = round_wake now w in
       case take_ready_job now w of
         None \<Rightarrow> (True, w)
       | Some (job, w) \<Rightarrow>
           let w = process hs later name ms response job (w\<lparr>wk_in_flight := True\<rparr>)
           in (True, w\<lparr>wk_in_flight := False\<rparr>))"

text \<open>\<open>names\<close> supplies the random file names of the sidecars written on the way out.\<close>

definition persist_leftovers :: "(nat \<Rightarrow> string) \<Rightarrow> 'a worker_scheme \<Rightarrow> 'a worker_scheme" where
  "persist_leftovers names w =
    fold (\<lambda>(i, job). persist_job (names i) job) (zip [0..<length (wk_queue w)] (wk_queue w))
      (w\<lparr>wk_queue := []\<rparr>)"

definition worker_stop :: "(nat \<Rightarrow> string) \<Rightarrow> 'a worker_scheme \<Rightarrow> 'a worker_scheme" where
  "worker_stop names w =
    (if \<not> wk_running w then w else persist_leftovers names (w\<lparr>wk_running := False\<rparr>))"

section \<open>The queue is a drop-oldest buffer\<close>

definition queue_ok :: "'a worker_scheme \<Rightarrow> bool" where
  "queue_ok w \<longleftrightarrow> length (wk_queue w) \<le> max_queue_size"

lemma enqueue_queue: "queue_ok w \<Longrightarrow> wk_queue (enqueue job w) = last_n max_queue_size (wk_queue w @ [job])"
proof -
  assume ok: "queue_ok w"
  show ?thesis
  proof (cases "length (wk_queue w) < max_queue_size")
    case False
    with ok have "length (wk_queue w) = max_queue_size" by (simp add: queue_ok_def)
    with last_n_snoc_full [OF this] show ?thesis by (simp add: enqueue_def max_queue_size_def)
  qed (simp add: enqueue_def)
qed

interpretation outbound: drop_oldest wk_queue enqueue max_queue_size queue_ok
  by unfold_locales (simp_all add: enqueue_queue queue_ok_def)

lemma set_enqueue: "set (wk_queue (enqueue job w)) \<subseteq> insert job (set (wk_queue w))"
  by (auto simp: enqueue_def dest: list.set_sel(2) [rotated] intro: list.set_sel(2))

lemma enqueue_frame [simp, frame_simps]:
  "wk_session_log (enqueue j w) = wk_session_log w" "wk_sidecars (enqueue j w) = wk_sidecars w"
  "wk_disk (enqueue j w) = wk_disk w" "wk_running (enqueue j w) = wk_running w"
  "wk_in_flight (enqueue j w) = wk_in_flight w" "wk_wake_requested (enqueue j w) = wk_wake_requested w"
  "wk_previous_log_claimed (enqueue j w) = wk_previous_log_claimed w"
  "wk_next_log_flush (enqueue j w) = wk_next_log_flush w"
  "worker.more (enqueue j w) = worker.more w"
  by (simp_all add: enqueue_def)

end
