(* ===== verification/Delivery.thy ===== *)
theory Delivery
  imports Worker
begin

text \<open>
  The delivery state as a transition system: what the rest of the SDK may do to it, and what the
  worker thread does. The mutex makes every event atomic, and between \<open>EvTake\<close> and \<open>EvAnswer\<close> the
  thread holds a job while it sends it, so any other event may come between the two. \<open>EvAnswer\<close>
  carries the answer and \<open>EvPersist\<close> and \<open>EvStop\<close> carry the random sidecar names used; \<open>EvFile\<close>
  is any change of one other file of the data directory.
\<close>

definition no_handlers :: "'a worker_scheme handlers" where
  "no_handlers = \<lparr>hd_drain = None, hd_ack = None, hd_rtt = None\<rparr>"

datatype worker_event =
    EvEnqueue upload_job
  | EvPersist sidecar_kind string string
  | EvLog string string string
  | EvFlush
  | EvWake
  | EvWoken int
  | EvTake upload_job
  | EvAnswer upload_job http_response string
  | EvDone
  | EvFile path
  | EvStop "nat \<Rightarrow> string"

definition append_line :: "string \<Rightarrow> string \<Rightarrow> string \<Rightarrow> 'a worker_scheme \<Rightarrow> 'a worker_scheme" where
  "append_line ts level message w =
    w\<lparr>wk_session_log := log_append ts level message (wk_session_log w)\<rparr>"

definition flush_log :: "'a worker_scheme \<Rightarrow> 'a worker_scheme" where
  "flush_log w =
    (let (l, fs) = flush_now (wk_session_log w) (wk_disk w) in w\<lparr>wk_session_log := l, wk_disk := fs\<rparr>)"

definition write_sidecar :: "sidecar_kind \<Rightarrow> string \<Rightarrow> string \<Rightarrow> 'a worker_scheme \<Rightarrow> path \<times> 'a worker_scheme" where
  "write_sidecar kind body name w =
    (let (p, fs) = sidecar_write kind body name (wk_sidecars w) (wk_disk w) in (p, w\<lparr>wk_disk := fs\<rparr>))"

text \<open>\<open>worker_step w held e w' held'\<close>: \<open>held\<close> is the job in the hands of the thread. \<open>stop\<close> joins the thread first.\<close>

inductive worker_step ::
    "worker \<Rightarrow> upload_job option \<Rightarrow> worker_event \<Rightarrow> worker \<Rightarrow> upload_job option \<Rightarrow> bool" where
  step_enqueue: "uj_attempt job = 0 \<Longrightarrow> worker_step w h (EvEnqueue job) (enqueue job w) h"
| step_persist: "worker_step w h (EvPersist kind body name) (snd (write_sidecar kind body name w)) h"
| step_log: "worker_step w h (EvLog ts level message) (append_line ts level message w) h"
| step_flush: "worker_step w h EvFlush (flush_log w) h"
| step_wake: "worker_step w h EvWake (worker_wake w) h"
| step_woken: "worker_step w None (EvWoken now) (round_wake now w) None"
| step_take:
    "take_ready_job now w = Some (job, w') \<Longrightarrow>
      worker_step w None (EvTake job) (w'\<lparr>wk_in_flight := True\<rparr>) (Some job)"
| step_answer:
    "worker_step w (Some job) (EvAnswer job response name)
       (process no_handlers later name ms response job w) None"
| step_file:
    "(\<And>q. q \<noteq> p \<Longrightarrow> fs_lookup fs q = fs_lookup (wk_disk w) q) \<Longrightarrow>
      worker_step w h (EvFile p) (w\<lparr>wk_disk := fs\<rparr>) h"
| step_done: "worker_step w None EvDone (w\<lparr>wk_in_flight := False\<rparr>) None"
| step_stop: "worker_step w None (EvStop names) (worker_stop names w) None"

inductive worker_run ::
    "worker \<Rightarrow> upload_job option \<Rightarrow> worker_event list \<Rightarrow> worker \<Rightarrow> upload_job option \<Rightarrow> bool" where
  run_Nil: "worker_run w h [] w h"
| run_Cons: "worker_step w h e w1 h1 \<Longrightarrow> worker_run w1 h1 es w2 h2 \<Longrightarrow> worker_run w h (e # es) w2 h2"

inductive_cases step_answerE: "worker_step w h (EvAnswer job response name) w' h'"
inductive_cases step_takeE: "worker_step w h (EvTake job) w' h'"
inductive_simps step_enqueue_iff: "worker_step w h (EvEnqueue job) w' h'"

lemma run_append: "worker_run w h es w1 h1 \<Longrightarrow> worker_run w1 h1 fs w2 h2 \<Longrightarrow> worker_run w h (es @ fs) w2 h2"
  by (induction rule: worker_run.induct) (auto intro: worker_run.intros)

lemma run_single: "worker_step w h e w' h' \<Longrightarrow> worker_run w h [e] w' h'"
  by (auto intro: worker_run.intros)

section \<open>What the operations leave alone\<close>

lemma take_first_ready_split:
  "take_first_ready now jobs = Some (job, rest) \<Longrightarrow>
    \<exists>pre post. jobs = pre @ job # post \<and> rest = pre @ post \<and> uj_not_before job \<le> now"
proof (induction jobs arbitrary: rest)
  case (Cons a jobs)
  show ?case
  proof (cases "uj_not_before a \<le> now")
    case True
    with Cons.prems show ?thesis by (intro exI [of _ "[]"] exI [of _ jobs]) auto
  next
    case False
    with Cons.prems obtain r where "take_first_ready now jobs = Some (job, r)" "rest = a # r" by auto
    with Cons.IH show ?thesis by (metis append_Cons)
  qed
qed simp

lemma take_first_ready_None:
  "take_first_ready now jobs = None \<longleftrightarrow> (\<forall>job \<in> set jobs. now < uj_not_before job)"
  by (induction jobs) auto

lemma take_ready_job_Some:
  assumes "take_ready_job now w = Some (job, w')"
  obtains pre post where "wk_queue w = pre @ job # post" "w' = w\<lparr>wk_queue := pre @ post\<rparr>"
    "uj_not_before job \<le> now"
  using assms take_first_ready_split [of now "wk_queue w" job] by (auto simp: take_ready_job_def)

lemma worker_wake_frame [simp, frame_simps]:
  "wk_session_log (worker_wake w) = wk_session_log w" "wk_sidecars (worker_wake w) = wk_sidecars w"
  "wk_disk (worker_wake w) = wk_disk w" "wk_queue (worker_wake w) = wk_queue w"
  "wk_running (worker_wake w) = wk_running w"
  by (simp_all add: worker_wake_def)

lemma flush_now_paths: "sl_paths (fst (flush_now l fs)) = sl_paths l"
  by (auto simp: flush_now_def take_pending_def write_chunk_def trim_from_front_def Let_def
      split: if_splits option.splits prod.splits)

lemma fs_write_lookup: "p \<noteq> q \<Longrightarrow> fs_lookup (snd (fs_write q s fs)) p = fs_lookup fs p"
  by (simp add: fs_write_def disk.other_paths)

lemma fs_append_lookup: "p \<noteq> q \<Longrightarrow> fs_lookup (snd (fs_append q s fs)) p = fs_lookup fs p"
  by (simp add: fs_append_def disk.other_paths)

definition off_log :: "path \<Rightarrow> session_log \<Rightarrow> bool" where
  "off_log p l \<longleftrightarrow> (\<forall>current previous. sl_paths l = Some (current, previous) \<longrightarrow> p \<noteq> current)"

lemma trim_from_front_lookup:
  "p \<noteq> current \<Longrightarrow> fs_lookup (snd (trim_from_front current l fs)) p = fs_lookup fs p"
  using fs_write_lookup [of p current _ fs]
  by (simp add: trim_from_front_def Let_def case_prod_unfold)

lemma take_pending_paths: "sl_paths (snd (take_pending l)) = sl_paths l"
  by (simp add: take_pending_def Let_def)

lemma write_chunk_lookup:
  assumes "off_log p l"
  shows "fs_lookup (snd (write_chunk chunk l fs)) p = fs_lookup fs p"
proof (cases "sl_paths l")
  case (Some cp)
  with assms have "p \<noteq> fst cp" by (cases cp) (auto simp: off_log_def)
  with Some fs_append_lookup [OF this] trim_from_front_lookup [OF this] show ?thesis
    by (simp add: write_chunk_def Let_def case_prod_unfold)
qed (simp add: write_chunk_def)

lemma flush_now_lookup: "off_log p l \<Longrightarrow> fs_lookup (snd (flush_now l fs)) p = fs_lookup fs p"
  using write_chunk_lookup [of p "snd (take_pending l)"] take_pending_paths [of l]
  by (simp add: flush_now_def case_prod_unfold off_log_def Let_def)

lemma sidecar_write_lookup:
  "last p \<noteq> name \<Longrightarrow> fs_lookup (snd (sidecar_write kind body name q fs)) p = fs_lookup fs p"
proof -
  assume "last p \<noteq> name"
  then have "p \<noteq> dir @ [name]" for dir by auto
  then show ?thesis
    using fs_write_lookup [of p]
    by (simp add: sidecar_write_def Let_def case_prod_unfold split: option.split)
qed

lemma sidecar_remove_lookup: "p \<noteq> q \<Longrightarrow> fs_lookup (sidecar_remove q fs) p = fs_lookup fs p"
  by (simp add: sidecar_remove_def disk.other_paths)

lemma log_append_paths [simp]: "sl_paths (log_append ts level m l) = sl_paths l"
  by (simp add: log_append_def)

lemma persist_job_frame [simp, frame_simps]:
  "wk_session_log (persist_job name j w) = wk_session_log w" "wk_sidecars (persist_job name j w) = wk_sidecars w"
  "wk_queue (persist_job name j w) = wk_queue w" "wk_running (persist_job name j w) = wk_running w"
  by (simp_all add: persist_job_def)

lemma persist_job_lookup:
  "last p \<noteq> name \<Longrightarrow> fs_lookup (wk_disk (persist_job name j w)) p = fs_lookup (wk_disk w) p"
  by (simp add: persist_job_def sidecar_write_lookup)

lemma retry_or_give_up_frame [simp, frame_simps]:
  "wk_session_log (retry_or_give_up now name j ra w) = wk_session_log w"
  "wk_running (retry_or_give_up now name j ra w) = wk_running w"
  by (simp_all add: retry_or_give_up_def Let_def)

lemma retry_or_give_up_lookup:
  "last p \<noteq> name \<Longrightarrow> fs_lookup (wk_disk (retry_or_give_up now name j ra w)) p = fs_lookup (wk_disk w) p"
  by (simp add: retry_or_give_up_def Let_def persist_job_lookup)

lemma remove_sidecar_frame [simp, frame_simps]:
  "wk_session_log (remove_sidecar p w) = wk_session_log w" "wk_queue (remove_sidecar p w) = wk_queue w"
  "wk_running (remove_sidecar p w) = wk_running w" "wk_disk (remove_sidecar p w) = sidecar_remove p (wk_disk w)"
  by (simp_all add: remove_sidecar_def)

lemma schedule_log_upload_lookup:
  assumes "off_log p (wk_session_log w)"
  shows "fs_lookup (wk_disk (schedule_log_upload job body w)) p = fs_lookup (wk_disk w) p \<and>
    sl_paths (wk_session_log (schedule_log_upload job body w)) = sl_paths (wk_session_log w)"
  using flush_now_lookup [OF assms, of "wk_disk w"] flush_now_paths [of "wk_session_log w" "wk_disk w"]
  by (auto simp: schedule_log_upload_def read_current_def Let_def case_prod_unfold split: option.split)

lemma schedule_log_upload_running [simp, frame_simps]:
  "wk_running (schedule_log_upload job body w) = wk_running w"
  by (auto simp: schedule_log_upload_def Let_def case_prod_unfold split: option.split)

lemma persist_leftovers_lookup:
  assumes "last p \<notin> range names"
  shows "fs_lookup (wk_disk (persist_leftovers names w)) p = fs_lookup (wk_disk w) p \<and>
    wk_session_log (persist_leftovers names w) = wk_session_log w"
proof -
  have "fs_lookup (wk_disk (fold (\<lambda>(i, job). persist_job (names i) job) js v)) p = fs_lookup (wk_disk v) p \<and>
      wk_session_log (fold (\<lambda>(i, job). persist_job (names i) job) js v) = wk_session_log v"
    for js and v :: "'a worker_scheme"
  proof (induction js arbitrary: v)
    case (Cons x js)
    have "last p \<noteq> names (fst x)" using assms by auto
    from persist_job_lookup [OF this, of "snd x" v] Cons show ?case by (simp add: case_prod_unfold)
  qed simp
  then show ?thesis by (simp add: persist_leftovers_def)
qed

lemma persist_leftovers_queue [simp]: "wk_queue (persist_leftovers names w) = []"
proof -
  have "wk_queue (fold (\<lambda>(i, job). persist_job (names i) job) js v) = wk_queue v"
    for js and v :: "'a worker_scheme"
    by (induction js arbitrary: v) (simp_all add: case_prod_unfold)
  then show ?thesis by (simp add: persist_leftovers_def)
qed

section \<open>A backing file outlives everything but an answer\<close>

text \<open>The events that write to \<open>p\<close>: a change of that very file, or a new sidecar of its name.\<close>

fun touches :: "path \<Rightarrow> worker_event \<Rightarrow> bool" where
  "touches p (EvPersist kind body name) \<longleftrightarrow> last p = name"
| "touches p (EvAnswer job response name) \<longleftrightarrow> last p = name"
| "touches p (EvFile q) \<longleftrightarrow> q = p"
| "touches p (EvStop names) \<longleftrightarrow> last p \<in> range names"
| "touches p _ \<longleftrightarrow> False"

text \<open>The answers that let a payload go: accepted, or rejected for good.\<close>

fun settles :: "path \<Rightarrow> worker_event \<Rightarrow> bool" where
  "settles p (EvAnswer job response name) \<longleftrightarrow>
     \<not> uj_is_log_upload job \<and> uj_sidecar_path job = p \<and> response_outcome response \<noteq> Transient"
| "settles p _ \<longleftrightarrow> False"

lemma process_lookup:
  assumes "off_log p (wk_session_log w)" "last p \<noteq> name"
    and "uj_is_log_upload job \<or> uj_sidecar_path job \<noteq> p \<or> response_outcome r = Transient"
  shows "fs_lookup (wk_disk (process no_handlers later name ms r job w)) p = fs_lookup (wk_disk w) p \<and>
    sl_paths (wk_session_log (process no_handlers later name ms r job w)) = sl_paths (wk_session_log w)"
proof -
  let ?w = "remove_sidecar (uj_sidecar_path job) w"
  have off: "off_log p (wk_session_log ?w)" using assms(1) by simp
  show ?thesis
    using assms(2,3) schedule_log_upload_lookup [OF off, of job "hr_body r"]
    by (cases "response_outcome r")
      (auto simp: process_def no_handlers_def handle_post_result_def Let_def retry_or_give_up_lookup
        sidecar_remove_lookup)
qed

definition backed :: "path \<Rightarrow> string \<Rightarrow> worker \<Rightarrow> bool" where
  "backed p body w \<longleftrightarrow> fs_lookup (wk_disk w) p = Some body \<and> off_log p (wk_session_log w)"

lemma backed_step:
  assumes "worker_step w h e w' h'" "backed p body w" "\<not> touches p e" "\<not> settles p e"
  shows "backed p body w'"
  using assms
proof (induction rule: worker_step.induct)
  case (step_persist w h kind b name)
  then show ?case by (simp add: backed_def write_sidecar_def case_prod_unfold Let_def sidecar_write_lookup)
next
  case (step_file q fs w h)
  then show ?case by (auto simp: backed_def)
next
  case (step_flush w h)
  then show ?case
    using flush_now_lookup [of p "wk_session_log w" "wk_disk w"] flush_now_paths [of "wk_session_log w" "wk_disk w"]
    by (auto simp: backed_def flush_log_def case_prod_unfold off_log_def Let_def)
next
  case (step_woken w now)
  then show ?case
    using flush_now_lookup [of p "wk_session_log w" "wk_disk w"] flush_now_paths [of "wk_session_log w" "wk_disk w"]
    by (auto simp: backed_def round_wake_def case_prod_unfold off_log_def Let_def)
next
  case (step_take now w job w')
  then show ?case by (auto simp: backed_def elim: take_ready_job_Some)
next
  case (step_answer w job r name later ms)
  with process_lookup [of p w name job r later ms] show ?case by (auto simp: backed_def off_log_def)
next
  case (step_stop w names)
  then show ?case
    using persist_leftovers_lookup [of p names "w\<lparr>wk_running := False\<rparr>"]
    by (simp add: backed_def worker_stop_def off_log_def)
qed (auto simp: backed_def append_line_def off_log_def)

lemma backed_run:
  "worker_run w h es w' h' \<Longrightarrow> backed p body w \<Longrightarrow> \<forall>e \<in> set es. \<not> touches p e \<Longrightarrow>
    backed p body w' \<or> (\<exists>e \<in> set es. settles p e)"
  by (induction rule: worker_run.induct) (auto dest: backed_step)

section \<open>Bounds\<close>

definition job_ok :: "upload_job \<Rightarrow> bool" where
  "job_ok job \<longleftrightarrow> 0 \<le> uj_attempt job \<and> uj_attempt job < max_attempts"

definition delivery_ok :: "'a worker_scheme \<Rightarrow> bool" where
  "delivery_ok w \<longleftrightarrow> queue_ok w \<and> (\<forall>job \<in> set (wk_queue w). job_ok job)"

lemma enqueue_ok: "delivery_ok w \<Longrightarrow> job_ok job \<Longrightarrow> delivery_ok (enqueue job w)"
  using set_enqueue [of job w] outbound.ok_push [of w job] by (auto simp: delivery_ok_def)

lemma delivery_ok_queue: "delivery_ok w \<Longrightarrow> wk_queue w' = wk_queue w \<Longrightarrow> delivery_ok w'"
  by (simp add: delivery_ok_def queue_ok_def)

lemma new_job_ok [simp]: "uj_attempt job = 0 \<Longrightarrow> job_ok job"
  by (simp add: job_ok_def max_attempts_def)

lemma schedule_log_upload_ok: "delivery_ok w \<Longrightarrow> delivery_ok (schedule_log_upload job body w)"
  by (auto simp: schedule_log_upload_def Let_def case_prod_unfold new_job_def split: option.split
      intro!: enqueue_ok elim: delivery_ok_queue)

lemma retry_or_give_up_ok:
  "delivery_ok w \<Longrightarrow> job_ok job \<Longrightarrow> delivery_ok (retry_or_give_up now name job ra w)"
  by (auto simp: retry_or_give_up_def Let_def job_ok_def intro!: enqueue_ok elim: delivery_ok_queue)

lemma process_ok:
  assumes "delivery_ok w" "job_ok job"
  shows "delivery_ok (process no_handlers later name ms r job w)"
proof -
  have "delivery_ok (remove_sidecar p w)" for p
    using assms(1) by (rule delivery_ok_queue) simp
  with assms show ?thesis
    by (cases "response_outcome r")
      (simp_all add: process_def no_handlers_def handle_post_result_def Let_def schedule_log_upload_ok
        retry_or_give_up_ok)
qed

lemma taken_ok:
  assumes "take_ready_job now w = Some (job, w')" "delivery_ok w"
  shows "job_ok job \<and> delivery_ok w'"
  using assms(1) by (rule take_ready_job_Some) (use assms(2) in \<open>auto simp: delivery_ok_def queue_ok_def\<close>)

definition thread_ok :: "worker \<Rightarrow> upload_job option \<Rightarrow> bool" where
  "thread_ok w h \<longleftrightarrow> delivery_ok w \<and> (\<forall>job. h = Some job \<longrightarrow> job_ok job)"

lemma thread_ok_queue: "thread_ok w h \<Longrightarrow> wk_queue w' = wk_queue w \<Longrightarrow> thread_ok w' h"
  by (auto simp: thread_ok_def elim: delivery_ok_queue)

lemma thread_ok_step: "worker_step w h e w' h' \<Longrightarrow> thread_ok w h \<Longrightarrow> thread_ok w' h'"
proof (induction rule: worker_step.induct)
  case (step_take now w job w')
  with taken_ok [OF this(1)] show ?case by (auto simp: thread_ok_def elim: delivery_ok_queue)
next
  case (step_answer w job r name later ms)
  then show ?case by (simp add: thread_ok_def process_ok)
next
  case (step_enqueue job w h)
  then show ?case by (simp add: thread_ok_def enqueue_ok)
next
  case (step_stop w names)
  have "delivery_ok (persist_leftovers names v)" for v :: worker
    by (simp add: delivery_ok_def queue_ok_def persist_leftovers_queue)
  with step_stop show ?case by (simp add: worker_stop_def thread_ok_def)
qed (auto elim!: thread_ok_queue simp: write_sidecar_def append_line_def flush_log_def
      round_wake_def case_prod_unfold Let_def)

lemma thread_ok_run:
  "worker_run w h es w' h' \<Longrightarrow> thread_ok w h \<Longrightarrow>
    thread_ok w' h' \<and> (\<forall>job r name. EvAnswer job r name \<in> set es \<longrightarrow> job_ok job)"
proof (induction rule: worker_run.induct)
  case (run_Cons w h e w1 h1 es w2 h2)
  then have "thread_ok w2 h2 \<and> (\<forall>job r name. EvAnswer job r name \<in> set es \<longrightarrow> job_ok job)"
    by (blast intro: thread_ok_step)
  moreover have "job_ok job" if "e = EvAnswer job r name" for job r name
    using run_Cons(1,4) that by (auto elim!: step_answerE simp: thread_ok_def)
  ultimately show ?case by simp blast
qed simp

lemma delivery_run_bounded:
  assumes "worker_run w h es w' h'" "thread_ok w h"
  shows "length (wk_queue w') \<le> 256 \<and> (\<forall>job \<in> set (wk_queue w'). 0 \<le> uj_attempt job \<and> uj_attempt job \<le> 4) \<and>
    (\<forall>job r name. EvAnswer job r name \<in> set es \<longrightarrow> 0 \<le> uj_attempt job \<and> uj_attempt job \<le> 4)"
proof -
  have "job_ok job \<longleftrightarrow> 0 \<le> uj_attempt job \<and> uj_attempt job \<le> 4" for job
    by (auto simp: job_ok_def max_attempts_def)
  with thread_ok_run [OF assms] show ?thesis
    by (simp add: thread_ok_def delivery_ok_def queue_ok_def max_queue_size_def)
qed

section \<open>Delivery ends\<close>

text \<open>
  The requests a job can still cause: its own attempts, and those of the log upload an accepted
  report is followed by.
\<close>

definition job_weight :: "upload_job \<Rightarrow> nat" where
  "job_weight job =
    1 + nat (4 - uj_attempt job) + (if \<not> uj_is_log_upload job \<and> uj_request_log job then 5 else 0)"

definition queue_weight :: "'a worker_scheme \<Rightarrow> nat" where
  "queue_weight w = sum_list (map job_weight (wk_queue w))"

lemma enqueue_weight: "queue_weight (enqueue job w) \<le> queue_weight w + job_weight job"
  by (cases "wk_queue w") (auto simp: queue_weight_def enqueue_def)

lemma job_weight_ok: "job_ok job \<Longrightarrow> job_weight job \<le> 10"
  by (auto simp: job_weight_def job_ok_def)

lemma queue_weight_ok: "delivery_ok w \<Longrightarrow> queue_weight w \<le> 10 * length (wk_queue w)"
proof -
  have "\<forall>j \<in> set js. job_ok j \<Longrightarrow> sum_list (map job_weight js) \<le> 10 * length js" for js
    using job_weight_ok by (induction js) (auto intro: add_mono)
  then show "delivery_ok w \<Longrightarrow> queue_weight w \<le> 10 * length (wk_queue w)"
    by (simp add: delivery_ok_def queue_weight_def)
qed

lemma retry_weight: "queue_weight (retry_or_give_up now name job ra w) < queue_weight w + job_weight job"
proof (cases "uj_attempt job + 1 < max_attempts")
  case True
  define job' where "job' = job\<lparr>uj_attempt := uj_attempt job + 1,
    uj_not_before := now + seconds (retry_delay (uj_attempt job + 1) ra)\<rparr>"
  have "retry_or_give_up now name job ra w = enqueue job' w"
    using True by (simp add: retry_or_give_up_def job'_def)
  moreover have "job_weight job' < job_weight job"
    using True by (simp add: job_weight_def job'_def max_attempts_def)
  ultimately show ?thesis using enqueue_weight [of job' w] by simp
next
  case False
  then show ?thesis by (simp add: retry_or_give_up_def queue_weight_def job_weight_def)
qed

lemma schedule_weight:
  "queue_weight (schedule_log_upload job body w) \<le> queue_weight w + 5"
proof -
  have "queue_weight (enqueue (new_job\<lparr>uj_is_log_upload := True, uj_url := u, uj_form_fields := f, uj_raw := b,
      uj_durability := PersistOnFailure\<rparr>) v) \<le> queue_weight v + 5" for u f b and v :: "'a worker_scheme"
    using enqueue_weight [of "new_job\<lparr>uj_is_log_upload := True, uj_url := u, uj_form_fields := f, uj_raw := b,
      uj_durability := PersistOnFailure\<rparr>" v]
    by (simp add: job_weight_def new_job_def)
  note this [THEN order_trans]
  then show ?thesis
    by (auto simp: schedule_log_upload_def Let_def case_prod_unfold queue_weight_def split: option.split)
qed

lemma process_weight:
  "queue_weight (process no_handlers later name ms r job w) < queue_weight w + job_weight job"
proof -
  have remove: "queue_weight (remove_sidecar p w) = queue_weight w" for p by (simp add: queue_weight_def)
  have "queue_weight (schedule_log_upload job body (remove_sidecar p w)) < queue_weight w + job_weight job"
    if "uj_request_log job" "\<not> uj_is_log_upload job" for p body
  proof -
    have "job_weight job = 6 + nat (4 - uj_attempt job)" using that by (simp add: job_weight_def)
    with schedule_weight [of job body "remove_sidecar p w"] show ?thesis by (simp add: remove)
  qed
  moreover have "queue_weight (remove_sidecar p w) < queue_weight w + job_weight job" for p
    by (simp add: queue_weight_def job_weight_def)
  moreover have "queue_weight w < queue_weight w + job_weight job" by (simp add: job_weight_def)
  ultimately show ?thesis
    using retry_weight [of later name job _ w]
    by (cases "response_outcome r") (auto simp: process_def no_handlers_def handle_post_result_def Let_def)
qed

lemma taken_weight:
  "take_ready_job now w = Some (job, w') \<Longrightarrow> queue_weight w = queue_weight w' + job_weight job"
  by (auto elim!: take_ready_job_Some simp: queue_weight_def)

text \<open>
  Rounds of the worker with the answers the server gives: a round is the clock before and after
  the request, the random name, the measured time and the answer. \<open>paced\<close> rounds leave the
  longest backoff, 300 seconds, between one and the next.
\<close>

type_synonym round = "int \<times> int \<times> string \<times> double \<times> http_response"

fun serve :: "'a worker_scheme handlers \<Rightarrow> round \<Rightarrow> 'a worker_scheme \<Rightarrow> 'a worker_scheme" where
  "serve hs (now, later, name, ms, r) w = snd (worker_round hs now later name ms r w)"

fun paced :: "int \<Rightarrow> round list \<Rightarrow> bool" where
  "paced t [] \<longleftrightarrow> True"
| "paced t ((now, later, name, ms, r) # rounds) \<longleftrightarrow>
    0 \<le> t \<and> t \<le> now \<and> now \<le> later \<and> paced (later + seconds 300) rounds"

definition due_by :: "int \<Rightarrow> 'a worker_scheme \<Rightarrow> bool" where
  "due_by t w \<longleftrightarrow> (\<forall>job \<in> set (wk_queue w). uj_not_before job \<le> t)"

lemma enqueue_due: "due_by t w \<Longrightarrow> uj_not_before job \<le> t \<Longrightarrow> due_by t (enqueue job w)"
  using set_enqueue [of job w] by (auto simp: due_by_def)

lemma due_by_queue: "due_by t w \<Longrightarrow> wk_queue w' = wk_queue w \<Longrightarrow> due_by t w'"
  by (simp add: due_by_def)

lemma seconds_mono: "m \<le> n \<Longrightarrow> seconds m \<le> seconds n"
  by (simp add: seconds_def)

lemma retry_due:
  assumes "due_by t w" "now + seconds 300 \<le> t"
  shows "due_by t (retry_or_give_up now name job ra w)"
proof -
  have "now + seconds (retry_delay a ra) \<le> t" for a
    using assms(2) seconds_mono [of "retry_delay a ra" 300] retry_delay_value [of a ra] by linarith
  then show ?thesis
    using assms(1) by (auto simp: retry_or_give_up_def Let_def intro!: enqueue_due elim: due_by_queue)
qed

lemma schedule_due: "due_by t w \<Longrightarrow> 0 \<le> t \<Longrightarrow> due_by t (schedule_log_upload job body w)"
  by (auto simp: schedule_log_upload_def Let_def case_prod_unfold new_job_def split: option.split
      intro!: enqueue_due elim: due_by_queue)

lemma process_due:
  assumes "due_by t w" "later + seconds 300 \<le> t" "0 \<le> t"
  shows "due_by t (process no_handlers later name ms r job w)"
proof -
  have "due_by t (remove_sidecar p w)" for p
    using assms(1) by (rule due_by_queue) simp
  with assms show ?thesis
    by (cases "response_outcome r")
      (simp_all add: process_def no_handlers_def handle_post_result_def Let_def schedule_due retry_due)
qed

lemma process_running: "wk_running (process no_handlers later name ms r job w) = wk_running w"
  by (simp add: process_def no_handlers_def handle_post_result_def Let_def split: outcome.split)

lemma round_wake_frame [simp, frame_simps]:
  "wk_queue (round_wake now w) = wk_queue w" "wk_running (round_wake now w) = wk_running w"
  by (simp_all add: round_wake_def Let_def case_prod_unfold)

lemma serve_step:
  assumes "wk_running w" "due_by t w" "paced t ((now, later, name, ms, r) # rounds)"
  defines "w' \<equiv> serve no_handlers (now, later, name, ms, r) w"
  shows "wk_running w' \<and> due_by (later + seconds 300) w' \<and>
    (if wk_queue w = [] then wk_queue w' = [] else queue_weight w' < queue_weight w)"
proof (cases "take_ready_job now (round_wake now w)")
  case None
  then have late: "\<forall>job \<in> set (wk_queue w). now < uj_not_before job"
    by (simp add: take_ready_job_def take_first_ready_None)
  moreover have "\<forall>job \<in> set (wk_queue w). uj_not_before job \<le> now"
    using assms(2,3) by (auto simp: due_by_def)
  ultimately have "wk_queue w = []" by (cases "wk_queue w") auto
  with None assms show ?thesis by (simp add: worker_round_def no_handlers_def Let_def due_by_def)
next
  case (Some taken)
  obtain job v where jv: "taken = (job, v)" by force
  from Some [unfolded jv] obtain pre post where q: "wk_queue w = pre @ job # post"
    and v: "v = (round_wake now w)\<lparr>wk_queue := pre @ post\<rparr>" by (auto elim: take_ready_job_Some)
  define u where "u = process no_handlers later name ms r job (v\<lparr>wk_in_flight := True\<rparr>)"
  have w': "w' = u\<lparr>wk_in_flight := False\<rparr>"
    using assms(1) Some jv by (simp add: w'_def worker_round_def no_handlers_def Let_def u_def)
  have late: "t \<le> later + seconds 300" "0 \<le> later + seconds 300"
    using assms(3) by (simp_all add: seconds_def)
  have "due_by (later + seconds 300) (v\<lparr>wk_in_flight := True\<rparr>)"
    using assms(2) q late(1) by (force simp: v due_by_def)
  then have "due_by (later + seconds 300) u"
    unfolding u_def using late(2) by (intro process_due) simp_all
  moreover have "queue_weight u < queue_weight w"
    using process_weight [of later name ms r job "v\<lparr>wk_in_flight := True\<rparr>"]
    by (simp add: u_def queue_weight_def v q)
  moreover have "wk_running u" using assms(1) by (simp add: u_def process_running v)
  ultimately show ?thesis using q by (simp add: w' due_by_def queue_weight_def)
qed

lemma serve_settles:
  "wk_running w \<Longrightarrow> due_by t w \<Longrightarrow> paced t rounds \<Longrightarrow> queue_weight w \<le> length rounds \<Longrightarrow>
    wk_queue (fold (serve no_handlers) rounds w) = []"
proof (induction rounds arbitrary: w t)
  case Nil
  then show ?case by (cases "wk_queue w") (simp_all add: queue_weight_def job_weight_def)
next
  case (Cons x rounds)
  obtain now later name ms r where x: "x = (now, later, name, ms, r)" by (cases x) auto
  let ?w = "serve no_handlers x w"
  have step: "wk_running ?w \<and> due_by (later + seconds 300) ?w \<and>
      (if wk_queue w = [] then wk_queue ?w = [] else queue_weight ?w < queue_weight w)"
    unfolding x by (rule serve_step [OF Cons.prems(1,2) Cons.prems(3) [unfolded x]])
  then have "queue_weight ?w \<le> length rounds"
    using Cons.prems(4) by (cases "wk_queue w = []") (simp_all add: queue_weight_def)
  with step Cons.IH [of ?w "later + seconds 300"] Cons.prems(3) show ?case by (simp add: x)
qed

section \<open>What stopping leaves on disk\<close>

lemma count_after_write:
  "count_files (snd (sidecar_write kind body name q fs)) dir \<le> Suc (count_files fs dir)"
proof -
  have "length (fs_list (fs_put p body fs) dir) \<le> Suc (length (fs_list fs dir))" for p
    using length_fs_list_put [of p body fs dir] by (simp split: if_splits)
  then show ?thesis
    by (simp add: sidecar_write_def Let_def fs_write_def count_files_def split: option.split)
qed

lemma writable_after_write [simp]:
  "fl_writable (snd (sidecar_write kind body name q fs)) = fl_writable fs"
  by (simp add: sidecar_write_def Let_def fs_write_def split: option.split)

lemma written_body:
  "count_files fs (kind_dir pending kind) < 64 \<Longrightarrow> \<forall>p. fl_writable fs p \<Longrightarrow>
    fs_lookup (snd (sidecar_write kind body name (Some pending) fs)) (kind_dir pending kind @ [name]) = Some body"
  by (simp add: sidecar_write_def Let_def fs_write_def max_files_per_kind_def disk.lookup_put)

lemma persist_job_room:
  "count_files (wk_disk w) dir + Suc n \<le> 64 \<Longrightarrow> count_files (wk_disk (persist_job name j w)) dir + n \<le> 64"
  using count_after_write [of "uj_kind j" "uj_body j" name "wk_sidecars w" "wk_disk w" dir]
  by (simp add: persist_job_def)

lemma persist_job_writable [simp]: "fl_writable (wk_disk (persist_job name j w)) = fl_writable (wk_disk w)"
  by (simp add: persist_job_def)

lemma persist_all:
  "distinct (map fst js) \<Longrightarrow> wk_sidecars w = Some pending \<Longrightarrow>
    \<forall>kind. count_files (wk_disk w) (kind_dir pending kind) + length js \<le> 64 \<Longrightarrow>
    \<forall>p. fl_writable (wk_disk w) p \<Longrightarrow> (n, job) \<in> set js \<Longrightarrow> needs_sidecar job \<Longrightarrow>
    fs_lookup (wk_disk (fold (\<lambda>(n, job). persist_job n job) js w)) (kind_dir pending (uj_kind job) @ [n]) =
      Some (uj_body job)"
proof (induction js arbitrary: w)
  case (Cons x js)
  obtain m j where x: "x = (m, j)" by force
  let ?w = "persist_job m j w"
  have other: "fs_lookup (wk_disk (fold (\<lambda>(n, job). persist_job n job) js v)) p = fs_lookup (wk_disk v) p"
    if "last p \<notin> fst ` set js" for p and v :: "'a worker_scheme"
    using that by (induction js arbitrary: v) (simp_all add: case_prod_unfold persist_job_lookup)
  show ?case
  proof (cases "(n, job) = (m, j)")
    case True
    have "count_files (wk_disk w) (kind_dir pending (uj_kind job)) < 64"
      using Cons.prems(3) [rule_format, of "uj_kind job"] by simp
    from written_body [OF this Cons.prems(4)] Cons.prems(2,6) True
    have "fs_lookup (wk_disk ?w) (kind_dir pending (uj_kind job) @ [n]) = Some (uj_body job)"
      by (simp add: persist_job_def)
    moreover have "n \<notin> fst ` set js" using Cons.prems(1) True by (simp add: x)
    ultimately show ?thesis by (simp add: x other)
  next
    case False
    then have "(n, job) \<in> set js" using Cons.prems(5) by (auto simp: x)
    moreover have "\<forall>kind. count_files (wk_disk ?w) (kind_dir pending kind) + length js \<le> 64"
      using Cons.prems(3) persist_job_room [of w _ "length js" m j] by simp
    ultimately show ?thesis
      using Cons.IH [of ?w] Cons.prems(1,2,4,6) by (simp add: x)
  qed
qed simp

lemma leftovers_as_pairs:
  "persist_leftovers names w =
    fold (\<lambda>(n, job). persist_job n job) (zip (map names [0..<length (wk_queue w)]) (wk_queue w)) (w\<lparr>wk_queue := []\<rparr>)"
  by (simp add: persist_leftovers_def zip_map1 fold_map comp_def case_prod_unfold)

section \<open>Properties\<close>

text \<open>A concrete worker on an open disk, for the witnesses.\<close>

definition open_store :: "(path \<times> string) list \<Rightarrow> file_system" where
  "open_store files = \<lparr>fl_files = files, fl_readable = (\<lambda>_. True), fl_writable = (\<lambda>_. True), fl_removable = (\<lambda>_. True)\<rparr>"

definition idle_worker :: "(path \<times> string) list \<Rightarrow> worker" where
  "idle_worker files =
    \<lparr>wk_session_log = new_session_log, wk_sidecars = Some [''pending''], wk_disk = open_store files,
     wk_queue = [], wk_running = True, wk_in_flight = False, wk_previous_log_claimed = False,
     wk_wake_requested = False, wk_next_log_flush = 0\<rparr>"

definition answer :: "int \<Rightarrow> http_response" where
  "answer status = \<lparr>hr_transport_error = False, hr_status = status, hr_body = [], hr_retry_after = []\<rparr>"

lemma idle_worker_ok: "delivery_ok (idle_worker files)"
  by (simp add: delivery_ok_def queue_ok_def idle_worker_def)

text \<open>Offline durability: once a payload has its backing file, nothing the SDK does (dropping the
  job from a full queue, giving up, flushing and trimming the log, stopping) removes or changes
  the file; it is deleted only when the server has answered that very payload with a success or
  a final rejection. Random names of other sidecars are taken not to collide with the file's.\<close>

theorem sidecar_kept_until_answered:
  assumes "worker_run w h es w' h'" "fs_lookup (wk_disk w) p = Some body" "off_log p (wk_session_log w)"
    and "\<forall>e \<in> set es. \<not> touches p e"
  shows "fs_lookup (wk_disk w') p = Some body \<or>
    (\<exists>job response name. EvAnswer job response name \<in> set es \<and> \<not> uj_is_log_upload job \<and>
       uj_sidecar_path job = p \<and> response_outcome response \<noteq> Transient)"
proof -
  have "backed p body w' \<or> (\<exists>e \<in> set es. settles p e)"
    using assms by (intro backed_run) (simp_all add: backed_def)
  moreover have "\<exists>job r name. e = EvAnswer job r name \<and> \<not> uj_is_log_upload job \<and> uj_sidecar_path job = p \<and>
      response_outcome r \<noteq> Transient" if "settles p e" for e
    using that by (cases e) auto
  ultimately show ?thesis by (auto simp: backed_def)
qed

theorem sidecar_kept_until_answered_witness:
  "fs_lookup (wk_disk (worker_wake (idle_worker [([''pending'', ''crashes'', ''1-0.json''], ''{}'')])))
     [''pending'', ''crashes'', ''1-0.json''] = Some ''{}''"
proof -
  let ?w = "idle_worker [([''pending'', ''crashes'', ''1-0.json''], ''{}'')]"
  have "worker_run ?w None [EvWake] (worker_wake ?w) None"
    by (rule run_single) (rule step_wake)
  from sidecar_kept_until_answered [OF this, of "[''pending'', ''crashes'', ''1-0.json'']" "''{}''"]
  show ?thesis
    by (simp add: idle_worker_def open_store_def fs_lookup_def off_log_def new_session_log_def)
qed

text \<open>Whatever the SDK does, the outbound queue never exceeds 256 jobs and no job is ever sent more
  than five times: every answered attempt has a number from 0 to 4.\<close>

theorem delivery_bounded:
  assumes "worker_run w h es w' h'" "thread_ok w h"
  shows "length (wk_queue w') \<le> 256 \<and> (\<forall>job \<in> set (wk_queue w'). 0 \<le> uj_attempt job \<and> uj_attempt job \<le> 4) \<and>
    (\<forall>job r name. EvAnswer job r name \<in> set es \<longrightarrow> 0 \<le> uj_attempt job \<and> uj_attempt job \<le> 4)"
  using assms by (rule delivery_run_bounded)

theorem delivery_bounded_witness:
  "length (wk_queue (enqueue new_job (idle_worker []))) \<le> 256"
proof -
  have "worker_run (idle_worker []) None [EvEnqueue new_job] (enqueue new_job (idle_worker [])) None"
    by (rule run_single, rule step_enqueue) (simp add: new_job_def)
  from delivery_bounded [OF this] idle_worker_ok show ?thesis by (simp add: thread_ok_def)
qed

text \<open>C3. A network failure, 408, 429 or 5xx never loses a payload silently: a heartbeat is dropped, a
  log upload is retried at most four times, and any other job goes back to the queue with the
  next attempt number after \<open>2^attempt\<close> seconds (or the server's longer \<open>Retry-After\<close>, at most
  300) or, after the fifth attempt, to a file of its own unless it has one or is a batch.\<close>

theorem transient_exact:
  assumes "response_outcome r = Transient" "job_ok job"
  shows "process hs later name ms r job w =
    (if \<not> uj_is_log_upload job \<and> uj_durability job = Ephemeral then w
     else if uj_attempt job < 4 then
       enqueue (job\<lparr>uj_attempt := uj_attempt job + 1,
         uj_not_before := later + seconds (min 300 (max (2 ^ nat (uj_attempt job + 1))
           (retry_after_hint (hr_status r) (hr_retry_after r))))\<rparr>) w
     else if \<not> uj_is_log_upload job \<and> \<not> uj_no_persist job \<and> uj_sidecar_path job = [] then
       w\<lparr>wk_disk := snd (sidecar_write (uj_kind job) (uj_body job) name (wk_sidecars w) (wk_disk w))\<rparr>
     else w)"
proof -
  have "0 \<le> uj_attempt job" using assms(2) by (simp add: job_ok_def)
  then have delay: "retry_delay (uj_attempt job + 1) ra = min 300 (max (2 ^ nat (uj_attempt job + 1)) ra)"
    if "uj_attempt job < 4" for ra
    using that retry_delay_value [of "uj_attempt job + 1" ra] by (simp add: max_def min_def)
  have last: "uj_attempt job + 1 < max_attempts \<longleftrightarrow> uj_attempt job < 4" by (auto simp: max_attempts_def)
  show ?thesis
  proof (cases "uj_attempt job < 4")
    case True
    with delay [OF True] assms(1) show ?thesis
      by (cases "hd_rtt hs")
        (simp_all add: process_def handle_post_result_def retry_or_give_up_def last max_attempts_def)
  next
    case False
    with assms(1) show ?thesis
      by (cases "hd_rtt hs")
        (auto simp: process_def handle_post_result_def retry_or_give_up_def last persist_job_def needs_sidecar_def)
  qed
qed

theorem transient_exact_witness:
  "wk_queue (process no_handlers 7 ''n'' d_zero (answer 503) new_job (idle_worker [])) =
     [new_job\<lparr>uj_attempt := 1, uj_not_before := 7 + seconds 2\<rparr>]"
proof -
  have "response_outcome (answer 503) = Transient" "job_ok new_job"
    by (simp_all add: response_outcome_def answer_def classify_def new_job_def)
  from transient_exact [OF this, of no_handlers 7 "''n''" d_zero "idle_worker []"] show ?thesis
    by (simp add: new_job_def enqueue_def idle_worker_def max_queue_size_def answer_def
        retry_after_hint_def parse_retry_after_seconds_def strip_ows_def)
qed

text \<open>C9. Delivery settles: whatever the server answers, a queue that gets no new work is empty after at
  most ten paced rounds per queued job, so \<open>flush\<close> can return and the thread goes idle. No
  pattern of answers makes the worker retry for ever.\<close>

theorem queue_settles:
  assumes "wk_running w" "delivery_ok w" "\<forall>job \<in> set (wk_queue w). uj_not_before job \<le> t"
    and "paced t rounds" "10 * length (wk_queue w) \<le> length rounds"
  shows "wk_queue (fold (serve no_handlers) rounds w) = []"
  using serve_settles [OF assms(1) _ assms(4)] assms(3,5) queue_weight_ok [OF assms(2)]
  by (simp add: due_by_def)

theorem queue_settles_witness:
  "wk_queue (fold (serve no_handlers) (map (\<lambda>i. (seconds (int i * 300), seconds (int i * 300), ''n'', d_zero, answer 500)) [0..<10])
     (enqueue new_job (idle_worker []))) = []"
proof -
  have "delivery_ok (enqueue new_job (idle_worker []))"
    by (intro enqueue_ok idle_worker_ok new_job_ok) (simp add: new_job_def)
  moreover have "wk_queue (enqueue new_job (idle_worker [])) = [new_job]" "wk_running (enqueue new_job (idle_worker []))"
    by (simp_all add: enqueue_def idle_worker_def max_queue_size_def)
  moreover have "paced 0 (map (\<lambda>i. (seconds (int i * 300), seconds (int i * 300), ''n'', d_zero, answer 500)) [0..<10])"
    by (simp add: upt_rec seconds_def)
  ultimately show ?thesis
    by (intro queue_settles [where t = 0]) (simp_all add: new_job_def)
qed

text \<open>C10. A clean stop saves the session: the queue is empty afterwards and, with room and a writable
  disk, every queued report or event that had no file of its own is on disk under its kind, byte
  for byte; heartbeats, batches and log uploads are not written, and no other file changes.\<close>

theorem stop_persists_leftovers:
  assumes "wk_running w" "wk_sidecars w = Some pending" "inj names" "\<forall>p. fl_writable (wk_disk w) p"
    and "\<forall>kind. count_files (wk_disk w) (kind_dir pending kind) + length (wk_queue w) \<le> 64"
  shows "wk_queue (worker_stop names w) = [] \<and>
    (\<forall>i < length (wk_queue w). needs_sidecar (wk_queue w ! i) \<longrightarrow>
       fs_lookup (wk_disk (worker_stop names w)) (kind_dir pending (uj_kind (wk_queue w ! i)) @ [names i]) =
         Some (uj_body (wk_queue w ! i))) \<and>
    (\<forall>p. last p \<notin> range names \<longrightarrow>
       fs_lookup (wk_disk (worker_stop names w)) p = fs_lookup (wk_disk w) p)"
proof -
  let ?w = "w\<lparr>wk_running := False\<rparr>" and ?js = "zip (map names [0..<length (wk_queue w)]) (wk_queue w)"
  have "distinct (map fst ?js)" using assms(3) by (simp add: distinct_map inj_on_subset [OF _ subset_UNIV])
  moreover have "(names i, wk_queue w ! i) \<in> set ?js" if "i < length (wk_queue w)" for i
    using that by (auto simp: set_zip intro!: exI [of _ i])
  ultimately have "fs_lookup (wk_disk (worker_stop names w)) (kind_dir pending (uj_kind (wk_queue w ! i)) @ [names i]) =
      Some (uj_body (wk_queue w ! i))" if "i < length (wk_queue w)" "needs_sidecar (wk_queue w ! i)" for i
    using persist_all [of ?js "?w\<lparr>wk_queue := []\<rparr>" pending "names i" "wk_queue w ! i"] that assms
    by (simp add: worker_stop_def leftovers_as_pairs)
  then show ?thesis
    using assms(1) persist_leftovers_lookup [of _ names ?w] by (simp add: worker_stop_def)
qed

theorem stop_persists_leftovers_witness:
  "fs_lookup (wk_disk (worker_stop (\<lambda>i. replicate i (CHR ''x'')) (enqueue (new_job\<lparr>uj_body := ''{}''\<rparr>) (idle_worker []))))
     [''pending'', ''events'', []] = Some ''{}''"
proof -
  let ?w = "enqueue (new_job\<lparr>uj_body := ''{}''\<rparr>) (idle_worker [])"
  have w: "wk_running ?w" "wk_sidecars ?w = Some [''pending'']" "\<forall>p. fl_writable (wk_disk ?w) p"
    "\<forall>kind. count_files (wk_disk ?w) (kind_dir [''pending''] kind) + length (wk_queue ?w) \<le> 64"
    "wk_queue ?w = [new_job\<lparr>uj_body := ''{}''\<rparr>]"
    by (simp_all add: enqueue_def idle_worker_def open_store_def max_queue_size_def count_files_def fs_list_def)
  have "inj (\<lambda>i. replicate i (CHR ''x''))" by (rule injI) (metis length_replicate)
  from stop_persists_leftovers [OF w(1,2) this w(3,4)] have
    "fs_lookup (wk_disk (worker_stop (\<lambda>i. replicate i (CHR ''x'')) ?w)) (kind_dir [''pending''] (uj_kind (wk_queue ?w ! 0)) @ [[]]) =
      Some (uj_body (wk_queue ?w ! 0))" if "needs_sidecar (wk_queue ?w ! 0)"
    using that by (auto simp: w(5))
  moreover have "needs_sidecar (wk_queue ?w ! 0)" "uj_kind (wk_queue ?w ! 0) = Event"
    unfolding w(5) by (simp_all add: needs_sidecar_def new_job_def)
  ultimately show ?thesis by (simp add: w(5) kind_dir_def)
qed

end
