(* ===== verification/Signature.thy ===== *)
theory Signature
  imports Tomb_Prelude
begin

text \<open>
  \<^verbatim>\<open>src/signature.cpp\<close>: the local SHA-256 and HMAC-SHA256, the ingest signature header and
  the crash fingerprint. Words are 32 bits wide and wrap as \<open>std::uint32_t\<close> does; bytes are
  \<^typ>\<open>char\<close>s.
\<close>

unbundle bit_operations_syntax

type_synonym u32 = "32 word"
type_synonym u64 = "64 word"

section \<open>SHA-256\<close>

text \<open>The round constants, in sixteen rows of four.\<close>

definition sha_k :: "u32 list" where
  "sha_k = concat
   [[0x428a2f98, 0x71374491, 0xb5c0fbcf, 0xe9b5dba5],
    [0x3956c25b, 0x59f111f1, 0x923f82a4, 0xab1c5ed5],
    [0xd807aa98, 0x12835b01, 0x243185be, 0x550c7dc3],
    [0x72be5d74, 0x80deb1fe, 0x9bdc06a7, 0xc19bf174],
    [0xe49b69c1, 0xefbe4786, 0x0fc19dc6, 0x240ca1cc],
    [0x2de92c6f, 0x4a7484aa, 0x5cb0a9dc, 0x76f988da],
    [0x983e5152, 0xa831c66d, 0xb00327c8, 0xbf597fc7],
    [0xc6e00bf3, 0xd5a79147, 0x06ca6351, 0x14292967],
    [0x27b70a85, 0x2e1b2138, 0x4d2c6dfc, 0x53380d13],
    [0x650a7354, 0x766a0abb, 0x81c2c92e, 0x92722c85],
    [0xa2bfe8a1, 0xa81a664b, 0xc24b8b70, 0xc76c51a3],
    [0xd192e819, 0xd6990624, 0xf40e3585, 0x106aa070],
    [0x19a4c116, 0x1e376c08, 0x2748774c, 0x34b0bcb5],
    [0x391c0cb3, 0x4ed8aa4a, 0x5b9cca4f, 0x682e6ff3],
    [0x748f82ee, 0x78a5636f, 0x84c87814, 0x8cc70208],
    [0x90befffa, 0xa4506ceb, 0xbef9a3f7, 0xc67178f2]]"

definition rotr :: "u32 \<Rightarrow> nat \<Rightarrow> u32" where
  "rotr x n = drop_bit n x OR push_bit (32 - n) x"

datatype sha_state = Sha u32 u32 u32 u32 u32 u32 u32 u32

definition sha_init :: sha_state where
  "sha_init = Sha 0x6a09e667 0xbb67ae85 0x3c6ef372 0xa54ff53a
                  0x510e527f 0x9b05688c 0x1f83d9ab 0x5be0cd19"

definition load_word :: "string \<Rightarrow> nat \<Rightarrow> u32" where
  "load_word block i =
    push_bit 24 (of_char (block ! (i * 4))) OR push_bit 16 (of_char (block ! (i * 4 + 1))) OR
    push_bit 8 (of_char (block ! (i * 4 + 2))) OR of_char (block ! (i * 4 + 3))"

text \<open>The message schedule: \<open>w[i]\<close> for \<open>i = length w\<close> from its sixteen predecessors.\<close>

fun extend_schedule :: "nat \<Rightarrow> u32 list \<Rightarrow> u32 list" where
  "extend_schedule 0 w = w"
| "extend_schedule (Suc n) w =
    (let i = length w;
         s0 = rotr (w ! (i - 15)) 7 XOR rotr (w ! (i - 15)) 18 XOR drop_bit 3 (w ! (i - 15));
         s1 = rotr (w ! (i - 2)) 17 XOR rotr (w ! (i - 2)) 19 XOR drop_bit 10 (w ! (i - 2))
     in extend_schedule n (w @ [w ! (i - 16) + s0 + w ! (i - 7) + s1]))"

definition schedule :: "string \<Rightarrow> u32 list" where
  "schedule block = extend_schedule 48 (map (load_word block) [0..<16])"

fun sha_round :: "u32 \<Rightarrow> u32 \<Rightarrow> sha_state \<Rightarrow> sha_state" where
  "sha_round k w (Sha a b c d e f g hh) =
    (let s1 = rotr e 6 XOR rotr e 11 XOR rotr e 25;
         ch = (e AND f) XOR (NOT e AND g);
         temp1 = hh + s1 + ch + k + w;
         s0 = rotr a 2 XOR rotr a 13 XOR rotr a 22;
         maj = (a AND b) XOR (a AND c) XOR (b AND c);
         temp2 = s0 + maj
     in Sha (temp1 + temp2) a b c (d + temp1) e f g)"

fun sha_rounds :: "u32 list \<Rightarrow> u32 list \<Rightarrow> sha_state \<Rightarrow> sha_state" where
  "sha_rounds (k # ks) (w # ws) st = sha_rounds ks ws (sha_round k w st)"
| "sha_rounds _ _ st = st"

fun sha_add :: "sha_state \<Rightarrow> sha_state \<Rightarrow> sha_state" where
  "sha_add (Sha a b c d e f g h) (Sha a' b' c' d' e' f' g' h') =
     Sha (a + a') (b + b') (c + c') (d + d') (e + e') (f + f') (g + g') (h + h')"

definition process_block :: "string \<Rightarrow> sha_state \<Rightarrow> sha_state" where
  "process_block block h = sha_add h (sha_rounds sha_k (schedule block) h)"

text \<open>The final block or two: the remainder, \<open>0x80\<close>, zeros, the 64-bit big-endian bit length.\<close>

definition sha_tail :: "string \<Rightarrow> string" where
  "sha_tail data =
    (let r = length data mod 64;
         tail = drop (length data - r) data @ replicate (128 - r) (CHR 0x00);
         tail = tail[r := CHR 0x80];
         blocks = (if 64 < r + 1 + 8 then 2 else 1);
         bit_length = of_nat (length data) * 8 :: u64;
         tail = fold (\<lambda>i t. t[blocks * 64 - 1 - i := char_of (unat (drop_bit (8 * i) bit_length AND 0xFF))])
                  [0..<8] tail
     in take (blocks * 64) tail)"

fun process_blocks :: "nat \<Rightarrow> string \<Rightarrow> sha_state \<Rightarrow> sha_state" where
  "process_blocks 0 bytes st = st"
| "process_blocks (Suc n) bytes st = process_blocks n (drop 64 bytes) (process_block (take 64 bytes) st)"

definition word_bytes :: "u32 \<Rightarrow> string" where
  "word_bytes x = map (\<lambda>s. char_of (unat (drop_bit s x AND 0xFF))) [24, 16, 8, 0]"

fun sha_digest :: "sha_state \<Rightarrow> string" where
  "sha_digest (Sha a b c d e f g h) = concat (map word_bytes [a, b, c, d, e, f, g, h])"

definition sha256_raw :: "string \<Rightarrow> string" where
  "sha256_raw data =
    (let st = process_blocks (length data div 64) data sha_init;
         t = sha_tail data
     in sha_digest (process_blocks (length t div 64) t st))"

definition byte_hex :: "char \<Rightarrow> string" where
  "byte_hex c = [hex_digits ! (of_char c div 16 mod 16), hex_digits ! (of_char c mod 16)]"

definition to_hex :: "string \<Rightarrow> string" where
  "to_hex bytes = concat (map byte_hex bytes)"

definition sha256_hex :: "string \<Rightarrow> string" where
  "sha256_hex data = to_hex (sha256_raw data)"

section \<open>HMAC and the ingest signature\<close>

text \<open>
  RFC 2104 over a 64-byte block. The hash is an argument so that what HMAC needs of it is
  stated once, in the locale below; the code's \<open>hmac_sha256_hex\<close> is the instance at
  \<^const>\<open>sha256_raw\<close>.
\<close>

definition pad_to :: "nat \<Rightarrow> string \<Rightarrow> string" where
  "pad_to n s = take n (s @ replicate n (CHR 0x00))"

definition key_block :: "(string \<Rightarrow> string) \<Rightarrow> string \<Rightarrow> string" where
  "key_block H key = pad_to 64 (if 64 < length key then H key else key)"

definition xor_byte :: "nat \<Rightarrow> char \<Rightarrow> char" where
  "xor_byte m b = char_of ((of_char b :: nat) XOR m)"

definition hmac_with :: "(string \<Rightarrow> string) \<Rightarrow> string \<Rightarrow> string \<Rightarrow> string" where
  "hmac_with H key message =
    (let block = key_block H key;
         inner = H (map (xor_byte 0x36) block @ message)
     in H (map (xor_byte 0x5C) block @ inner))"

definition hmac_sha256_hex :: "string \<Rightarrow> string \<Rightarrow> string" where
  "hmac_sha256_hex key message = to_hex (hmac_with sha256_raw key message)"

definition build_ingest_signature_header :: "string \<Rightarrow> string \<Rightarrow> int \<Rightarrow> string" where
  "build_ingest_signature_header ingest_key body unix_seconds =
    (let t = dec_int unix_seconds
     in ''t='' @ t @ '',v1='' @ hmac_sha256_hex ingest_key (t @ ''.'' @ body))"

section \<open>The crash fingerprint\<close>

definition is_blank :: "char \<Rightarrow> bool" where
  "is_blank c \<longleftrightarrow> c = CHR '' '' \<or> c = CHR 0x09 \<or> c = CHR 0x0D"

definition trim :: "string \<Rightarrow> string" where
  "trim s = rev (dropWhile is_blank (rev (dropWhile is_blank s)))"

abbreviation newline :: char where "newline \<equiv> CHR 0x0A"

definition location_marker :: string where
  "location_marker = CHR '' '' # CHR ''('' # ''at ''"

text \<open>Drop the location suffix, then trim.\<close>

definition clean_frame :: "string \<Rightarrow> string" where
  "clean_frame text =
    trim (case find_from location_marker text 0 of
            None \<Rightarrow> text
          | Some k \<Rightarrow> take k text)"

function frame_loop :: "string \<Rightarrow> nat \<Rightarrow> nat \<Rightarrow> string \<Rightarrow> string" where
  "frame_loop trace frames line_start material =
    (if frames < 8 \<and> line_start < length trace then
       let line_end = (case find_from [newline] trace line_start of
                         None \<Rightarrow> length trace | Some e \<Rightarrow> e);
           frame = clean_frame (take (line_end - line_start) (drop line_start trace))
       in if frame \<noteq> []
          then frame_loop trace (frames + 1) (line_end + 1) (material @ newline # frame)
          else frame_loop trace frames (line_end + 1) material
     else material)"
  by pat_completeness auto
termination
proof (relation "measure (\<lambda>(trace, frames, i, m). length trace - i)")
qed (use find_from_Some in \<open>fastforce split: option.splits\<close>)+

declare frame_loop.simps [simp del]

definition compute_crash_signature :: "string \<Rightarrow> string \<Rightarrow> string" where
  "compute_crash_signature stack_hint stack_trace =
    take 32 (sha256_hex (frame_loop stack_trace 0 0 stack_hint))"

section \<open>Shapes and lengths\<close>

lemma length_sha_digest [simp]: "length (sha_digest st) = 32"
  by (cases st) (simp add: word_bytes_def)

lemma length_sha256_raw [simp]: "length (sha256_raw data) = 32"
  by (simp add: sha256_raw_def Let_def)

lemma length_to_hex [simp]: "length (to_hex bytes) = 2 * length bytes"
  by (induction bytes) (simp_all add: to_hex_def byte_hex_def)

lemma to_hex_lower: "list_all is_lower_hex (to_hex bytes)"
  by (induction bytes) (simp_all add: to_hex_def byte_hex_def)

lemma length_sha256_hex [simp]: "length (sha256_hex data) = 64"
  by (simp add: sha256_hex_def)

text \<open>What HMAC relies on: a digest length that fits the block.\<close>

locale block_hash =
  fixes H :: "string \<Rightarrow> string" and n :: nat
  assumes H_length: "length (H data) = n"
    and H_fits: "n \<le> 64"
begin

lemma key_block_length: "length (key_block H key) = 64"
  by (simp add: key_block_def pad_to_def)

lemma hmac_length: "length (hmac_with H key message) = n"
  by (simp add: hmac_with_def Let_def H_length)

lemma long_key_hashed: "64 < length key \<Longrightarrow> hmac_with H key message = hmac_with H (H key) message"
  using H_fits by (simp add: hmac_with_def key_block_def H_length)

lemma zero_padding_ignored:
  "length key + k \<le> 64 \<Longrightarrow>
    hmac_with H (key @ replicate k (CHR 0x00)) message = hmac_with H key message"
proof -
  assume le: "length key + k \<le> 64"
  have "replicate k (CHR 0x00) @ replicate 64 (CHR 0x00) = replicate (k + 64) (CHR 0x00)"
    by (simp add: replicate_add)
  then have "pad_to 64 (key @ replicate k (CHR 0x00)) = pad_to 64 key"
    using le by (simp add: pad_to_def take_replicate min_def)
  with le show ?thesis by (simp add: hmac_with_def key_block_def)
qed

end

interpretation sha: block_hash sha256_raw 32
  by unfold_locales simp_all

section \<open>The fingerprint against its reference reading\<close>

text \<open>Lines, as the code's \<open>'\n'\<close> search cuts them.\<close>

fun split_lines :: "string \<Rightarrow> string list" where
  "split_lines [] = [[]]"
| "split_lines (c # s) =
    (if c = newline then [] # split_lines s
     else (case split_lines s of [] \<Rightarrow> [[c]] | l # ls \<Rightarrow> (c # l) # ls))"

lemma split_lines_nonempty [simp]: "split_lines s \<noteq> []"
  by (induction s) (auto split: list.splits)

definition frames_of :: "string \<Rightarrow> string list" where
  "frames_of trace = filter (\<lambda>f. f \<noteq> []) (map clean_frame (split_lines trace))"

definition signature_frames :: "string \<Rightarrow> string list" where
  "signature_frames trace = take 8 (frames_of trace)"

lemma clean_frame_Nil [simp]: "clean_frame [] = []"
  by (simp add: clean_frame_def trim_def location_marker_def find_from.simps [of _ "[]"])

lemma frames_of_Nil [simp]: "frames_of [] = []"
  by (simp add: frames_of_def)

lemma split_lines_no_newline: "newline \<notin> set s \<Longrightarrow> split_lines s = [s]"
  by (induction s) auto

lemma split_lines_first: "newline \<notin> set l \<Longrightarrow> split_lines (l @ newline # s) = l # split_lines s"
  by (induction l) auto

lemma find_newline:
  assumes "i \<le> length s"
  shows "case find_from [newline] s i of
      None \<Rightarrow> newline \<notin> set (drop i s)
    | Some e \<Rightarrow> i \<le> e \<and> e < length s \<and> newline \<notin> set (take (e - i) (drop i s)) \<and>
        drop i s = take (e - i) (drop i s) @ newline # drop (Suc e) s"
proof (cases "find_from [newline] s i")
  case None
  have "s ! j \<noteq> newline" if "i \<le> j" "j < length s" for j
    using find_from_None [OF None, of j] that by (auto simp: take_Suc_conv_app_nth hd_drop_conv_nth take_Suc)
  with None show ?thesis by (auto simp: in_set_conv_nth)
next
  case (Some e)
  from find_from_Some [OF Some] have e: "i \<le> e" "e < length s" "s ! e = newline"
    by (auto simp: take_Suc hd_drop_conv_nth)
  have "s ! j \<noteq> newline" if "i \<le> j" "j < e" for j
    using find_from_least [OF Some, of j] that e by (auto simp: take_Suc hd_drop_conv_nth)
  then have "newline \<notin> set (take (e - i) (drop i s))"
    using e by (auto simp: in_set_conv_nth)
  moreover have "drop i s = take (e - i) (drop i s) @ newline # drop (Suc e) s"
    using e by (metis Cons_nth_drop_Suc append_take_drop_id drop_drop le_add_diff_inverse2)
  ultimately show ?thesis using e Some by simp
qed

lemma frames_of_step:
  assumes "i < length trace"
    and e: "e = (case find_from [newline] trace i of None \<Rightarrow> length trace | Some e \<Rightarrow> e)"
  shows "frames_of (drop i trace) =
    (let f = clean_frame (take (e - i) (drop i trace))
     in (if f = [] then [] else [f]) @ frames_of (drop (e + 1) trace))"
proof (cases "find_from [newline] trace i")
  case None
  with find_newline [of i trace] assms show ?thesis
    by (simp add: frames_of_def split_lines_no_newline Let_def)
next
  case (Some k)
  with find_newline [of i trace] assms
  have "newline \<notin> set (take (k - i) (drop i trace))" and
    d: "drop i trace = take (k - i) (drop i trace) @ newline # drop (Suc k) trace"
    by simp_all
  then have "split_lines (drop i trace) = take (k - i) (drop i trace) # split_lines (drop (Suc k) trace)"
    using split_lines_first by metis
  with Some e show ?thesis by (simp add: frames_of_def Let_def)
qed

lemma frame_loop_frames:
  "frame_loop trace k i m = m @ concat (map ((#) newline) (take (8 - k) (frames_of (drop i trace))))"
proof (induction trace k i m rule: frame_loop.induct)
  case (1 trace k i m)
  show ?case
  proof (cases "k < 8 \<and> i < length trace")
    case False
    then show ?thesis by (auto simp: frame_loop.simps [of trace k i m])
  next
    case True
    define e where "e = (case find_from [newline] trace i of None \<Rightarrow> length trace | Some e \<Rightarrow> e)"
    have step: "8 - k = Suc (8 - (k + 1))" using True by linarith
    show ?thesis
      using True 1 [OF True e_def [symmetric, THEN sym] refl]
      by (simp add: frame_loop.simps [of trace k i m] frames_of_step [OF _ e_def] Let_def
            step e_def [symmetric])
  qed
qed

section \<open>Padding against FIPS 180-4\<close>

text \<open>
  The standard pads the whole message at once: \<open>0x80\<close>, the least number of zeros that makes the
  length 56 modulo 64, the bit length in eight big-endian bytes. The code hashes the full
  blocks in place and builds only the tail.
\<close>

definition be64 :: "u64 \<Rightarrow> string" where
  "be64 x = map (\<lambda>i. char_of (unat (drop_bit (8 * (7 - i)) x AND 0xFF))) [0..<8]"

definition fips_padded :: "string \<Rightarrow> string" where
  "fips_padded data =
    data @ [CHR 0x80] @ replicate ((119 - length data mod 64) mod 64) (CHR 0x00) @
    be64 (of_nat (length data) * 8)"

lemma process_blocks_append:
  "length xs = 64 * n \<Longrightarrow>
    process_blocks (n + m) (xs @ ys) st = process_blocks m ys (process_blocks n xs st)"
  by (induction n arbitrary: xs st) simp_all

lemma process_blocks_take:
  "64 * n \<le> length xs \<Longrightarrow> process_blocks n (take (64 * n) xs) st = process_blocks n xs st"
  by (induction n arbitrary: xs st) (simp_all add: drop_take min_def)

lemma be64_writes:
  assumes "length t = 64 * b" "0 < b"
  shows "fold (\<lambda>i t. t[b * 64 - 1 - i := char_of (unat (drop_bit (8 * i) x AND 0xFF))]) [0..<8]
      (t @ u) = take (64 * b - 8) t @ be64 x @ u"
proof -
  define p where "p = take (64 * b - 8) t"
  define q where "q = drop (64 * b - 8) t"
  have t: "t = p @ q" and p: "length p = 64 * b - 8" and q: "length q = 8"
    using assms by (simp_all add: p_def q_def)
  from q obtain q0 q1 q2 q3 q4 q5 q6 q7 where q': "q = [q0, q1, q2, q3, q4, q5, q6, q7]"
    by (auto simp: numeral_eq_Suc length_Suc_conv)
  have idx: "b * 64 - 1 - i = length p + (7 - i)" if "i < 8" for i
    using that p assms(2) by simp
  have u: "[0..<8] = [0, 1, 2, 3, 4, 5, 6, 7::nat]" by (simp add: upt_rec)
  have e: "be64 x = map (\<lambda>i. char_of (unat (drop_bit (8 * (7 - i)) x AND 0xFF))) [0, 1, 2, 3, 4, 5, 6, 7]"
    unfolding be64_def u ..
  show ?thesis
    unfolding u using idx [of 0] idx [of 1] idx [of 2] idx [of 3] idx [of 4] idx [of 5] idx [of 6] idx [of 7]
    by (simp add: t q' e p [symmetric] list_update_append)
qed

lemma padded_total:
  assumes "r < (64::nat)"
  shows "r + 1 + (119 - r) mod 64 + 8 = 64 * (if 64 < r + 1 + 8 then 2 else 1)"
proof (cases "r \<le> 55")
  case True
  then have "(119 - r) mod 64 = (55 - r + 64) mod 64" by simp
  also have "\<dots> = 55 - r" unfolding mod_add_self2 using True by simp
  finally show ?thesis using True by simp
next
  case False
  with assms show ?thesis by simp
qed

lemma sha_tail_padded:
  "sha_tail data =
    drop (length data - length data mod 64) data @ [CHR 0x80] @
    replicate ((119 - length data mod 64) mod 64) (CHR 0x00) @ be64 (of_nat (length data) * 8)"
proof -
  define r where "r = length data mod 64"
  define d where "d = drop (length data - r) data"
  define b where "b = (if 64 < r + 1 + 8 then 2 else 1 :: nat)"
  define z where "z = (119 - r) mod 64"
  have r: "r < 64" by (simp add: r_def)
  have d: "length d = r" using mod_less_eq_dividend [of "length data" 64]
    by (simp add: d_def r_def)
  have z: "r + 1 + z + 8 = 64 * b"
    unfolding z_def b_def by (rule padded_total [OF r])
  define t where "t = d @ CHR 0x80 # replicate (z + 8) (CHR 0x00)"
  have t: "length t = 64 * b" using z d by (simp add: t_def)
  have zeros: "replicate (128 - r) (CHR 0x00) = CHR 0x00 # replicate (z + 8) (CHR 0x00) @ replicate (128 - 64 * b) (CHR 0x00)"
  proof -
    have "128 - r = Suc (z + 8 + (128 - 64 * b))" using z r by (simp add: b_def split: if_splits)
    then show ?thesis by (simp only: replicate.simps replicate_add [of "z + 8"])
  qed
  have "(d @ replicate (128 - r) (CHR 0x00))[r := CHR 0x80] = t @ replicate (128 - 64 * b) (CHR 0x00)"
    using d by (simp add: zeros [unfolded d [symmetric]] t_def d [symmetric])
  moreover have "take (64 * b - 8) t = d @ [CHR 0x80] @ replicate z (CHR 0x00)"
  proof -
    have "64 * b - 8 = length d + Suc z" using z d by simp
    then show ?thesis by (simp add: t_def replicate_add)
  qed
  moreover have "0 < b" by (simp add: b_def)
  moreover define X where "X = d @ [CHR 0x80] @ replicate z (CHR 0x00) @ be64 (of_nat (length data) * 8)"
  ultimately have fold: "fold (\<lambda>i t. t[b * 64 - 1 - i := char_of (unat (drop_bit (8 * i)
        (of_nat (length data) * 8 :: u64) AND 0xFF))]) [0..<8]
      ((d @ replicate (128 - r) (CHR 0x00))[r := CHR 0x80]) = X @ replicate (128 - 64 * b) (CHR 0x00)"
    using be64_writes [OF t] by (simp only: append_assoc)
  have "length X = b * 64" using z d by (simp add: X_def be64_def)
  then show ?thesis
    unfolding sha_tail_def r_def [symmetric] d_def [symmetric] b_def [symmetric] z_def [symmetric] Let_def
    by (simp only: fold X_def [symmetric] take_append) simp
qed

lemma fips_padded_tail:
  "fips_padded data = take (length data - length data mod 64) data @ sha_tail data"
  by (simp add: fips_padded_def sha_tail_padded)

lemma length_sha_tail: "64 dvd length (sha_tail data)"
proof -
  define r where "r = length data mod 64"
  have "length (drop (length data - r) data) = r"
    using mod_less_eq_dividend [of "length data" 64] by (simp add: r_def)
  then have "length (sha_tail data) = r + 1 + (119 - r) mod 64 + 8"
    unfolding sha_tail_padded r_def [symmetric] by (simp add: be64_def)
  also have "\<dots> = 64 * (if 64 < r + 1 + 8 then 2 else 1)"
    by (rule padded_total) (simp add: r_def)
  finally show ?thesis by simp
qed

section \<open>Location suffixes\<close>

lemma location_marker_nth:
  "length location_marker = 5" "location_marker ! 0 = CHR '' ''"
  "0 < j \<Longrightarrow> j < 4 \<Longrightarrow> location_marker ! j \<noteq> CHR '' ''"
  by (auto simp: location_marker_def numeral_eq_Suc less_Suc_eq)

lemma find_location:
  assumes "find_from location_marker (f @ '' '') 0 = None"
  shows "find_from location_marker f 0 = None"
    and "find_from location_marker (f @ location_marker @ loc) 0 = Some (length f)"
proof -
  have no: "take 5 (drop k (f @ '' '')) \<noteq> location_marker" if "k + 5 \<le> length f + 1" for k
    using find_from_None [OF assms, of k] that by (simp add: location_marker_nth)
  show "find_from location_marker f 0 = None"
  proof (cases "find_from location_marker f 0")
    case (Some k)
    from find_from_Some [OF this] no [of k] show ?thesis by (simp add: location_marker_nth)
  qed
  let ?s = "f @ location_marker @ loc"
  show "find_from location_marker ?s 0 = Some (length f)"
  proof (cases "find_from location_marker ?s 0")
    case None
    from find_from_None [OF this, of "length f"] show ?thesis by simp
  next
    case (Some k)
    have k: "k \<le> length f"
      using find_from_least [OF Some, of "length f"] by (cases "k \<le> length f") auto
    moreover have "\<not> k < length f"
    proof
      assume "k < length f"
      have m: "take 5 (drop k ?s) = location_marker"
        using find_from_Some [OF Some] by (simp add: location_marker_nth)
      show False
      proof (cases "k + 5 \<le> length f + 1")
        case True
        then have "take 5 (drop k ?s) = take 5 (drop k (f @ '' ''))"
          using \<open>k < length f\<close> by (auto simp: location_marker_def take_Cons' split: if_splits)
        with m no [OF True] show False by simp
      next
        case False
        define j where "j = length f - k"
        have j: "0 < j" "j < 4" using False \<open>k < length f\<close> by (auto simp: j_def)
        have "take 5 (drop k ?s) ! j = drop k ?s ! j"
          by (rule nth_take) (use j in simp)
        also have "\<dots> = ?s ! (k + j)"
          by (rule nth_drop) (use \<open>k < length f\<close> in simp)
        also have "k + j = length f" using \<open>k < length f\<close> by (simp add: j_def)
        finally have "take 5 (drop k ?s) ! j = ?s ! length f" .
        then have "location_marker ! j = ?s ! length f" by (simp only: m)
        then have "location_marker ! j = CHR '' ''"
          by (simp add: nth_append location_marker_nth)
        with j location_marker_nth(3) show False by blast
      qed
    qed
    ultimately show ?thesis using Some by simp
  qed
qed

lemma clean_frame_location:
  "find_from location_marker (f @ '' '') 0 = None \<Longrightarrow>
    clean_frame (f @ location_marker @ loc) = clean_frame f"
  by (simp add: clean_frame_def find_location)

definition as_lines :: "string list \<Rightarrow> string" where
  "as_lines ls = concat (map (\<lambda>l. l @ [newline]) ls)"

lemma split_as_lines: "\<forall>l \<in> set ls. newline \<notin> set l \<Longrightarrow> split_lines (as_lines ls) = ls @ [[]]"
  by (induction ls) (simp_all add: as_lines_def split_lines_first)

section \<open>Properties\<close>

text \<open>C34. SHA-256 as coded (full blocks hashed in place, then one or two tail blocks built in a
  128-byte buffer) is the FIPS 180-4 construction: pad the whole message once, cut it into
  64-byte blocks and hash them in order. The padded length is a multiple of 64.\<close>

theorem sha256_pads_as_fips:
  "64 dvd length (fips_padded data) \<and>
   sha256_raw data =
     sha_digest (process_blocks (length (fips_padded data) div 64) (fips_padded data) sha_init)"
proof -
  define n where "n = length data div 64"
  have n: "64 * n = length data - length data mod 64"
    by (simp add: n_def minus_mod_eq_mult_div)
  then have le: "length (take (64 * n) data) = 64 * n" by simp
  obtain m where m: "length (sha_tail data) = 64 * m" using length_sha_tail by (auto elim: dvdE)
  have "length (fips_padded data) = 64 * (n + m)"
    unfolding fips_padded_tail n [symmetric] using le m by simp
  moreover have "process_blocks (n + m) (fips_padded data) sha_init =
      process_blocks m (sha_tail data) (process_blocks n data sha_init)"
    unfolding fips_padded_tail n [symmetric]
    using process_blocks_append [OF le] process_blocks_take [of n data] n by simp
  ultimately show ?thesis by (simp add: sha256_raw_def Let_def m n_def)
qed

text \<open>The crash fingerprint is the first 32 hex digits of SHA-256 over the hint followed by
  the first eight non-blank frames of the trace (location suffix cut, trimmed), one per line;
  the incremental loop over positions computes exactly this, and it always has 32 digits.\<close>

theorem crash_signature_reference:
  "compute_crash_signature hint trace =
     take 32 (sha256_hex (hint @ concat (map ((#) newline) (signature_frames trace)))) \<and>
   length (compute_crash_signature hint trace) = 32"
  by (simp add: compute_crash_signature_def frame_loop_frames signature_frames_def)

text \<open>The fingerprint does not depend on where the binary was built or installed: giving every
  frame of a trace its own location suffix leaves the fingerprint as it is, whatever the
  suffixes say, provided the frames themselves hold no suffix yet.\<close>

theorem crash_signature_ignores_locations:
  assumes "length locs = length fs"
    and "\<forall>l \<in> set locs. newline \<notin> set l"
    and "\<forall>f \<in> set fs. newline \<notin> set f \<and> find_from location_marker (f @ '' '') 0 = None"
  shows "compute_crash_signature hint (as_lines (map2 (\<lambda>f l. f @ location_marker @ l) fs locs)) =
    compute_crash_signature hint (as_lines fs)"
proof -
  let ?gs = "map2 (\<lambda>f l. f @ location_marker @ l) fs locs"
  have lines: "\<forall>g \<in> set ?gs. newline \<notin> set g"
    using assms(2,3) by (auto simp: location_marker_def dest: set_zip_leftD set_zip_rightD)
  have "map clean_frame ?gs = map clean_frame fs"
    using assms(1,3) by (induction fs locs rule: list_induct2') (auto simp: clean_frame_location)
  then have "frames_of (as_lines ?gs) = frames_of (as_lines fs)"
    using split_as_lines [OF lines] split_as_lines [of fs] assms(3)
    by (simp add: frames_of_def del: map_map)
  then show ?thesis by (simp add: compute_crash_signature_def frame_loop_frames)
qed

theorem crash_signature_ignores_locations_witness:
  "compute_crash_signature ''NRE'' (as_lines [''Foo ()'' @ location_marker @ ''C:/a.cpp:7'', ''Bar ()'' @ location_marker @ ''b.cpp:1'']) =
   compute_crash_signature ''NRE'' (as_lines [''Foo ()'', ''Bar ()''])"
  using crash_signature_ignores_locations [of "[''C:/a.cpp:7'', ''b.cpp:1'']" "[''Foo ()'', ''Bar ()'']" "''NRE''"]
  by (simp add: find_from.simps location_marker_def)

end
