(* ===== verification/Transport.thy ===== *)
theory Transport
  imports Delivery Signature
begin

text \<open>
  \<^verbatim>\<open>src/transport_curl.cpp\<close>: the requests the SDK hands to libcurl and what it makes of the answer.
  libcurl itself is the parameter \<open>curl\<close>: a function from a request to the transfer's outcome. Every
  allocation of libcurl's that the code checks may fail; which ones do is the argument \<open>mem\<close>.
\<close>

datatype mime_part =
    Field string string
  | File_Part string string string string

datatype request_body = Raw string | Form "mime_part list"

record http_request =
  rq_method :: string
  rq_url :: string
  rq_headers :: "string list"
  rq_body :: request_body
  rq_timeout :: int
  rq_follow_redirects :: bool
  rq_verify_tls :: bool

text \<open>A failed transfer, or the status and the pieces of the body and the header lines as libcurl passes them.\<close>

datatype transfer = Transfer_Failed | Transferred int "string list" "string list"

record curl_memory =
  cm_handle :: bool
  cm_header :: "string \<Rightarrow> bool"
  cm_signature :: bool
  cm_form :: bool
  cm_part :: "mime_part \<Rightarrow> bool"

definition request_timeout_seconds :: int where "request_timeout_seconds = 15"
definition log_upload_timeout_seconds :: int where "log_upload_timeout_seconds = 30"

definition no_response :: http_response where
  "no_response = \<lparr>hr_transport_error = True, hr_status = 0, hr_body = [], hr_retry_after = []\<rparr>"

section \<open>Callbacks and the transfer\<close>

definition curl_write :: "string \<Rightarrow> string \<Rightarrow> string" where
  "curl_write data body = body @ data"

definition ascii_lower :: "char \<Rightarrow> char" where
  "ascii_lower c = (if CHR ''A'' \<le> c \<and> c \<le> CHR ''Z'' then char_of (of_char c + 32 :: nat) else c)"

definition curl_header :: "string \<Rightarrow> string \<Rightarrow> string" where
  "curl_header line retry_after =
    (if length ''retry-after:'' < length line \<and> map ascii_lower (take (length ''retry-after:'') line) = ''retry-after:''
     then drop (length ''retry-after:'') line else retry_after)"

definition perform :: "(http_request \<Rightarrow> transfer) \<Rightarrow> http_request \<Rightarrow> http_response" where
  "perform curl request =
    (case curl (request\<lparr>rq_follow_redirects := False, rq_verify_tls := True\<rparr>) of
       Transfer_Failed \<Rightarrow> no_response
     | Transferred status pieces header_lines \<Rightarrow>
         \<lparr>hr_transport_error = False, hr_status = status, hr_body = fold curl_write pieces [],
          hr_retry_after = fold curl_header header_lines []\<rparr>)"

section \<open>Requests\<close>

text \<open>What libcurl reads through a \<open>c_str()\<close> ends at the first NUL; bodies and form values are passed with their length.\<close>

definition c_str :: "string \<Rightarrow> string" where
  "c_str s = takeWhile (\<lambda>c. c \<noteq> CHR 0x00) s"

text \<open>A header that cannot be appended is left out, and the request goes on.\<close>

definition append_header :: "curl_memory \<Rightarrow> string \<Rightarrow> string list \<Rightarrow> string list" where
  "append_header mem header headers = (if cm_header mem header then headers @ [header] else headers)"

definition json_request :: "curl_memory \<Rightarrow> string \<Rightarrow> string \<Rightarrow> string \<Rightarrow> int \<Rightarrow> bool \<Rightarrow> int \<Rightarrow> http_request" where
  "json_request mem url token body timeout_seconds sign unix_seconds =
    (let headers = append_header mem ''Content-Type: application/json'' [];
         headers = append_header mem (c_str (''Authorization: Bearer '' @ token)) headers;
         headers = (if sign \<and> cm_signature mem
                    then append_header mem
                           (c_str (''X-Tombstack-Signature: '' @ build_ingest_signature_header token body unix_seconds)) headers
                    else headers)
     in \<lparr>rq_method = ''POST'', rq_url = c_str url, rq_headers = headers, rq_body = Raw body, rq_timeout = timeout_seconds,
         rq_follow_redirects = True, rq_verify_tls = True\<rparr>)"

definition put_request :: "curl_memory \<Rightarrow> string \<Rightarrow> string \<Rightarrow> int \<Rightarrow> http_request" where
  "put_request mem url bytes timeout_seconds =
    \<lparr>rq_method = ''PUT'', rq_url = c_str url, rq_headers = append_header mem ''Content-Type: text/plain'' [],
     rq_body = Raw bytes, rq_timeout = timeout_seconds, rq_follow_redirects = True, rq_verify_tls = True\<rparr>"

text \<open>The loop over the fields stops at the first part that cannot be built.\<close>

fun form_parts :: "curl_memory \<Rightarrow> (string \<times> string) list \<Rightarrow> mime_part list \<Rightarrow> mime_part list option" where
  "form_parts mem [] parts = Some parts"
| "form_parts mem ((name, v) # form_fields) parts =
    (let part = Field (c_str name) v in
     if \<not> cm_part mem part then None else form_parts mem form_fields (parts @ [part]))"

definition form_request :: "curl_memory \<Rightarrow> string \<Rightarrow> (string \<times> string) list \<Rightarrow> string \<Rightarrow> int \<Rightarrow> http_request option" where
  "form_request mem url form_fields bytes timeout_seconds =
    (let file = File_Part ''file'' ''session.log'' ''text/plain'' bytes in
     case form_parts mem form_fields [] of
       None \<Rightarrow> None
     | Some parts \<Rightarrow>
         if \<not> cm_part mem file then None
         else Some \<lparr>rq_method = ''POST'', rq_url = c_str url, rq_headers = [], rq_body = Form (parts @ [file]),
                    rq_timeout = timeout_seconds, rq_follow_redirects = True, rq_verify_tls = True\<rparr>)"

definition post_json ::
    "(http_request \<Rightarrow> transfer) \<Rightarrow> curl_memory \<Rightarrow> string \<Rightarrow> string \<Rightarrow> string \<Rightarrow> int \<Rightarrow> bool \<Rightarrow> int \<Rightarrow> http_response" where
  "post_json curl mem url token body timeout_seconds sign unix_seconds =
    (if \<not> cm_handle mem then no_response
     else perform curl (json_request mem url token body timeout_seconds sign unix_seconds))"

definition put_text :: "(http_request \<Rightarrow> transfer) \<Rightarrow> curl_memory \<Rightarrow> string \<Rightarrow> string \<Rightarrow> int \<Rightarrow> http_response" where
  "put_text curl mem url bytes timeout_seconds =
    (if \<not> cm_handle mem then no_response else perform curl (put_request mem url bytes timeout_seconds))"

definition post_log ::
    "(http_request \<Rightarrow> transfer) \<Rightarrow> curl_memory \<Rightarrow> string \<Rightarrow> (string \<times> string) list \<Rightarrow> string \<Rightarrow> int \<Rightarrow> http_response" where
  "post_log curl mem url form_fields bytes timeout_seconds =
    (if \<not> cm_handle mem \<or> form_fields = [] \<or> \<not> cm_form mem then no_response
     else case form_request mem url form_fields bytes timeout_seconds of
            None \<Rightarrow> no_response
          | Some request \<Rightarrow> perform curl request)"

text \<open>The call of \<open>Worker::process\<close> that sends a job.\<close>

definition send_job ::
    "(http_request \<Rightarrow> transfer) \<Rightarrow> curl_memory \<Rightarrow> string \<Rightarrow> int \<Rightarrow> upload_job \<Rightarrow> http_response" where
  "send_job curl mem token unix_seconds job =
    (if uj_is_log_upload job
     then if uj_form_fields job = [] then put_text curl mem (uj_url job) (uj_raw job) log_upload_timeout_seconds
          else post_log curl mem (uj_url job) (uj_form_fields job) (uj_raw job) log_upload_timeout_seconds
     else post_json curl mem (uj_url job) token (uj_body job) request_timeout_seconds (uj_sign_body job) unix_seconds)"

section \<open>libcurl's reference count\<close>

text \<open>The counter, and whether the global state is initialised.\<close>

fun curl_global_acquire :: "nat \<times> bool \<Rightarrow> nat \<times> bool" where
  "curl_global_acquire (refs, up) = (refs + 1, if refs = 0 then True else up)"

fun curl_global_release :: "nat \<times> bool \<Rightarrow> nat \<times> bool" where
  "curl_global_release (refs, up) =
    (if 0 < refs then (refs - 1, if refs - 1 = 0 then False else up) else (refs, up))"

datatype curl_op = Acquire | Release

fun curl_step :: "curl_op \<Rightarrow> nat \<times> bool \<Rightarrow> nat \<times> bool" where
  "curl_step Acquire s = curl_global_acquire s"
| "curl_step Release s = curl_global_release s"

lemma curl_global_balanced: "snd s = (0 < fst s) \<Longrightarrow> snd (fold curl_step ops s) = (0 < fst (fold curl_step ops s))"
proof (induction ops arbitrary: s)
  case (Cons op ops)
  then have "snd (curl_step op s) = (0 < fst (curl_step op s))" by (cases op; cases s) auto
  with Cons.IH show ?case by simp
qed simp

section \<open>Properties\<close>

text \<open>The request the SDK makes for a job, when it makes one.\<close>

definition job_request :: "curl_memory \<Rightarrow> string \<Rightarrow> int \<Rightarrow> upload_job \<Rightarrow> http_request option" where
  "job_request mem token unix_seconds job =
    (if \<not> cm_handle mem then None
     else if uj_is_log_upload job
     then if uj_form_fields job = [] then Some (put_request mem (uj_url job) (uj_raw job) log_upload_timeout_seconds)
          else if \<not> cm_form mem then None
          else form_request mem (uj_url job) (uj_form_fields job) (uj_raw job) log_upload_timeout_seconds
     else Some (json_request mem (uj_url job) token (uj_body job) request_timeout_seconds (uj_sign_body job) unix_seconds))"

lemma form_parts_all:
  "form_parts mem form_fields parts = Some parts' \<Longrightarrow> parts' = parts @ map (\<lambda>(name, v). Field (c_str name) v) form_fields"
  by (induction mem form_fields parts rule: form_parts.induct) (auto simp: Let_def split: if_splits)

lemma form_request_Some:
  "form_request mem url form_fields bytes t = Some rq \<Longrightarrow>
    rq = \<lparr>rq_method = ''POST'', rq_url = c_str url, rq_headers = [],
      rq_body = Form (map (\<lambda>(name, v). Field (c_str name) v) form_fields @ [File_Part ''file'' ''session.log'' ''text/plain'' bytes]),
      rq_timeout = t, rq_follow_redirects = True, rq_verify_tls = True\<rparr>"
  by (auto simp: form_request_def Let_def dest!: form_parts_all split: option.splits if_splits)

lemma send_job_request:
  "send_job curl mem token ts job =
    (case job_request mem token ts job of None \<Rightarrow> no_response | Some rq \<Rightarrow> perform curl rq)"
  by (auto simp: send_job_def job_request_def put_text_def post_log_def post_json_def split: option.split)

text \<open>What the server may see of a job, whichever allocations fail.\<close>

definition signed_headers :: "string \<Rightarrow> int \<Rightarrow> upload_job \<Rightarrow> string list" where
  "signed_headers token ts job =
    [''Content-Type: application/json'', c_str (''Authorization: Bearer '' @ token)] @
    (if uj_sign_body job
     then [c_str (''X-Tombstack-Signature: '' @ build_ingest_signature_header token (uj_body job) ts)] else [])"

lemma json_headers:
  "rq_headers (json_request mem (uj_url job) token (uj_body job) t (uj_sign_body job) ts) =
    filter (cm_header mem) (take (if cm_signature mem then 3 else 2) (signed_headers token ts job))"
  by (simp add: json_request_def append_header_def signed_headers_def Let_def)

definition upload_body :: "upload_job \<Rightarrow> request_body" where
  "upload_body job =
    (if uj_form_fields job = [] then Raw (uj_raw job)
     else Form (map (\<lambda>(name, v). Field (c_str name) v) (uj_form_fields job) @
                [File_Part ''file'' ''session.log'' ''text/plain'' (uj_raw job)]))"

text \<open>C23. The ingest token stays with the ingest server, whichever allocations fail: a log upload looks the
  same to libcurl whatever the token is, carries neither an authorization nor a signature header
  and is either whole (every form field, then the file) or not sent; every other request carries
  its body unchanged and, of the three headers in order, those that could be appended, the signature
  being that of the very body it sends; TLS verification is on, redirects are off, the time limit is
  set, and one transfer decides the answer. The URL, the headers and the field names end at their
  first NUL.\<close>

theorem token_never_reaches_storage:
  "send_job curl mem token ts job =
     (case job_request mem token ts job of None \<Rightarrow> no_response | Some rq \<Rightarrow> perform curl rq) \<and>
   (case job_request mem token ts job of
      None \<Rightarrow> True
    | Some rq \<Rightarrow>
        rq_url rq = c_str (uj_url job) \<and>
        (if uj_is_log_upload job
         then job_request mem token' ts' job = Some rq \<and> set (rq_headers rq) \<subseteq> {''Content-Type: text/plain''} \<and>
           rq_body rq = upload_body job \<and> rq_timeout rq = 30
         else rq_headers rq = filter (cm_header mem) (take (if cm_signature mem then 3 else 2) (signed_headers token ts job)) \<and>
           rq_body rq = Raw (uj_body job) \<and> rq_timeout rq = 15) \<and>
        (perform curl rq = perform curl' rq \<or>
         (\<exists>sent. curl sent \<noteq> curl' sent \<and> rq_verify_tls sent \<and> \<not> rq_follow_redirects sent \<and> rq_url sent = c_str (uj_url job))))"
proof -
  have one: "perform curl rq = perform curl' rq \<or>
      (\<exists>sent. curl sent \<noteq> curl' sent \<and> rq_verify_tls sent \<and> \<not> rq_follow_redirects sent \<and> rq_url sent = rq_url rq)" for rq
    by (cases "curl (rq\<lparr>rq_follow_redirects := False, rq_verify_tls := True\<rparr>) =
        curl' (rq\<lparr>rq_follow_redirects := False, rq_verify_tls := True\<rparr>)")
      (auto simp: perform_def intro: exI [of _ "rq\<lparr>rq_follow_redirects := False, rq_verify_tls := True\<rparr>"])
  show ?thesis
  proof (cases "job_request mem token ts job")
    case (Some rq)
    have "rq_url rq = c_str (uj_url job) \<and> (if uj_is_log_upload job
        then job_request mem token' ts' job = Some rq \<and> set (rq_headers rq) \<subseteq> {''Content-Type: text/plain''} \<and>
          rq_body rq = upload_body job \<and> rq_timeout rq = 30
        else rq_headers rq = filter (cm_header mem) (take (if cm_signature mem then 3 else 2) (signed_headers token ts job)) \<and>
          rq_body rq = Raw (uj_body job) \<and> rq_timeout rq = 15)"
    proof (cases "uj_is_log_upload job")
      case True
      with Some show ?thesis
        by (auto simp: job_request_def put_request_def append_header_def upload_body_def log_upload_timeout_seconds_def
            dest!: form_request_Some split: if_splits)
    next
      case False
      with Some have rq: "rq = json_request mem (uj_url job) token (uj_body job) 15 (uj_sign_body job) ts"
        by (simp add: job_request_def request_timeout_seconds_def split: if_splits)
      have "rq_url rq = c_str (uj_url job)" "rq_body rq = Raw (uj_body job)" "rq_timeout rq = 15"
        by (simp_all add: rq json_request_def Let_def)
      with False show ?thesis by (simp add: rq json_headers)
    qed
    with Some one [of rq] show ?thesis by (simp add: send_job_request)
  qed (simp add: send_job_request)
qed

text \<open>
  A header that cannot be appended does not stop the request. When it is the authorization that is
  missing the server answers 401, which counts as a final rejection: the report's file is removed
  and the job is not retried, although nothing was wrong with it.
\<close>

theorem dropped_authorization_loses_report:
  fixes w :: worker and curl mem token ts job
  assumes "cm_handle mem" "\<not> cm_header mem (c_str (''Authorization: Bearer '' @ token))" "\<not> uj_is_log_upload job"
    and "\<forall>rq. c_str (''Authorization: Bearer '' @ token) \<notin> set (rq_headers rq) \<longrightarrow> curl rq = Transferred 401 [] []"
  defines "response \<equiv> send_job curl mem token ts job"
  shows "response_outcome response = Poison \<and>
    process no_handlers now name ms response job w = remove_sidecar (uj_sidecar_path job) w"
proof -
  have "c_str (''Authorization: Bearer '' @ token) \<notin> set (rq_headers (json_request mem (uj_url job) token (uj_body job) t (uj_sign_body job) ts))" for t
    using assms(2) by (simp add: json_headers)
  then have "response = \<lparr>hr_transport_error = False, hr_status = 401, hr_body = [], hr_retry_after = []\<rparr>"
    using assms(1,3,4) by (simp add: response_def send_job_def post_json_def perform_def)
  then have "response_outcome response = Poison" by (simp add: response_outcome_def classify_def)
  then show ?thesis using assms(3) by (simp add: process_def handle_post_result_def no_handlers_def Let_def)
qed

end
