(* ===== verification/Breadcrumb_Ring.thy ===== *)
theory Breadcrumb_Ring
  imports Json_Writer
begin

text \<open>
  \<^verbatim>\<open>src/breadcrumb_ring.cpp\<close>: the fixed ring of recent breadcrumbs, with its slots, head and
  count as in the code. \<open>ring_store\<close> is the locked part of \<open>add\<close>.
\<close>

record breadcrumb =
  bc_ts_iso :: string
  bc_level :: string
  bc_message :: string

record ring =
  rg_slots :: "breadcrumb list"
  rg_head :: nat
  rg_count :: nat

definition blank_crumb :: breadcrumb where
  "blank_crumb = \<lparr>bc_ts_iso = [], bc_level = [], bc_message = []\<rparr>"

definition default_capacity :: nat where "default_capacity = 64"
definition max_message_bytes :: nat where "max_message_bytes = 512"
definition max_level_bytes :: nat where "max_level_bytes = 16"

definition new_ring :: "nat \<Rightarrow> ring" where
  "new_ring capacity =
    \<lparr>rg_slots = replicate (if 0 < capacity then capacity else default_capacity) blank_crumb,
     rg_head = 0, rg_count = 0\<rparr>"

definition ring_store :: "breadcrumb \<Rightarrow> ring \<Rightarrow> ring" where
  "ring_store crumb r =
    r\<lparr>rg_slots := (rg_slots r)[rg_head r := crumb],
      rg_head := (rg_head r + 1) mod length (rg_slots r),
      rg_count := (if rg_count r < length (rg_slots r) then rg_count r + 1 else rg_count r)\<rparr>"

definition clamp_crumb :: "string \<Rightarrow> string \<Rightarrow> string \<Rightarrow> breadcrumb" where
  "clamp_crumb level message ts_iso =
    \<lparr>bc_ts_iso = ts_iso, bc_level = utf8_safe_truncate level max_level_bytes,
     bc_message = utf8_safe_truncate message max_message_bytes\<rparr>"

definition ring_add :: "string \<Rightarrow> string \<Rightarrow> string \<Rightarrow> ring \<Rightarrow> ring" where
  "ring_add level message ts_iso r =
    (if message = [] then r else ring_store (clamp_crumb level message ts_iso) r)"

definition ring_snapshot :: "ring \<Rightarrow> breadcrumb list" where
  "ring_snapshot r =
    (let capacity = length (rg_slots r);
         start = (rg_head r + capacity - rg_count r) mod capacity
     in map (\<lambda>i. rg_slots r ! ((start + i) mod capacity)) [0..<rg_count r])"

definition ring_clear :: "ring \<Rightarrow> ring" where
  "ring_clear r = r\<lparr>rg_head := 0, rg_count := 0, rg_slots := map (\<lambda>_. blank_crumb) (rg_slots r)\<rparr>"

section \<open>The ring is a drop-oldest buffer\<close>

definition ring_ok :: "nat \<Rightarrow> ring \<Rightarrow> bool" where
  "ring_ok cap r \<longleftrightarrow> length (rg_slots r) = cap \<and> 0 < cap \<and> rg_head r < cap \<and> rg_count r \<le> cap"

lemma ring_ok_new [simp]: "ring_ok default_capacity (new_ring 64)"
  by (simp add: ring_ok_def new_ring_def default_capacity_def)

lemma ring_store_ok: "ring_ok cap r \<Longrightarrow> ring_ok cap (ring_store c r)"
  by (auto simp: ring_ok_def ring_store_def)

lemma ring_clear_ok: "ring_ok cap r \<Longrightarrow> ring_ok cap (ring_clear r)"
  by (auto simp: ring_ok_def ring_clear_def)

lemma ring_clear_empty [simp]: "ring_snapshot (ring_clear r) = []"
  by (simp add: ring_snapshot_def ring_clear_def)

lemma length_ring_snapshot [simp]: "length (ring_snapshot r) = rg_count r"
  by (simp add: ring_snapshot_def Let_def)

lemma ring_snapshot_nth:
  "i < rg_count r \<Longrightarrow> ring_snapshot r ! i =
    rg_slots r ! ((rg_head r + length (rg_slots r) - rg_count r + i) mod length (rg_slots r))"
  by (simp add: ring_snapshot_def Let_def mod_simps)

lemma mod_between:
  assumes "h < (x::nat)" "x < h + cap" "h < cap"
  shows "x mod cap \<noteq> h"
proof (cases "x < cap")
  case False
  then have "x mod cap = (x - cap) mod cap" by (simp add: le_mod_geq)
  also have "\<dots> = x - cap" using assms by simp
  finally show ?thesis using assms False by simp
qed (use assms in simp)

lemma ring_store_snapshot:
  assumes ok: "ring_ok cap r"
  shows "ring_snapshot (ring_store c r) = last_n cap (ring_snapshot r @ [c])"
proof (rule nth_equalityI)
  let ?r = "ring_store c r"
  show "length (ring_snapshot ?r) = length (last_n cap (ring_snapshot r @ [c]))"
    using ok by (auto simp: ring_store_def ring_ok_def)
  fix i assume i: "i < length (ring_snapshot ?r)"
  define h n where "h = rg_head r" and "n = rg_count r"
  have c: "length (rg_slots r) = cap" "0 < cap" "h < cap" "n \<le> cap"
    using ok by (simp_all add: ring_ok_def h_def n_def)
  define n' where "n' = (if n < cap then n + 1 else n)"
  have i': "i < n'" using i c by (simp add: ring_store_def n'_def n_def split: if_splits)
  have pos: "((h + 1) mod cap + cap - n' + i) mod cap = (h + cap + 1 - n' + i) mod cap"
  proof -
    have n': "n' \<le> cap" using c by (simp add: n'_def)
    then have "(h + 1) mod cap + cap - n' + i = (h + 1) mod cap + (cap - n' + i)" by simp
    then have "((h + 1) mod cap + cap - n' + i) mod cap = (h + 1 + (cap - n' + i)) mod cap"
      by (simp only: mod_add_left_eq)
    also have "h + 1 + (cap - n' + i) = h + cap + 1 - n' + i" using n' by simp
    finally show ?thesis .
  qed
  have lhs: "ring_snapshot ?r ! i = (rg_slots r)[h := c] ! ((h + cap + 1 - n' + i) mod cap)"
  proof -
    have "rg_slots ?r = (rg_slots r)[h := c]" "length (rg_slots ?r) = cap" "rg_head ?r = (h + 1) mod cap"
      "rg_count ?r = n'"
      using c by (simp_all add: ring_store_def h_def n_def n'_def)
    then show ?thesis using ring_snapshot_nth [of i ?r] i' pos by (simp only:)
  qed
  have rhs: "last_n cap (ring_snapshot r @ [c]) ! i = (ring_snapshot r @ [c]) ! (n + 1 - n' + i)"
  proof -
    let ?xs = "ring_snapshot r @ [c]"
    have k: "length ?xs - cap = n + 1 - n'" "n + 1 - n' \<le> length ?xs"
      using c by (auto simp: n_def n'_def)
    show ?thesis unfolding last_n_def k(1) by (rule nth_drop [OF k(2)])
  qed
  show "ring_snapshot ?r ! i = last_n cap (ring_snapshot r @ [c]) ! i"
  proof (cases "n + 1 - n' + i < n")
    case True
    let ?k = "h + cap + 1 - n' + i"
    have k: "h + cap - n + (n + 1 - n' + i) = ?k"
      using c i' by (auto simp: n'_def split: if_splits)
    have "?k mod cap \<noteq> h"
      using True c i' by (intro mod_between) (auto simp: n'_def split: if_splits)
    then have "ring_snapshot ?r ! i = rg_slots r ! (?k mod cap)"
      unfolding lhs by (simp only: nth_list_update_neq)
    also have "\<dots> = ring_snapshot r ! (n + 1 - n' + i)"
      using ring_snapshot_nth [of "n + 1 - n' + i" r] True c(1) k
      unfolding n_def [symmetric] h_def [symmetric] by (simp only:)
    also have "\<dots> = (ring_snapshot r @ [c]) ! (n + 1 - n' + i)"
      using True by (simp add: nth_append n_def)
    finally show ?thesis by (simp only: rhs)
  next
    case False
    then have i_last: "i + 1 = n'" using i' c by (auto simp: n'_def split: if_splits)
    moreover have "n' \<le> cap" using c by (simp add: n'_def)
    ultimately have "h + cap + 1 - n' + i = h + cap" by linarith
    with i_last show ?thesis
      unfolding lhs rhs using c by (simp add: nth_append n_def n'_def)
  qed
qed

interpretation ring: drop_oldest ring_snapshot ring_store default_capacity "ring_ok default_capacity"
  by unfold_locales (simp_all add: ring_store_snapshot ring_store_ok, simp add: ring_ok_def)

section \<open>Properties\<close>

definition ring_adds :: "(string \<times> string \<times> string) list \<Rightarrow> ring \<Rightarrow> ring" where
  "ring_adds adds r = fold (\<lambda>(level, message, ts). ring_add level message ts) adds r"

definition clamped_crumbs :: "(string \<times> string \<times> string) list \<Rightarrow> breadcrumb list" where
  "clamped_crumbs adds =
    map (\<lambda>(level, message, ts). clamp_crumb level message ts) (filter (\<lambda>(_, message, _). message \<noteq> []) adds)"

lemma ring_adds_store: "ring_adds adds r = fold ring_store (clamped_crumbs adds) r"
  by (induction adds arbitrary: r) (auto simp: ring_adds_def clamped_crumbs_def ring_add_def)

text \<open>C31. The circular buffer is the list of the last 64 breadcrumbs: after any sequence of \<open>add\<close>
  calls on a fresh ring the snapshot is exactly the last 64 of the non-empty messages, in order,
  each clamped to the wire limits.\<close>

theorem ring_refines_last_64:
  "ring_snapshot (ring_adds adds (new_ring 64)) = last_n 64 (clamped_crumbs adds) \<and>
   list_all (\<lambda>c. length (bc_level c) \<le> 16 \<and> length (bc_message c) \<le> 512)
     (ring_snapshot (ring_adds adds (new_ring 64)))"
proof -
  have "ring_snapshot (new_ring 64) = []" by (simp add: ring_snapshot_def new_ring_def)
  then have "ring_snapshot (ring_adds adds (new_ring 64)) = last_n 64 (clamped_crumbs adds)"
    unfolding ring_adds_store using ring.contents_fold [OF ring_ok_new, of "clamped_crumbs adds"]
    by (simp add: default_capacity_def)
  moreover have "list_all (\<lambda>c. length (bc_level c) \<le> 16 \<and> length (bc_message c) \<le> 512) (clamped_crumbs adds)"
    by (auto simp: clamped_crumbs_def list_all_iff clamp_crumb_def truncate_length max_level_bytes_def
        max_message_bytes_def)
  ultimately show ?thesis using set_last_n_subset [of 64 "clamped_crumbs adds"] by (auto simp: list_all_iff)
qed

text \<open>\<open>clear\<close> empties the ring, scrubs every slot, and the ring then works as a fresh one: no
  text recorded before the call can come back.\<close>

theorem ring_clear_scrubs:
  "ring_clear (ring_adds before (new_ring 64)) = new_ring 64 \<and>
   ring_snapshot (ring_adds after (ring_clear (ring_adds before (new_ring 64)))) =
     last_n 64 (clamped_crumbs after)"
proof -
  have "ring_ok default_capacity (ring_adds before (new_ring 64))"
    unfolding ring_adds_store by (rule ring.ok_fold) simp
  then have "length (rg_slots (ring_adds before (new_ring 64))) = 64"
    by (simp add: ring_ok_def default_capacity_def)
  then have "ring_clear (ring_adds before (new_ring 64)) = new_ring 64"
    by (simp add: ring_clear_def new_ring_def map_replicate_const)
  moreover have "ring_snapshot (new_ring 64) = []" by (simp add: ring_snapshot_def new_ring_def)
  ultimately show ?thesis
    unfolding ring_adds_store using ring.contents_fold [OF ring_ok_new, of "clamped_crumbs after"]
    by (simp add: default_capacity_def)
qed

end
