(* ===== verification/Payloads.thy ===== *)
theory Payloads
  imports Breadcrumb_Ring Json_Roundtrip Json_Number "HOL-Library.AList"
begin

text \<open>
  \<^verbatim>\<open>src/payloads.cpp\<close>: the wire bodies. Each builder is the code's sequence of writer calls
  (\<open>calls\<close>, \<open>document\<close>); beside it stands the list of JSON fields it is meant to produce, and
  the lemmas show that the text is the rendering of those fields. \<open>dp\<close> is the decimal separator
  of the process locale, which \<open>snprintf\<close> uses.
\<close>

section \<open>The schema maxima\<close>

definition limit_build_version :: nat where "limit_build_version = 64"
definition limit_signature :: nat where "limit_signature = 128"
definition limit_stack_hint :: nat where "limit_stack_hint = 512"
definition limit_stack_trace :: nat where "limit_stack_trace = 8192"
definition limit_user_id :: nat where "limit_user_id = 128"
definition limit_steam_id :: nat where "limit_steam_id = 32"
definition limit_bug_category :: nat where "limit_bug_category = 32"
definition limit_bug_message :: nat where "limit_bug_message = 4000"
definition limit_event_name :: nat where "limit_event_name = 64"
definition limit_event_attributes :: nat where "limit_event_attributes = 32"
definition limit_event_attribute_key :: nat where "limit_event_attribute_key = 64"
definition limit_event_attribute_value :: nat where "limit_event_attribute_value = 512"
definition limit_session_id :: nat where "limit_session_id = 64"
definition limit_role :: nat where "limit_role = 16"
definition limit_server_id :: nat where "limit_server_id = 128"
definition limit_match_id :: nat where "limit_match_id = 128"
definition limit_metric_name :: nat where "limit_metric_name = 64"
definition limit_metric_unit :: nat where "limit_metric_unit = 16"
definition limit_pull_target_type :: nat where "limit_pull_target_type = 32"
definition limit_pull_target_value :: nat where "limit_pull_target_value = 128"
definition limit_pull_reason :: nat where "limit_pull_reason = 280"
definition limit_pull_nonce :: nat where "limit_pull_nonce = 256"
definition limit_environment :: nat where "limit_environment = 64"
definition limit_region :: nat where "limit_region = 64"
definition limit_hostname :: nat where "limit_hostname = 255"
definition limit_user_metadata_keys :: nat where "limit_user_metadata_keys = 16"
definition limit_user_metadata_key :: nat where "limit_user_metadata_key = 64"
definition limit_user_metadata_value :: nat where "limit_user_metadata_value = 512"
definition limit_device_model :: nat where "limit_device_model = 256"
definition limit_device_type :: nat where "limit_device_type = 32"
definition limit_device_os :: nat where "limit_device_os = 256"
definition limit_device_os_family :: nat where "limit_device_os_family = 48"
definition limit_device_cpu :: nat where "limit_device_cpu = 256"
definition limit_device_gpu :: nat where "limit_device_gpu = 256"
definition limit_device_gpu_vendor :: nat where "limit_device_gpu_vendor = 256"
definition limit_device_gpu_version :: nat where "limit_device_gpu_version = 256"
definition limit_device_gpu_api :: nat where "limit_device_gpu_api = 64"
definition limit_device_screen :: nat where "limit_device_screen = 32"
definition limit_device_orientation :: nat where "limit_device_orientation = 32"
definition limit_device_language :: nat where "limit_device_language = 48"
definition limit_device_engine :: nat where "limit_device_engine = 48"
definition limit_device_scripting_backend :: nat where "limit_device_scripting_backend = 32"
definition limit_device_platform :: nat where "limit_device_platform = 48"

lemmas limit_defs =
  limit_build_version_def limit_signature_def limit_stack_hint_def limit_stack_trace_def
  limit_user_id_def limit_steam_id_def limit_bug_category_def limit_bug_message_def
  limit_event_name_def limit_event_attributes_def limit_event_attribute_key_def
  limit_event_attribute_value_def limit_session_id_def limit_role_def limit_server_id_def
  limit_match_id_def limit_metric_name_def limit_metric_unit_def limit_pull_target_type_def
  limit_pull_target_value_def limit_pull_reason_def limit_pull_nonce_def limit_environment_def
  limit_region_def limit_hostname_def limit_user_metadata_keys_def limit_user_metadata_key_def
  limit_user_metadata_value_def limit_device_model_def limit_device_type_def
  limit_device_os_def limit_device_os_family_def limit_device_cpu_def limit_device_gpu_def
  limit_device_gpu_vendor_def limit_device_gpu_version_def limit_device_gpu_api_def
  limit_device_screen_def limit_device_orientation_def limit_device_language_def
  limit_device_engine_def limit_device_scripting_backend_def limit_device_platform_def

section \<open>The payload structs\<close>

record device_payload =
  dv_model :: string
  dv_type :: string
  dv_os :: string
  dv_os_family :: string
  dv_cpu :: string
  dv_cpu_count :: int
  dv_ram_mb :: int
  dv_gpu :: string
  dv_gpu_vendor :: string
  dv_gpu_version :: string
  dv_gpu_api :: string
  dv_vram_mb :: int
  dv_screen :: string
  dv_screen_dpi :: double
  dv_refresh_rate :: double
  dv_orientation :: string
  dv_fullscreen :: bool
  dv_language :: string
  dv_engine :: string
  dv_scripting_backend :: string
  dv_platform :: string

definition no_device :: device_payload where
  "no_device =
    \<lparr>dv_model = [], dv_type = [], dv_os = [], dv_os_family = [], dv_cpu = [], dv_cpu_count = 0,
     dv_ram_mb = 0, dv_gpu = [], dv_gpu_vendor = [], dv_gpu_version = [], dv_gpu_api = [],
     dv_vram_mb = 0, dv_screen = [], dv_screen_dpi = d_zero, dv_refresh_rate = d_zero,
     dv_orientation = [], dv_fullscreen = False, dv_language = [], dv_engine = [],
     dv_scripting_backend = [], dv_platform = []\<rparr>"

type_synonym user_metadata = "(string \<times> string) list"

record crash_payload =
  cp_occurred_at_iso :: string
  cp_build_version :: string
  cp_os :: string
  cp_arch :: string
  cp_signature :: string
  cp_stack_hint :: string
  cp_stack_trace :: string
  cp_breadcrumbs :: "breadcrumb list"
  cp_user_id :: string
  cp_prior_user_id :: string
  cp_steam_id :: string
  cp_log :: bool
  cp_role :: string
  cp_server_id :: string
  cp_match_id :: string
  cp_session_id :: string
  cp_environment :: string
  cp_device :: device_payload
  cp_crash_type :: string
  cp_os_signal :: int

record bug_report_payload =
  br_occurred_at_iso :: string
  br_build_version :: string
  br_os :: string
  br_arch :: string
  br_category :: string
  br_message :: string
  br_user_id :: string
  br_prior_user_id :: string
  br_steam_id :: string
  br_breadcrumbs :: "breadcrumb list"
  br_log :: bool
  br_role :: string
  br_server_id :: string
  br_match_id :: string
  br_session_id :: string
  br_environment :: string
  br_device :: device_payload

record event_payload =
  ev_occurred_at_iso :: string
  ev_build_version :: string
  ev_os :: string
  ev_arch :: string
  ev_name :: string
  ev_user_id :: string
  ev_attributes :: "(string \<times> string) list"
  ev_role :: string
  ev_server_id :: string
  ev_match_id :: string
  ev_session_id :: string
  ev_environment :: string

record metric_payload =
  mt_name :: string
  mt_value :: double
  mt_unit :: string
  mt_occurred_at_iso :: string
  mt_build_version :: string
  mt_os :: string
  mt_arch :: string
  mt_user_id :: string
  mt_role :: string
  mt_server_id :: string
  mt_match_id :: string
  mt_session_id :: string
  mt_environment :: string

record heartbeat_payload =
  hb_session_id :: string
  hb_occurred_at_iso :: string
  hb_build_version :: string
  hb_os :: string
  hb_arch :: string
  hb_user_id :: string
  hb_prior_user_id :: string
  hb_metadata_json :: string
  hb_has_frame_stats :: bool
  hb_fps_avg :: double
  hb_slow_frame_pct :: double
  hb_hitch_count :: int
  hb_worst_frame_ms :: int
  hb_role :: string
  hb_server_id :: string
  hb_match_id :: string
  hb_region :: string
  hb_hostname :: string
  hb_environment :: string
  hb_device :: device_payload

section \<open>Field helpers\<close>

definition clamped_field :: "string \<Rightarrow> string \<Rightarrow> nat \<Rightarrow> jwriter \<Rightarrow> jwriter" where
  "clamped_field name v max_bytes = string_field name (utf8_safe_truncate v max_bytes)"

definition optional_field :: "string \<Rightarrow> string \<Rightarrow> nat \<Rightarrow> jwriter \<Rightarrow> jwriter" where
  "optional_field name v max_bytes = (if v \<noteq> [] then clamped_field name v max_bytes else (\<lambda>w. w))"

definition crumb_calls :: "breadcrumb \<Rightarrow> (jwriter \<Rightarrow> jwriter) list" where
  "crumb_calls crumb =
    [if bc_ts_iso crumb \<noteq> [] then string_field ''tsIso'' (bc_ts_iso crumb) else (\<lambda>w. w),
     clamped_field ''level'' (bc_level crumb) max_level_bytes,
     clamped_field ''message'' (bc_message crumb) max_message_bytes]"

definition breadcrumbs_field :: "breadcrumb list \<Rightarrow> jwriter \<Rightarrow> jwriter" where
  "breadcrumbs_field crumbs =
    (if crumbs = [] then (\<lambda>w. w)
     else calls ([begin_array ''breadcrumbs''] @
            map (\<lambda>crumb. calls ([begin_object] @ crumb_calls crumb @ [end_object])) crumbs @
            [end_array]))"

definition common_context :: "string \<Rightarrow> string \<Rightarrow> string \<Rightarrow> string \<Rightarrow> jwriter \<Rightarrow> jwriter" where
  "common_context occurred_at_iso build_version os arch = calls
    [string_field ''occurredAtIso'' occurred_at_iso,
     clamped_field ''buildVersion'' build_version limit_build_version,
     string_field ''os'' os,
     string_field ''arch'' arch]"

definition correlation_fields :: "string \<Rightarrow> string \<Rightarrow> string \<Rightarrow> string \<Rightarrow> jwriter \<Rightarrow> jwriter" where
  "correlation_fields role server_id match_id session_id = calls
    [optional_field ''role'' role limit_role,
     optional_field ''serverId'' server_id limit_server_id,
     optional_field ''matchId'' match_id limit_match_id,
     optional_field ''sessionId'' session_id limit_session_id]"

definition optional_int_field :: "string \<Rightarrow> int \<Rightarrow> jwriter \<Rightarrow> jwriter" where
  "optional_int_field name v = (if 0 < v then int_field name v else (\<lambda>w. w))"

definition number_set :: "double \<Rightarrow> bool" where
  "number_set v \<longleftrightarrow> isfinite v \<and> d_less d_zero v"

definition optional_number_field :: "string \<Rightarrow> string \<Rightarrow> double \<Rightarrow> jwriter \<Rightarrow> jwriter" where
  "optional_number_field dp name v = (if number_set v then number_field dp name v else (\<lambda>w. w))"

definition device_has_content :: "device_payload \<Rightarrow> bool" where
  "device_has_content d \<longleftrightarrow>
    dv_model d \<noteq> [] \<or> dv_type d \<noteq> [] \<or> dv_os d \<noteq> [] \<or> dv_os_family d \<noteq> [] \<or> dv_cpu d \<noteq> [] \<or>
    0 < dv_cpu_count d \<or> 0 < dv_ram_mb d \<or> dv_gpu d \<noteq> [] \<or> dv_gpu_vendor d \<noteq> [] \<or>
    dv_gpu_version d \<noteq> [] \<or> dv_gpu_api d \<noteq> [] \<or> 0 < dv_vram_mb d \<or> dv_screen d \<noteq> [] \<or>
    number_set (dv_screen_dpi d) \<or> number_set (dv_refresh_rate d) \<or> dv_orientation d \<noteq> [] \<or>
    dv_fullscreen d \<or> dv_language d \<noteq> [] \<or> dv_engine d \<noteq> [] \<or> dv_scripting_backend d \<noteq> [] \<or>
    dv_platform d \<noteq> []"

definition device_calls :: "string \<Rightarrow> device_payload \<Rightarrow> (jwriter \<Rightarrow> jwriter) list" where
  "device_calls dp d =
    [optional_field ''model'' (dv_model d) limit_device_model,
     optional_field ''type'' (dv_type d) limit_device_type,
     optional_field ''os'' (dv_os d) limit_device_os,
     optional_field ''osFamily'' (dv_os_family d) limit_device_os_family,
     optional_field ''cpu'' (dv_cpu d) limit_device_cpu,
     optional_int_field ''cpuCount'' (dv_cpu_count d),
     optional_int_field ''ramMB'' (dv_ram_mb d),
     optional_field ''gpu'' (dv_gpu d) limit_device_gpu,
     optional_field ''gpuVendor'' (dv_gpu_vendor d) limit_device_gpu_vendor,
     optional_field ''gpuVersion'' (dv_gpu_version d) limit_device_gpu_version,
     optional_field ''gpuApi'' (dv_gpu_api d) limit_device_gpu_api,
     optional_int_field ''vramMB'' (dv_vram_mb d),
     optional_field ''screen'' (dv_screen d) limit_device_screen,
     optional_number_field dp ''screenDpi'' (dv_screen_dpi d),
     optional_number_field dp ''refreshRate'' (dv_refresh_rate d),
     optional_field ''orientation'' (dv_orientation d) limit_device_orientation,
     if dv_fullscreen d then bool_field ''fullscreen'' True else (\<lambda>w. w),
     optional_field ''language'' (dv_language d) limit_device_language,
     optional_field ''engine'' (dv_engine d) limit_device_engine,
     optional_field ''scriptingBackend'' (dv_scripting_backend d) limit_device_scripting_backend,
     optional_field ''platform'' (dv_platform d) limit_device_platform]"

definition device_object :: "string \<Rightarrow> device_payload \<Rightarrow> jwriter \<Rightarrow> jwriter" where
  "device_object dp d =
    (if \<not> device_has_content d then (\<lambda>w. w)
     else calls ([begin_object_field ''device''] @ device_calls dp d @ [end_object]))"

section \<open>User metadata\<close>

text \<open>
  One iteration of the loop of \<open>clamp_user_metadata\<close> per pair; a full table ends the loop.
  The arrays are lists of C strings of the caller's \<open>count\<close>; \<^const>\<open>None\<close> for a null array.
\<close>

fun replace_value :: "string \<Rightarrow> string \<Rightarrow> user_metadata \<Rightarrow> user_metadata option" where
  "replace_value key v [] = None"
| "replace_value key v (e # es) =
    (if fst e = key then Some ((fst e, v) # es)
     else map_option (\<lambda>es'. e # es') (replace_value key v es))"

fun clamp_metadata_loop :: "(cstr \<times> cstr) list \<Rightarrow> user_metadata \<Rightarrow> user_metadata" where
  "clamp_metadata_loop [] out = out"
| "clamp_metadata_loop ((k, v) # rest) out =
    (if cstr_blank k then clamp_metadata_loop rest out
     else if cstr_blank v then clamp_metadata_loop rest out
     else
       let key = utf8_safe_truncate (cstr_or_empty k) limit_user_metadata_key;
           val = utf8_safe_truncate (cstr_or_empty v) limit_user_metadata_value
       in case replace_value key val out of
            Some out' \<Rightarrow> clamp_metadata_loop rest out'
          | None \<Rightarrow>
              if limit_user_metadata_keys \<le> length out then out
              else clamp_metadata_loop rest (out @ [(key, val)]))"

definition clamp_user_metadata :: "cstr list option \<Rightarrow> cstr list option \<Rightarrow> user_metadata" where
  "clamp_user_metadata keys vals =
    (case (keys, vals) of (Some ks, Some vs) \<Rightarrow> clamp_metadata_loop (zip ks vs) [] | _ \<Rightarrow> [])"

definition build_user_metadata_json :: "user_metadata \<Rightarrow> string" where
  "build_user_metadata_json entries = document
    (map (\<lambda>(key, v). string_field (utf8_safe_truncate key limit_user_metadata_key)
                       (utf8_safe_truncate v limit_user_metadata_value)) entries)"

section \<open>The bodies\<close>

definition build_crash_json :: "string \<Rightarrow> crash_payload \<Rightarrow> string" where
  "build_crash_json dp p = document
    [common_context (cp_occurred_at_iso p) (cp_build_version p) (cp_os p) (cp_arch p),
     clamped_field ''signature'' (cp_signature p) limit_signature,
     clamped_field ''stackHint'' (cp_stack_hint p) limit_stack_hint,
     optional_field ''stackTrace'' (cp_stack_trace p) limit_stack_trace,
     breadcrumbs_field (cp_breadcrumbs p),
     optional_field ''userId'' (cp_user_id p) limit_user_id,
     optional_field ''priorUserId'' (cp_prior_user_id p) limit_user_id,
     optional_field ''steamId'' (cp_steam_id p) limit_steam_id,
     bool_field ''log'' (cp_log p),
     correlation_fields (cp_role p) (cp_server_id p) (cp_match_id p) (cp_session_id p),
     optional_field ''environment'' (cp_environment p) limit_environment,
     device_object dp (cp_device p),
     optional_field ''crashType'' (cp_crash_type p) limit_signature,
     optional_int_field ''osSignal'' (cp_os_signal p)]"

definition build_bug_report_json :: "string \<Rightarrow> bug_report_payload \<Rightarrow> string" where
  "build_bug_report_json dp p = document
    [common_context (br_occurred_at_iso p) (br_build_version p) (br_os p) (br_arch p),
     optional_field ''category'' (br_category p) limit_bug_category,
     clamped_field ''message'' (br_message p) limit_bug_message,
     optional_field ''userId'' (br_user_id p) limit_user_id,
     optional_field ''priorUserId'' (br_prior_user_id p) limit_user_id,
     optional_field ''steamId'' (br_steam_id p) limit_steam_id,
     breadcrumbs_field (br_breadcrumbs p),
     bool_field ''log'' (br_log p),
     correlation_fields (br_role p) (br_server_id p) (br_match_id p) (br_session_id p),
     optional_field ''environment'' (br_environment p) limit_environment,
     device_object dp (br_device p)]"

text \<open>The attribute loop of \<open>build_event_json\<close>; \<open>written\<close> counts the emitted pairs.\<close>

fun attribute_calls :: "nat \<Rightarrow> (string \<times> string) list \<Rightarrow> (jwriter \<Rightarrow> jwriter) list" where
  "attribute_calls written [] = []"
| "attribute_calls written ((key, v) # rest) =
    (if limit_event_attributes \<le> written then []
     else if key = [] then attribute_calls written rest
     else string_field (utf8_safe_truncate key limit_event_attribute_key)
            (utf8_safe_truncate v limit_event_attribute_value) # attribute_calls (written + 1) rest)"

definition attributes_object :: "(string \<times> string) list \<Rightarrow> jwriter \<Rightarrow> jwriter" where
  "attributes_object attributes =
    (if attributes \<noteq> []
     then calls ([begin_object_field ''attributes''] @ attribute_calls 0 attributes @ [end_object])
     else (\<lambda>w. w))"

definition build_event_json :: "event_payload \<Rightarrow> string" where
  "build_event_json p = document
    [common_context (ev_occurred_at_iso p) (ev_build_version p) (ev_os p) (ev_arch p),
     clamped_field ''name'' (ev_name p) limit_event_name,
     optional_field ''userId'' (ev_user_id p) limit_user_id,
     attributes_object (ev_attributes p),
     correlation_fields (ev_role p) (ev_server_id p) (ev_match_id p) (ev_session_id p),
     optional_field ''environment'' (ev_environment p) limit_environment]"

definition build_metric_json :: "string \<Rightarrow> metric_payload \<Rightarrow> string" where
  "build_metric_json dp p = document
    [clamped_field ''name'' (mt_name p) limit_metric_name,
     number_field dp ''value'' (mt_value p),
     optional_field ''unit'' (mt_unit p) limit_metric_unit,
     string_field ''occurredAtIso'' (mt_occurred_at_iso p),
     clamped_field ''buildVersion'' (mt_build_version p) limit_build_version,
     string_field ''os'' (mt_os p),
     string_field ''arch'' (mt_arch p),
     optional_field ''userId'' (mt_user_id p) limit_user_id,
     correlation_fields (mt_role p) (mt_server_id p) (mt_match_id p) (mt_session_id p),
     optional_field ''environment'' (mt_environment p) limit_environment]"

definition build_batch_envelope :: "string \<Rightarrow> string list \<Rightarrow> string" where
  "build_batch_envelope sent_at_iso items = document
    [string_field ''sentAtIso'' sent_at_iso,
     calls ([begin_array ''items''] @ map raw_element items @ [end_array])]"

definition frame_stats_calls :: "string \<Rightarrow> heartbeat_payload \<Rightarrow> jwriter \<Rightarrow> jwriter" where
  "frame_stats_calls dp p =
    (if hb_has_frame_stats p
     then calls
       [number_field dp ''fpsAvg'' (hb_fps_avg p),
        number_field dp ''slowFramePct'' (hb_slow_frame_pct p),
        int_field ''hitchCount'' (hb_hitch_count p),
        int_field ''worstFrameMs'' (hb_worst_frame_ms p)]
     else (\<lambda>w. w))"

definition build_heartbeat_json :: "string \<Rightarrow> heartbeat_payload \<Rightarrow> string" where
  "build_heartbeat_json dp p = document
    [clamped_field ''sessionId'' (hb_session_id p) limit_session_id,
     string_field ''occurredAtIso'' (hb_occurred_at_iso p),
     clamped_field ''buildVersion'' (hb_build_version p) limit_build_version,
     string_field ''os'' (hb_os p),
     string_field ''arch'' (hb_arch p),
     optional_field ''userId'' (hb_user_id p) limit_user_id,
     optional_field ''priorUserId'' (hb_prior_user_id p) limit_user_id,
     if hb_metadata_json p \<noteq> [] then raw_field ''metadata'' (hb_metadata_json p) else (\<lambda>w. w),
     frame_stats_calls dp p,
     optional_field ''role'' (hb_role p) limit_role,
     optional_field ''serverId'' (hb_server_id p) limit_server_id,
     optional_field ''matchId'' (hb_match_id p) limit_match_id,
     optional_field ''region'' (hb_region p) limit_region,
     optional_field ''hostname'' (hb_hostname p) limit_hostname,
     optional_field ''environment'' (hb_environment p) limit_environment,
     device_object dp (hb_device p)]"

definition build_pull_request_json :: "string \<Rightarrow> string \<Rightarrow> string \<Rightarrow> string" where
  "build_pull_request_json target_type target_value reason = document
    [clamped_field ''targetType'' target_type limit_pull_target_type,
     clamped_field ''targetValue'' target_value limit_pull_target_value,
     clamped_field ''reason'' reason limit_pull_reason]"

definition build_pull_fulfill_json ::
    "string \<Rightarrow> string \<Rightarrow> string \<Rightarrow> string \<Rightarrow> string \<Rightarrow> int \<Rightarrow> string" where
  "build_pull_fulfill_json user_id session_id match_id server_id nonce nonce_expiry = document
    [optional_field ''userId'' user_id limit_user_id,
     optional_field ''sessionId'' session_id limit_session_id,
     optional_field ''matchId'' match_id limit_match_id,
     optional_field ''serverId'' server_id limit_server_id,
     if nonce \<noteq> []
     then calls [clamped_field ''nonce'' nonce limit_pull_nonce, int_field ''nonceExpiry'' nonce_expiry]
     else (\<lambda>w. w)]"

definition pull_request_targets_client ::
    "string \<Rightarrow> string \<Rightarrow> string \<Rightarrow> string \<Rightarrow> string \<Rightarrow> string \<Rightarrow> bool" where
  "pull_request_targets_client target_type target_value user_id session_id match_id server_id \<longleftrightarrow>
    (if target_value = [] then False
     else if target_type = ''userId'' then user_id \<noteq> [] \<and> user_id = target_value
     else if target_type = ''sessionId'' then session_id \<noteq> [] \<and> session_id = target_value
     else if target_type = ''matchId'' then match_id \<noteq> [] \<and> match_id = target_value
     else if target_type = ''server'' then server_id \<noteq> [] \<and> server_id = target_value
     else False)"

section \<open>The fields the bodies are meant to have\<close>

type_synonym fields = "(string \<times> json) list"

definition clp :: "string \<Rightarrow> string \<Rightarrow> nat \<Rightarrow> fields" where
  "clp n v k = [(n, JStr (utf8_safe_truncate v k))]"

definition opt :: "string \<Rightarrow> string \<Rightarrow> nat \<Rightarrow> fields" where
  "opt n v k = (if v \<noteq> [] then [(n, JStr (utf8_safe_truncate v k))] else [])"

definition opt_int :: "string \<Rightarrow> int \<Rightarrow> fields" where
  "opt_int n v = (if 0 < v then [(n, JInt v)] else [])"

definition opt_num :: "string \<Rightarrow> string \<Rightarrow> double \<Rightarrow> fields" where
  "opt_num dp n v = (if number_set v then [(n, JLit (number_text dp v))] else [])"

definition crumb_json :: "breadcrumb \<Rightarrow> json" where
  "crumb_json c = JObj
    ((if bc_ts_iso c \<noteq> [] then [(''tsIso'', JStr (bc_ts_iso c))] else []) @
     clp ''level'' (bc_level c) 16 @ clp ''message'' (bc_message c) 512)"

definition breadcrumb_fields :: "breadcrumb list \<Rightarrow> fields" where
  "breadcrumb_fields cs = (if cs = [] then [] else [(''breadcrumbs'', JArr (map crumb_json cs))])"

definition context_fields :: "string \<Rightarrow> string \<Rightarrow> string \<Rightarrow> string \<Rightarrow> fields" where
  "context_fields t b os arch =
    [(''occurredAtIso'', JStr t), (''buildVersion'', JStr (utf8_safe_truncate b 64)),
     (''os'', JStr os), (''arch'', JStr arch)]"

definition spine_fields :: "string \<Rightarrow> string \<Rightarrow> string \<Rightarrow> string \<Rightarrow> fields" where
  "spine_fields role server_id match_id session_id =
    opt ''role'' role 16 @ opt ''serverId'' server_id 128 @ opt ''matchId'' match_id 128 @
    opt ''sessionId'' session_id 64"

definition device_fields :: "string \<Rightarrow> device_payload \<Rightarrow> fields" where
  "device_fields dp d = concat
    [opt ''model'' (dv_model d) 256, opt ''type'' (dv_type d) 32, opt ''os'' (dv_os d) 256,
     opt ''osFamily'' (dv_os_family d) 48, opt ''cpu'' (dv_cpu d) 256,
     opt_int ''cpuCount'' (dv_cpu_count d), opt_int ''ramMB'' (dv_ram_mb d),
     opt ''gpu'' (dv_gpu d) 256, opt ''gpuVendor'' (dv_gpu_vendor d) 256,
     opt ''gpuVersion'' (dv_gpu_version d) 256, opt ''gpuApi'' (dv_gpu_api d) 64,
     opt_int ''vramMB'' (dv_vram_mb d), opt ''screen'' (dv_screen d) 32,
     opt_num dp ''screenDpi'' (dv_screen_dpi d), opt_num dp ''refreshRate'' (dv_refresh_rate d),
     opt ''orientation'' (dv_orientation d) 32,
     (if dv_fullscreen d then [(''fullscreen'', JBool True)] else []),
     opt ''language'' (dv_language d) 48, opt ''engine'' (dv_engine d) 48,
     opt ''scriptingBackend'' (dv_scripting_backend d) 32, opt ''platform'' (dv_platform d) 48]"

definition device_field :: "string \<Rightarrow> device_payload \<Rightarrow> fields" where
  "device_field dp d = (if device_fields dp d = [] then [] else [(''device'', JObj (device_fields dp d))])"

definition crash_fields :: "string \<Rightarrow> crash_payload \<Rightarrow> fields" where
  "crash_fields dp p = concat
    [context_fields (cp_occurred_at_iso p) (cp_build_version p) (cp_os p) (cp_arch p),
     clp ''signature'' (cp_signature p) 128, clp ''stackHint'' (cp_stack_hint p) 512,
     opt ''stackTrace'' (cp_stack_trace p) 8192, breadcrumb_fields (cp_breadcrumbs p),
     opt ''userId'' (cp_user_id p) 128, opt ''priorUserId'' (cp_prior_user_id p) 128,
     opt ''steamId'' (cp_steam_id p) 32, [(''log'', JBool (cp_log p))],
     spine_fields (cp_role p) (cp_server_id p) (cp_match_id p) (cp_session_id p),
     opt ''environment'' (cp_environment p) 64, device_field dp (cp_device p),
     opt ''crashType'' (cp_crash_type p) 128, opt_int ''osSignal'' (cp_os_signal p)]"

definition bug_report_fields :: "string \<Rightarrow> bug_report_payload \<Rightarrow> fields" where
  "bug_report_fields dp p = concat
    [context_fields (br_occurred_at_iso p) (br_build_version p) (br_os p) (br_arch p),
     opt ''category'' (br_category p) 32, clp ''message'' (br_message p) 4000,
     opt ''userId'' (br_user_id p) 128, opt ''priorUserId'' (br_prior_user_id p) 128,
     opt ''steamId'' (br_steam_id p) 32, breadcrumb_fields (br_breadcrumbs p),
     [(''log'', JBool (br_log p))],
     spine_fields (br_role p) (br_server_id p) (br_match_id p) (br_session_id p),
     opt ''environment'' (br_environment p) 64, device_field dp (br_device p)]"

definition attribute_fields :: "(string \<times> string) list \<Rightarrow> fields" where
  "attribute_fields attributes =
    map (\<lambda>(k, v). (utf8_safe_truncate k 64, JStr (utf8_safe_truncate v 512)))
      (take 32 (filter (\<lambda>kv. fst kv \<noteq> []) attributes))"

definition event_fields :: "event_payload \<Rightarrow> fields" where
  "event_fields p = concat
    [context_fields (ev_occurred_at_iso p) (ev_build_version p) (ev_os p) (ev_arch p),
     clp ''name'' (ev_name p) 64, opt ''userId'' (ev_user_id p) 128,
     (if ev_attributes p \<noteq> [] then [(''attributes'', JObj (attribute_fields (ev_attributes p)))] else []),
     spine_fields (ev_role p) (ev_server_id p) (ev_match_id p) (ev_session_id p),
     opt ''environment'' (ev_environment p) 64]"

definition metric_fields :: "string \<Rightarrow> metric_payload \<Rightarrow> fields" where
  "metric_fields dp p = concat
    [clp ''name'' (mt_name p) 64, [(''value'', JLit (number_text dp (mt_value p)))],
     opt ''unit'' (mt_unit p) 16,
     context_fields (mt_occurred_at_iso p) (mt_build_version p) (mt_os p) (mt_arch p),
     opt ''userId'' (mt_user_id p) 128,
     spine_fields (mt_role p) (mt_server_id p) (mt_match_id p) (mt_session_id p),
     opt ''environment'' (mt_environment p) 64]"

definition frame_fields :: "string \<Rightarrow> heartbeat_payload \<Rightarrow> fields" where
  "frame_fields dp p =
    (if hb_has_frame_stats p
     then [(''fpsAvg'', JLit (number_text dp (hb_fps_avg p))),
           (''slowFramePct'', JLit (number_text dp (hb_slow_frame_pct p))),
           (''hitchCount'', JInt (hb_hitch_count p)), (''worstFrameMs'', JInt (hb_worst_frame_ms p))]
     else [])"

definition heartbeat_fields :: "string \<Rightarrow> heartbeat_payload \<Rightarrow> fields" where
  "heartbeat_fields dp p = concat
    [clp ''sessionId'' (hb_session_id p) 64,
     context_fields (hb_occurred_at_iso p) (hb_build_version p) (hb_os p) (hb_arch p),
     opt ''userId'' (hb_user_id p) 128, opt ''priorUserId'' (hb_prior_user_id p) 128,
     (if hb_metadata_json p \<noteq> [] then [(''metadata'', JLit (hb_metadata_json p))] else []),
     frame_fields dp p, opt ''role'' (hb_role p) 16, opt ''serverId'' (hb_server_id p) 128,
     opt ''matchId'' (hb_match_id p) 128, opt ''region'' (hb_region p) 64,
     opt ''hostname'' (hb_hostname p) 255, opt ''environment'' (hb_environment p) 64,
     device_field dp (hb_device p)]"

section \<open>Each helper emits its fields\<close>

lemma emits_concat: "list_all2 emits fs Fs \<Longrightarrow> emits (calls fs) (concat Fs)"
proof (induction fs Fs rule: list_all2_induct)
  case Nil
  show ?case by (simp only: concat.simps emits_calls_Nil)
next
  case (Cons f fs F Fs)
  from emits_calls_Cons [OF Cons(1,3)] show ?case by (simp only: concat.simps)
qed

lemma emits_clamped [json_emit]: "emits (clamped_field n v k) (clp n v k)"
  by (simp add: clamped_field_def clp_def json_emit)

lemma emits_optional [json_emit]: "emits (optional_field n v k) (opt n v k)"
  by (simp add: optional_field_def opt_def clamped_field_def json_emit)

lemma emits_optional_int [json_emit]: "emits (optional_int_field n v) (opt_int n v)"
  by (simp add: optional_int_field_def opt_int_def json_emit)

lemma emits_optional_number [json_emit]: "emits (optional_number_field dp n v) (opt_num dp n v)"
  by (simp add: optional_number_field_def opt_num_def json_emit)

lemma emits_breadcrumbs [json_emit]: "emits (breadcrumbs_field cs) (breadcrumb_fields cs)"
proof -
  have "emits_elems (calls ([begin_object] @ crumb_calls c @ [end_object])) [crumb_json c]" for c
  proof -
    have "emits (calls (crumb_calls c)) (concat
        [if bc_ts_iso c \<noteq> [] then [(''tsIso'', JStr (bc_ts_iso c))] else [],
         clp ''level'' (bc_level c) 16, clp ''message'' (bc_message c) 512])"
      unfolding crumb_calls_def max_level_bytes_def max_message_bytes_def
      by (rule emits_concat) (simp add: json_emit)
    from emits_object_elem [OF this] show ?thesis by (simp add: crumb_json_def)
  qed
  then have "emits (calls ([begin_array ''breadcrumbs''] @
      map (\<lambda>c. calls ([begin_object] @ crumb_calls c @ [end_object])) cs @ [end_array]))
      [(''breadcrumbs'', JArr (map crumb_json cs))]"
    by (intro emits_array_field emits_elems_calls_map)
  then show ?thesis by (simp only: breadcrumbs_field_def breadcrumb_fields_def emits_if emits_skip)
qed

lemma emits_context [json_emit]: "emits (common_context t b os arch) (context_fields t b os arch)"
proof -
  have "emits (common_context t b os arch)
      (concat [[(''occurredAtIso'', JStr t)], clp ''buildVersion'' b 64, [(''os'', JStr os)], [(''arch'', JStr arch)]])"
    unfolding common_context_def by (rule emits_concat) (simp add: json_emit limit_build_version_def)
  then show ?thesis by (simp add: context_fields_def clp_def)
qed

lemma emits_spine [json_emit]: "emits (correlation_fields r s m i) (spine_fields r s m i)"
proof -
  have "emits (correlation_fields r s m i)
      (concat [opt ''role'' r 16, opt ''serverId'' s 128, opt ''matchId'' m 128, opt ''sessionId'' i 64])"
    unfolding correlation_fields_def by (rule emits_concat) (simp add: json_emit limit_defs)
  then show ?thesis by (simp add: spine_fields_def)
qed

lemma device_content_fields: "device_has_content d \<longleftrightarrow> device_fields dp d \<noteq> []"
proof -
  have nil: "opt n v k = [] \<longleftrightarrow> v = []" "opt_int n i = [] \<longleftrightarrow> \<not> 0 < i"
    "opt_num dp n x = [] \<longleftrightarrow> \<not> number_set x" "(if b then [f] else []) = [] \<longleftrightarrow> \<not> b"
    for n v k i x b and f :: "string \<times> json"
    by (simp_all add: opt_def opt_int_def opt_num_def)
  have "device_fields dp d = [] \<longleftrightarrow> \<not> device_has_content d"
    unfolding device_fields_def concat.simps append_is_Nil_conv nil device_has_content_def de_Morgan_disj not_not
    by (simp only: conj_assoc simp_thms)
  then show ?thesis by simp
qed

lemma emits_device [json_emit]: "emits (device_object dp d) (device_field dp d)"
proof -
  have "emits (calls (device_calls dp d)) (device_fields dp d)"
    unfolding device_calls_def device_fields_def by (rule emits_concat) (simp add: json_emit limit_defs)
  then show ?thesis
    unfolding device_object_def device_field_def device_content_fields [of d dp] not_not
    by (intro emits_if emits_skip emits_object_field)
qed

lemma emits_attributes [json_emit]:
  "emits (attributes_object kvs)
    (if kvs \<noteq> [] then [(''attributes'', JObj (attribute_fields kvs))] else [])"
proof -
  have "written \<le> 32 \<Longrightarrow> emits (calls (attribute_calls written kvs))
      (map (\<lambda>(k, v). (utf8_safe_truncate k 64, JStr (utf8_safe_truncate v 512)))
        (take (32 - written) (filter (\<lambda>kv. fst kv \<noteq> []) kvs)))" for written
  proof (induction written kvs rule: attribute_calls.induct)
    case (2 written k v kvs)
    show ?case
    proof (cases "32 \<le> written \<or> k = []")
      case True
      with 2 show ?thesis by (auto simp: limit_event_attributes_def json_emit)
    next
      case False
      with 2 have "emits (calls (attribute_calls (written + 1) kvs))
        (map (\<lambda>(k, v). (utf8_safe_truncate k 64, JStr (utf8_safe_truncate v 512)))
          (take (32 - (written + 1)) (filter (\<lambda>kv. fst kv \<noteq> []) kvs)))"
        by (simp add: limit_event_attributes_def)
      from emits_calls_Cons [OF emits_string this, of "utf8_safe_truncate k 64" "utf8_safe_truncate v 512"] False
      show ?thesis
        by (simp add: limit_defs take_Cons' diff_diff_add del: calls.simps)
    qed
  qed (simp add: json_emit)
  from emits_object_field [OF this [of 0], of "''attributes''"] show ?thesis
    by (simp add: attributes_object_def attribute_fields_def json_emit)
qed

lemma emits_frames [json_emit]: "emits (frame_stats_calls dp p) (frame_fields dp p)"
proof -
  have "emits (calls
       [number_field dp ''fpsAvg'' (hb_fps_avg p), number_field dp ''slowFramePct'' (hb_slow_frame_pct p),
        int_field ''hitchCount'' (hb_hitch_count p), int_field ''worstFrameMs'' (hb_worst_frame_ms p)])
      (concat [[(''fpsAvg'', JLit (number_text dp (hb_fps_avg p)))],
        [(''slowFramePct'', JLit (number_text dp (hb_slow_frame_pct p)))],
        [(''hitchCount'', JInt (hb_hitch_count p))], [(''worstFrameMs'', JInt (hb_worst_frame_ms p))]])"
    by (rule emits_concat) (simp add: json_emit)
  then show ?thesis by (simp add: frame_stats_calls_def frame_fields_def json_emit)
qed

section \<open>The bodies render their fields\<close>

lemma crash_render [json_shape]: "build_crash_json dp p = render (JObj (crash_fields dp p))"
  unfolding build_crash_json_def crash_fields_def
  by (intro document_render emits_concat) (simp add: json_emit limit_defs)

lemma bug_report_render [json_shape]: "build_bug_report_json dp p = render (JObj (bug_report_fields dp p))"
  unfolding build_bug_report_json_def bug_report_fields_def
  by (intro document_render emits_concat) (simp add: json_emit limit_defs)

lemma event_render [json_shape]: "build_event_json p = render (JObj (event_fields p))"
  unfolding build_event_json_def event_fields_def
  by (intro document_render emits_concat) (simp add: json_emit limit_defs)

lemma metric_render [json_shape]: "build_metric_json dp p = render (JObj (metric_fields dp p))"
proof -
  have "emits (calls
      [clamped_field ''name'' (mt_name p) limit_metric_name, number_field dp ''value'' (mt_value p),
       optional_field ''unit'' (mt_unit p) limit_metric_unit,
       string_field ''occurredAtIso'' (mt_occurred_at_iso p),
       clamped_field ''buildVersion'' (mt_build_version p) limit_build_version,
       string_field ''os'' (mt_os p), string_field ''arch'' (mt_arch p),
       optional_field ''userId'' (mt_user_id p) limit_user_id,
       correlation_fields (mt_role p) (mt_server_id p) (mt_match_id p) (mt_session_id p),
       optional_field ''environment'' (mt_environment p) limit_environment])
    (concat [clp ''name'' (mt_name p) 64, [(''value'', JLit (number_text dp (mt_value p)))],
       opt ''unit'' (mt_unit p) 16, [(''occurredAtIso'', JStr (mt_occurred_at_iso p))],
       clp ''buildVersion'' (mt_build_version p) 64, [(''os'', JStr (mt_os p))],
       [(''arch'', JStr (mt_arch p))], opt ''userId'' (mt_user_id p) 128,
       spine_fields (mt_role p) (mt_server_id p) (mt_match_id p) (mt_session_id p),
       opt ''environment'' (mt_environment p) 64])"
    by (rule emits_concat) (simp add: json_emit limit_defs)
  from document_render [OF this] show ?thesis
    by (simp add: build_metric_json_def metric_fields_def context_fields_def clp_def)
qed

lemma heartbeat_render [json_shape]: "build_heartbeat_json dp p = render (JObj (heartbeat_fields dp p))"
proof -
  have "emits (calls
      [clamped_field ''sessionId'' (hb_session_id p) limit_session_id,
       string_field ''occurredAtIso'' (hb_occurred_at_iso p),
       clamped_field ''buildVersion'' (hb_build_version p) limit_build_version,
       string_field ''os'' (hb_os p), string_field ''arch'' (hb_arch p),
       optional_field ''userId'' (hb_user_id p) limit_user_id,
       optional_field ''priorUserId'' (hb_prior_user_id p) limit_user_id,
       if hb_metadata_json p \<noteq> [] then raw_field ''metadata'' (hb_metadata_json p) else (\<lambda>w. w),
       frame_stats_calls dp p, optional_field ''role'' (hb_role p) limit_role,
       optional_field ''serverId'' (hb_server_id p) limit_server_id,
       optional_field ''matchId'' (hb_match_id p) limit_match_id,
       optional_field ''region'' (hb_region p) limit_region,
       optional_field ''hostname'' (hb_hostname p) limit_hostname,
       optional_field ''environment'' (hb_environment p) limit_environment,
       device_object dp (hb_device p)])
    (concat [clp ''sessionId'' (hb_session_id p) 64, [(''occurredAtIso'', JStr (hb_occurred_at_iso p))],
       clp ''buildVersion'' (hb_build_version p) 64, [(''os'', JStr (hb_os p))], [(''arch'', JStr (hb_arch p))],
       opt ''userId'' (hb_user_id p) 128, opt ''priorUserId'' (hb_prior_user_id p) 128,
       (if hb_metadata_json p \<noteq> [] then [(''metadata'', JLit (hb_metadata_json p))] else []),
       frame_fields dp p, opt ''role'' (hb_role p) 16, opt ''serverId'' (hb_server_id p) 128,
       opt ''matchId'' (hb_match_id p) 128, opt ''region'' (hb_region p) 64,
       opt ''hostname'' (hb_hostname p) 255, opt ''environment'' (hb_environment p) 64,
       device_field dp (hb_device p)])"
    by (rule emits_concat) (simp add: json_emit limit_defs)
  from document_render [OF this] show ?thesis
    by (simp add: build_heartbeat_json_def heartbeat_fields_def context_fields_def clp_def)
qed

lemma batch_envelope_render [json_shape]:
  "build_batch_envelope t items = render (JObj [(''sentAtIso'', JStr t), (''items'', JArr (map JLit items))])"
proof -
  have "emits_elems (calls (map raw_element items)) (map JLit items)"
    by (intro emits_elems_calls_map emits_elem_raw)
  from emits_array_field [OF this, of "''items''"]
  have "emits (calls [string_field ''sentAtIso'' t, calls ([begin_array ''items''] @ map raw_element items @ [end_array])])
      (concat [[(''sentAtIso'', JStr t)], [(''items'', JArr (map JLit items))]])"
    by (intro emits_concat) (simp add: json_emit)
  from document_render [OF this] show ?thesis by (simp add: build_batch_envelope_def)
qed

lemma user_metadata_render [json_shape]:
  "build_user_metadata_json entries =
    render (JObj (map (\<lambda>(k, v). (utf8_safe_truncate k 64, JStr (utf8_safe_truncate v 512))) entries))"
proof -
  have "emits (calls (map (\<lambda>(k, v). string_field (utf8_safe_truncate k 64) (utf8_safe_truncate v 512)) entries))
      (concat (map (\<lambda>(k, v). [(utf8_safe_truncate k 64, JStr (utf8_safe_truncate v 512))]) entries))"
    by (rule emits_calls_map) (auto simp: json_emit)
  from document_render [OF this] show ?thesis
    by (simp add: build_user_metadata_json_def limit_defs case_prod_unfold concat_map_singleton)
qed

section \<open>Looking fields up again\<close>

definition body_keys :: "string list" where
  "body_keys =
    [''occurredAtIso'', ''buildVersion'', ''os'', ''arch'', ''signature'', ''stackHint'', ''stackTrace'',
     ''breadcrumbs'', ''tsIso'', ''level'', ''message'', ''userId'', ''priorUserId'', ''steamId'', ''log'',
     ''role'', ''serverId'', ''matchId'', ''sessionId'', ''environment'', ''device'', ''crashType'',
     ''osSignal'', ''category'', ''model'', ''type'', ''osFamily'', ''cpu'', ''cpuCount'', ''ramMB'',
     ''gpu'', ''gpuVendor'', ''gpuVersion'', ''gpuApi'', ''vramMB'', ''screen'', ''screenDpi'',
     ''refreshRate'', ''orientation'', ''fullscreen'', ''language'', ''engine'', ''scriptingBackend'',
     ''platform'']"

lemma body_keys_plain: "list_all plain_key body_keys"
  by code_simp

lemma body_key_plain: "k \<in> set body_keys \<Longrightarrow> plain_key k"
  using body_keys_plain by (simp add: list_all_iff)

lemma tidy_fields_append [simp]: "tidy_fields (F @ G) \<longleftrightarrow> tidy_fields F \<and> tidy_fields G"
  by (induction F) auto

lemma field_pairs_append [simp]: "field_pairs (F @ G) = field_pairs F @ field_pairs G"
  by (induction F) auto

lemma field_pairs_Nil_concat [simp]: "field_pairs (concat Fs) = concat (map field_pairs Fs)"
  by (induction Fs) auto

lemma tidy_fields_concat: "tidy_fields (concat Fs) \<longleftrightarrow> list_all tidy_fields Fs"
  by (induction Fs) auto

lemma tidy_bool [simp]: "tidy (JBool b)"
  by (simp add: JBool_def is_ws_def)

lemma tidy_int [simp]: "tidy (JInt i)"
proof -
  have d: "\<forall>c \<in> set (dec_pos \<bar>i\<bar>). is_digit c" using dec_pos_digits [of "\<bar>i\<bar>"] by auto
  have hd: "is_digit (hd (dec_pos \<bar>i\<bar>))" using d by simp
  have "\<not> is_digit CHR 0x22 \<and> \<not> is_digit CHR ''{'' \<and> \<not> is_digit CHR ''}''" by (simp add: is_digit_def)
  moreover have "\<not> is_ws c" if "is_digit c" for c using that by (auto simp: is_ws_def is_digit_def)
  ultimately show ?thesis using d hd by (auto simp: JInt_def dec_int_def is_ws_def)
qed

lemma tidy_opt [simp]: "plain_key n \<Longrightarrow> tidy_fields (opt n v k)"
  and tidy_clp [simp]: "plain_key n \<Longrightarrow> tidy_fields (clp n v k)"
  and tidy_opt_int [simp]: "plain_key n \<Longrightarrow> tidy_fields (opt_int n i)"
  by (simp_all add: opt_def clp_def opt_int_def)

text \<open>A number the writer may be handed, under the locale \<open>dp\<close>.\<close>

definition json_number :: "string \<Rightarrow> double \<Rightarrow> bool" where
  "json_number dp v \<longleftrightarrow> d_valid v \<and> separator_ok dp"

lemma tidy_number:
  assumes "json_number dp v" "isfinite v"
  shows "tidy (JLit (number_text dp v))"
proof -
  have t: "set (number_text dp v) \<subseteq> set (''.'' @ number_alphabet)" "number_text dp v \<noteq> []"
    using number_text_plain [of v dp] assms by (auto simp: json_number_def)
  have a: "CHR 0x22 \<notin> set (''.'' @ number_alphabet) \<and> CHR ''{'' \<notin> set (''.'' @ number_alphabet) \<and>
      CHR ''}'' \<notin> set (''.'' @ number_alphabet) \<and> list_all (\<lambda>c. \<not> is_ws c) (''.'' @ number_alphabet)"
    by code_simp
  have "hd (number_text dp v) \<in> set (''.'' @ number_alphabet)" using t by (meson hd_in_set subsetD)
  then have "\<not> is_ws (hd (number_text dp v))" using a unfolding list_all_iff by blast
  with t a show ?thesis by auto
qed

lemma tidy_opt_num: "json_number dp v \<Longrightarrow> plain_key n \<Longrightarrow> tidy_fields (opt_num dp n v)"
  by (simp add: opt_num_def number_set_def tidy_number del: tidy.simps)

definition device_numbers_ok :: "string \<Rightarrow> device_payload \<Rightarrow> bool" where
  "device_numbers_ok dp d \<longleftrightarrow> json_number dp (dv_screen_dpi d) \<and> json_number dp (dv_refresh_rate d)"

lemma tidy_device: "device_numbers_ok dp d \<Longrightarrow> tidy_fields (device_field dp d)"
proof -
  assume ok: "device_numbers_ok dp d"
  then have "tidy_fields (device_fields dp d)"
    unfolding device_fields_def tidy_fields_concat
    by (simp add: tidy_opt_num device_numbers_ok_def body_key_plain body_keys_def)
  moreover have "plain_key ''device''" by (rule body_key_plain) (simp add: body_keys_def)
  ultimately show ?thesis by (simp add: device_field_def)
qed

lemma tidy_breadcrumbs: "tidy_fields (breadcrumb_fields cs)"
proof -
  have k: "plain_key ''tsIso''" "plain_key ''level''" "plain_key ''message''" "plain_key ''breadcrumbs''"
    by (rule body_key_plain, simp add: body_keys_def)+
  then have "tidy (crumb_json c)" for c by (simp add: crumb_json_def)
  then have "tidy_elems (map crumb_json cs)" by (induction cs) simp_all
  with k show ?thesis by (simp add: breadcrumb_fields_def)
qed

lemma tidy_crash: "device_numbers_ok dp (cp_device p) \<Longrightarrow> tidy_fields (crash_fields dp p)"
  unfolding crash_fields_def tidy_fields_concat
  by (simp add: tidy_device tidy_breadcrumbs context_fields_def spine_fields_def body_key_plain body_keys_def)

lemma tidy_bug_report: "device_numbers_ok dp (br_device p) \<Longrightarrow> tidy_fields (bug_report_fields dp p)"
  unfolding bug_report_fields_def tidy_fields_concat
  by (simp add: tidy_device tidy_breadcrumbs context_fields_def spine_fields_def body_key_plain body_keys_def)

text \<open>The nested objects hold none of the correlation keys.\<close>

definition nested_keys :: "string set" where
  "nested_keys =
    {''breadcrumbs'', ''tsIso'', ''level'', ''message'', ''device'', ''model'', ''type'', ''os'', ''osFamily'',
     ''cpu'', ''cpuCount'', ''ramMB'', ''gpu'', ''gpuVendor'', ''gpuVersion'', ''gpuApi'', ''vramMB'',
     ''screen'', ''screenDpi'', ''refreshRate'', ''orientation'', ''fullscreen'', ''language'', ''engine'',
     ''scriptingBackend'', ''platform''}"

lemma opt_pairs [simp]:
  "map_of (field_pairs (opt n v k)) key =
    (if key = n \<and> v \<noteq> [] then Some (JStr (utf8_safe_truncate v k)) else None)"
  "map_of (field_pairs (clp n v k)) key = (if key = n then Some (JStr (utf8_safe_truncate v k)) else None)"
  "map_of (field_pairs (opt_int n i)) key = (if key = n \<and> 0 < i then Some (JInt i) else None)"
  "map_of (field_pairs (opt_num dp n x)) key = (if key = n \<and> number_set x then Some (JLit (number_text dp x)) else None)"
  by (simp_all add: opt_def clp_def opt_int_def opt_num_def JInt_def)

lemma pairs_concat_None:
  "list_all (\<lambda>F. map_of (field_pairs F) k = None) Fs \<Longrightarrow> map_of (field_pairs (concat Fs)) k = None"
  by (induction Fs) (simp_all add: map_add_def)

lemma breadcrumb_pairs: "k \<notin> nested_keys \<Longrightarrow> map_of (field_pairs (breadcrumb_fields cs)) k = None"
proof -
  assume k: "k \<notin> nested_keys"
  have "map_of (pairs (crumb_json c)) k = None" for c
    using k by (auto simp: crumb_json_def clp_def nested_keys_def)
  then have "map_of (elem_pairs (map crumb_json cs)) k = None" by (induction cs) (simp_all add: map_add_def)
  with k show ?thesis by (simp add: breadcrumb_fields_def nested_keys_def)
qed

lemma device_pairs: "k \<notin> nested_keys \<Longrightarrow> map_of (field_pairs (device_field dp d)) k = None"
proof -
  assume k: "k \<notin> nested_keys"
  then have "map_of (field_pairs (device_fields dp d)) k = None"
    unfolding device_fields_def
    by (intro pairs_concat_None) (simp add: nested_keys_def JBool_def)
  with k show ?thesis by (simp add: device_field_def nested_keys_def)
qed

lemma crash_pairs:
  "map_of (field_pairs (crash_fields dp p)) ''log'' = Some (JBool (cp_log p))"
  "map_of (field_pairs (crash_fields dp p)) ''userId'' =
    (if cp_user_id p \<noteq> [] then Some (JStr (utf8_safe_truncate (cp_user_id p) 128)) else None)"
  "map_of (field_pairs (crash_fields dp p)) ''sessionId'' =
    (if cp_session_id p \<noteq> [] then Some (JStr (utf8_safe_truncate (cp_session_id p) 64)) else None)"
  "map_of (field_pairs (crash_fields dp p)) ''priorUserId'' =
    (if cp_prior_user_id p \<noteq> [] then Some (JStr (utf8_safe_truncate (cp_prior_user_id p) 128)) else None)"
  by (simp_all add: crash_fields_def context_fields_def spine_fields_def map_add_def breadcrumb_pairs
      device_pairs nested_keys_def JBool_def)

lemma bug_report_pairs:
  "map_of (field_pairs (bug_report_fields dp p)) ''log'' = Some (JBool (br_log p))"
  by (simp add: bug_report_fields_def context_fields_def spine_fields_def map_add_def breadcrumb_pairs
      device_pairs nested_keys_def JBool_def)

section \<open>The metadata clamp\<close>

text \<open>The pairs the loop can use, already truncated.\<close>

fun usable_pairs :: "(cstr \<times> cstr) list \<Rightarrow> (string \<times> string) list" where
  "usable_pairs [] = []"
| "usable_pairs ((k, v) # rest) =
    (if cstr_blank k \<or> cstr_blank v then usable_pairs rest
     else (utf8_safe_truncate (cstr_or_empty k) 64, utf8_safe_truncate (cstr_or_empty v) 512) # usable_pairs rest)"

lemma replace_value_update:
  "replace_value k v es = (if k \<in> fst ` set es then Some (AList.update k v es) else None)"
  by (induction es) auto

lemma length_alist_update:
  "length (AList.update k v al) = (if k \<in> fst ` set al then length al else Suc (length al))"
  by (induction al) auto

lemma update_new: "k \<notin> fst ` set es \<Longrightarrow> es @ [(k, v)] = AList.update k v es"
  by (induction es) auto

definition metadata_ok :: "user_metadata \<Rightarrow> bool" where
  "metadata_ok es \<longleftrightarrow> length es \<le> 16 \<and> distinct (map fst es) \<and>
    list_all (\<lambda>(k, v). length k \<le> 64 \<and> length v \<le> 512) es"

lemma metadata_ok_update:
  "metadata_ok es \<Longrightarrow> length k \<le> 64 \<Longrightarrow> length v \<le> 512 \<Longrightarrow> k \<in> fst ` set es \<or> length es < 16 \<Longrightarrow>
    metadata_ok (AList.update k v es)"
proof -
  assume ok: "metadata_ok es" and k: "length k \<le> 64" "length v \<le> 512" "k \<in> fst ` set es \<or> length es < 16"
  have "set (AList.update k v es) \<subseteq> insert (k, v) (set es)"
    by (induction es) auto
  with ok k show ?thesis
    by (auto simp: metadata_ok_def length_alist_update distinct_update list_all_iff)
qed

lemma clamp_loop_ok: "metadata_ok out \<Longrightarrow> metadata_ok (clamp_metadata_loop ps out)"
proof (induction ps out rule: clamp_metadata_loop.induct)
  case (2 k v rest out)
  let ?k = "utf8_safe_truncate (cstr_or_empty k) 64"
  let ?v = "utf8_safe_truncate (cstr_or_empty v) 512"
  have len: "length ?k \<le> 64" "length ?v \<le> 512" by (simp_all add: truncate_length)
  show ?case
  proof (cases "cstr_blank k \<or> cstr_blank v")
    case True
    with 2 show ?thesis by auto
  next
    case False
    show ?thesis
    proof (cases "?k \<in> fst ` set out")
      case True
      with 2(4) [OF _ _ refl refl] False metadata_ok_update [OF 2(5) len] 2(3) show ?thesis
        using 2 by (auto simp: limit_defs replace_value_update Let_def)
    next
      case new: False
      show ?thesis
      proof (cases "length out < 16")
        case True
        then have "metadata_ok (out @ [(?k, ?v)])"
          using metadata_ok_update [OF 2(5) len] by (simp add: update_new [OF new])
        with new False True 2 show ?thesis by (auto simp: limit_defs replace_value_update Let_def)
      qed (use new False 2(5) in \<open>auto simp: limit_defs replace_value_update Let_def\<close>)
    qed
  qed
qed simp

lemma clamp_loop_lookup:
  assumes "card (fst ` set out \<union> fst ` set (usable_pairs ps)) \<le> 16" "distinct (map fst out)"
  shows "map_of (clamp_metadata_loop ps out) = map_of out ++ map_of (rev (usable_pairs ps))"
  using assms
proof (induction ps out rule: clamp_metadata_loop.induct)
  case (2 k v rest out)
  let ?k = "utf8_safe_truncate (cstr_or_empty k) 64"
  let ?v = "utf8_safe_truncate (cstr_or_empty v) 512"
  show ?case
  proof (cases "cstr_blank k \<or> cstr_blank v")
    case True
    with 2 show ?thesis by auto
  next
    case False
    then have us: "usable_pairs ((k, v) # rest) = (?k, ?v) # usable_pairs rest" by simp
    define out' where "out' = AList.update ?k ?v out"
    have keys: "fst ` set out' = insert ?k (fst ` set out)"
      by (simp add: out'_def dom_update flip: image_set)
    have room: "length out < 16" if new: "?k \<notin> fst ` set out"
    proof -
      have "card (insert ?k (fst ` set out)) \<le> card (fst ` set out \<union> fst ` set (usable_pairs ((k, v) # rest)))"
        using us by (intro card_mono) auto
      also have "\<dots> \<le> 16" by (rule "2.prems"(1))
      finally have "card (fst ` set out) < 16" using new by simp
      moreover have "card (fst ` set out) = length out"
        using distinct_card [OF "2.prems"(2)] by simp
      ultimately show ?thesis by simp
    qed
    have step: "clamp_metadata_loop ((k, v) # rest) out = clamp_metadata_loop rest out'"
      using False room
      by (cases "?k \<in> fst ` set out")
        (simp_all add: limit_defs replace_value_update Let_def out'_def update_new not_le)
    have "map_of (clamp_metadata_loop rest out') = map_of out' ++ map_of (rev (usable_pairs rest))"
    proof -
      have card: "card (fst ` set out' \<union> fst ` set (usable_pairs rest)) \<le> 16"
        using "2.prems"(1) us by (simp add: keys)
      have dist: "distinct (map fst out')" using "2.prems"(2) by (simp add: out'_def distinct_update)
      show ?thesis
      proof (cases "?k \<in> fst ` set out")
        case True
        then have "replace_value (utf8_safe_truncate (cstr_or_empty k) limit_user_metadata_key)
            (utf8_safe_truncate (cstr_or_empty v) limit_user_metadata_value) out = Some out'"
          by (simp add: limit_defs replace_value_update out'_def)
        from "2.IH"(4) [OF _ _ refl refl this card dist] False show ?thesis by simp
      next
        case new: False
        then show ?thesis
          using "2.IH"(3) [OF _ _ refl refl] False card dist room
          by (auto simp: limit_defs replace_value_update out'_def update_new Let_def)
      qed
    qed
    then show ?thesis
      unfolding step us by (auto simp: out'_def update_conv' map_add_def fun_eq_iff split: option.split)
  qed
qed simp

section \<open>Properties\<close>

text \<open>C33. Every ingest body is exactly the JSON text of its schema's fields, in schema order, with
  absent optionals omitted and strings cut to their maxima, whatever bytes the strings hold: the
  writer's calls leave no stray comma, no unbalanced scope and no empty-string optional.\<close>

theorem bodies_are_their_fields:
  "build_crash_json dp c = render (JObj (crash_fields dp c)) \<and>
   build_bug_report_json dp b = render (JObj (bug_report_fields dp b)) \<and>
   build_event_json e = render (JObj (event_fields e)) \<and>
   build_metric_json dp m = render (JObj (metric_fields dp m)) \<and>
   build_heartbeat_json dp h = render (JObj (heartbeat_fields dp h)) \<and>
   build_batch_envelope t items =
     render (JObj [(''sentAtIso'', JStr t), (''items'', JArr (map JLit items))])"
  by (simp only: json_shape simp_thms)

text \<open>C27. The decision to send a log survives the trip to disk: the recovery code asks the stored
  crash body for its \<open>log\<close> flag with the substring scanner, and finds exactly the flag the body was
  built with, even when messages, traces, breadcrumbs or device strings hold text that looks like
  such a field. The same holds for the bug-report body and for the crash body's user id.\<close>

theorem stored_body_flags:
  assumes "device_numbers_ok dp (cp_device p)" "device_numbers_ok dp (br_device b)"
  shows "find_bool_field (build_crash_json dp p) ''log'' = Some (cp_log p) \<and>
    find_bool_field (build_bug_report_json dp b) ''log'' = Some (br_log b) \<and>
    find_string_field (build_crash_json dp p) ''userId'' =
      (if cp_user_id p = [] then None else Some (utf8_safe_truncate (cp_user_id p) 128))"
proof -
  have log: "plain_key ''log''" and user: "plain_key ''userId''"
    by (rule body_key_plain, simp add: body_keys_def)+
  have tidy: "tidy (JObj (crash_fields dp p))" "tidy (JObj (bug_report_fields dp b))"
    using tidy_crash [OF assms(1)] tidy_bug_report [OF assms(2)] by simp_all
  show ?thesis
    using find_bool_document [OF log tidy(1) crash_pairs(1)]
      find_bool_document [OF log tidy(2) bug_report_pairs] find_string_document [OF user tidy(1)]
    by (simp add: json_shape crash_pairs(2) del: render.simps)
qed

text \<open>A payload for the witness: quotes and a fake field inside the free text.\<close>

definition sample_crash :: crash_payload where
  "sample_crash =
    \<lparr>cp_occurred_at_iso = ''t'', cp_build_version = ''1'', cp_os = ''linux'', cp_arch = ''x64'',
     cp_signature = ''s'', cp_stack_hint = CHR 0x22 # ''log'' @ [CHR 0x22] @ '':false'', cp_stack_trace = [],
     cp_breadcrumbs = [], cp_user_id = ''u'', cp_prior_user_id = [], cp_steam_id = [], cp_log = True,
     cp_role = [], cp_server_id = [], cp_match_id = [], cp_session_id = [], cp_environment = [],
     cp_device = no_device, cp_crash_type = [], cp_os_signal = 0\<rparr>"

definition sample_bug :: bug_report_payload where
  "sample_bug =
    \<lparr>br_occurred_at_iso = ''t'', br_build_version = ''1'', br_os = ''linux'', br_arch = ''x64'',
     br_category = [], br_message = ''m'', br_user_id = ''u'', br_prior_user_id = [], br_steam_id = [],
     br_breadcrumbs = [], br_log = False, br_role = [], br_server_id = [], br_match_id = [],
     br_session_id = [], br_environment = [], br_device = no_device\<rparr>"

theorem stored_body_flags_witness:
  "find_bool_field (build_crash_json ''.'' sample_crash) ''log'' = Some True \<and>
   find_bool_field (build_bug_report_json '','' sample_bug) ''log'' = Some False"
proof -
  have "device_numbers_ok ''.'' no_device" "device_numbers_ok '','' no_device" by code_simp+
  then show ?thesis
    using stored_body_flags [of "''.''" sample_crash sample_bug] stored_body_flags [of "'',''" sample_crash sample_bug]
    by (simp add: sample_crash_def sample_bug_def)
qed

text \<open>C32. The metadata map handed to the wire always has at most 16 entries with distinct keys of
  at most 64 bytes and values of at most 512; and as long as the caller's usable keys number at most
  16, each key carries the last value the caller gave for it.\<close>

theorem metadata_clamp_contract:
  "metadata_ok (clamp_user_metadata ks vs) \<and>
   (case (ks, vs) of
      (Some k, Some v) \<Rightarrow>
        card (fst ` set (usable_pairs (zip k v))) \<le> 16 \<longrightarrow>
          map_of (clamp_user_metadata ks vs) = map_of (rev (usable_pairs (zip k v)))
    | _ \<Rightarrow> clamp_user_metadata ks vs = [])"
proof -
  have "metadata_ok []" by (simp add: metadata_ok_def)
  then show ?thesis
    using clamp_loop_lookup [of "[]"] by (auto simp: clamp_user_metadata_def clamp_loop_ok split: option.splits)
qed

theorem metadata_clamp_contract_witness:
  "map_of (clamp_user_metadata (Some [Some ''k'', None, Some ''k'']) (Some [Some ''1'', Some ''2'', Some ''3''])) ''k'' =
    Some ''3''"
  using metadata_clamp_contract [of "Some [Some ''k'', None, Some ''k'']" "Some [Some ''1'', Some ''2'', Some ''3'']"]
  by (simp add: card_insert_if)

text \<open>Past sixteen keys the promise "a duplicate key updates in place (last value wins)" fails:
  the seventeenth key ends the loop, so a later update of a key already in the table is lost.\<close>

definition many_keys :: "cstr list" where
  "many_keys = map (\<lambda>c. Some [c]) ''abcdefghijklmnopqa''"

definition many_values :: "cstr list" where
  "many_values = replicate 17 (Some ''old'') @ [Some ''new'']"

theorem metadata_update_lost:
  "last (zip many_keys many_values) = (Some ''a'', Some ''new'') \<and>
   map_of (clamp_user_metadata (Some many_keys) (Some many_values)) ''a'' = Some ''old''"
  by code_simp

text \<open>A pull request is honoured only by the client it names: the target value is not empty and
  equals the client's own value of the named kind; an anonymous client is never pulled by a user
  request, and an unknown target type reaches nobody.\<close>

theorem pull_targets_only_self:
  "pull_request_targets_client ty v user session mtch server \<longleftrightarrow>
    v \<noteq> [] \<and> map_of [(''userId'', user), (''sessionId'', session), (''matchId'', mtch), (''server'', server)] ty = Some v"
  by (auto simp: pull_request_targets_client_def)

end
