(* ===== verification/Device_Identity.thy ===== *)
theory Device_Identity
  imports Tomb_Prelude
begin

text \<open>
  \<^verbatim>\<open>src/device_identity.cpp\<close>: FNV-1a over 64-bit words, the derived provisional user id and the
  plausibility gate on an id read back from disk. The identity file itself is handled by the
  client (theory \<open>Client\<close>).
\<close>

unbundle bit_operations_syntax

definition fnv_offset_basis :: "64 word" where
  "fnv_offset_basis = 14695981039346656037"

definition fnv_prime :: "64 word" where
  "fnv_prime = 1099511628211"

definition id_prefix :: string where
  "id_prefix = ''dev_''"

definition max_id_length :: nat where
  "max_id_length = 40"

primrec fnv1a64_append :: "64 word \<Rightarrow> string \<Rightarrow> 64 word" where
  "fnv1a64_append h [] = h"
| "fnv1a64_append h (c # bytes) = fnv1a64_append ((h XOR of_char c) * fnv_prime) bytes"

definition fnv1a64 :: "string \<Rightarrow> 64 word" where
  "fnv1a64 bytes = fnv1a64_append fnv_offset_basis bytes"

text \<open>Sixteen lowercase digits, most significant nibble first.\<close>

definition hex64 :: "64 word \<Rightarrow> string" where
  "hex64 h = map (\<lambda>i. hex_digits ! unat (drop_bit (60 - 4 * i) h AND 0xF)) [0..<16]"

definition derive :: "string \<Rightarrow> string \<Rightarrow> string" where
  "derive salt machine_source =
    (let h = fnv1a64_append fnv_offset_basis salt;
         h = fnv1a64_append h ''|'';
         h = fnv1a64_append h machine_source
     in id_prefix @ hex64 h)"

definition id_char :: "char \<Rightarrow> bool" where
  "id_char c \<longleftrightarrow> CHR ''a'' \<le> c \<and> c \<le> CHR ''z'' \<or> CHR ''0'' \<le> c \<and> c \<le> CHR ''9'' \<or>
    c = CHR ''_'' \<or> c = CHR ''-''"

definition is_valid :: "string \<Rightarrow> bool" where
  "is_valid ident \<longleftrightarrow>
    (if length ident \<le> length id_prefix \<or> max_id_length < length ident then False
     else if take (length id_prefix) ident \<noteq> id_prefix then False
     else list_all id_char (drop (length id_prefix) ident))"

section \<open>Lemmas\<close>

lemma fnv1a64_append_append:
  "fnv1a64_append h (xs @ ys) = fnv1a64_append (fnv1a64_append h xs) ys"
  by (induction xs arbitrary: h) simp_all

lemma length_hex64 [simp]: "length (hex64 h) = 16"
  by (simp add: hex64_def)

lemma nibble_bound: "unat ((x :: 64 word) AND 0xF) < 16"
proof -
  have "x AND 0xF = take_bit 4 x" by (simp add: take_bit_eq_mask mask_eq_exp_minus_1)
  then have "unat (x AND 0xF) = take_bit 4 (unat x)" by (simp add: unsigned_take_bit_eq)
  also have "\<dots> < 2 ^ 4" by (rule take_bit_nat_less_exp)
  finally show ?thesis by simp
qed

lemma hex64_lower: "list_all is_lower_hex (hex64 h)"
  by (simp add: hex64_def list_all_iff nibble_bound)

lemma lower_hex_id_char: "is_lower_hex c \<Longrightarrow> id_char c"
  by (auto simp: is_lower_hex_def id_char_def is_digit_def char_le_iff)

text \<open>The digits read back as the word: no two words share their sixteen digits.\<close>

lemma hex_digits_distinct: "distinct hex_digits"
  by (simp add: hex_digits_def)

lemma hex64_inject [simp]: "hex64 g = hex64 h \<longleftrightarrow> g = h"
proof
  assume eq: "hex64 g = hex64 h"
  have nibble: "drop_bit (60 - 4 * i) g AND 0xF = drop_bit (60 - 4 * i) h AND 0xF" if "i < 16" for i
  proof -
    from eq that have "hex_digits ! unat (drop_bit (60 - 4 * i) g AND 0xF) =
        hex_digits ! unat (drop_bit (60 - 4 * i) h AND 0xF)"
      unfolding hex64_def by (simp add: map_eq_conv)
    then have "unat (drop_bit (60 - 4 * i) g AND 0xF) = unat (drop_bit (60 - 4 * i) h AND 0xF)"
      using hex_digits_distinct nibble_bound by (simp add: nth_eq_iff_index_eq)
    then show ?thesis by (simp add: word_unat_eq_iff)
  qed
  show "g = h"
  proof (rule bit_word_eqI)
    fix n assume "n < LENGTH(64)"
    then have n: "n < 64" by simp
    define i where "i = 15 - n div 4"
    have i: "i < 16" "60 - 4 * i = 4 * (n div 4)" using n by (simp_all add: i_def algebra_simps)
    have "bit (drop_bit (4 * (n div 4)) g AND 0xF) (n mod 4) = bit (drop_bit (4 * (n div 4)) h AND 0xF) (n mod 4)"
      using nibble [OF i(1)] i(2) by simp
    moreover have "bit (0xF :: 64 word) (n mod 4)"
    proof -
      have "n mod 4 \<in> {0, 1, 2, 3}" by auto
      then show ?thesis by (auto simp: bit_numeral_rec)
    qed
    ultimately show "bit g n = bit h n" by (simp add: bit_and_iff bit_drop_bit_eq)
  qed
qed simp

section \<open>Properties\<close>

text \<open>A derived id is the hex FNV-1a digest of \<open>salt|machine\<close> behind the prefix, it has 20
  characters, it passes the gate that the identity file is read through, and two games (salts)
  share an id on a machine only if the digests collide.\<close>

theorem derive_correct:
  "derive salt src = ''dev_'' @ hex64 (fnv1a64 (salt @ ''|'' @ src)) \<and>
   length (derive salt src) = 20 \<and> is_valid (derive salt src) \<and>
   (derive salt src = derive salt' src' \<longleftrightarrow>
     fnv1a64 (salt @ ''|'' @ src) = fnv1a64 (salt' @ ''|'' @ src'))"
proof -
  have d: "derive s m = ''dev_'' @ hex64 (fnv1a64 (s @ ''|'' @ m))" for s m
    by (simp add: derive_def fnv1a64_def fnv1a64_append_append id_prefix_def Let_def)
  have "list_all id_char (hex64 h)" for h
    using hex64_lower [of h] lower_hex_id_char by (auto simp: list_all_iff)
  then show ?thesis by (simp add: d is_valid_def id_prefix_def max_id_length_def)
qed

end
