(* ===== verification/Carry.thy ===== *)
theory Carry
  imports Payloads Device_Identity
begin

text \<open>
  What rides on heartbeats until one of them is acknowledged: the \<open>priorUserId\<close> merge marker, the
  per-user metadata map and the device description (\<^verbatim>\<open>src/client.cpp\<close>: the beat build in
  \<open>heartbeat_loop\<close> and the commits in \<open>handle_heartbeat_ack\<close>; \<^verbatim>\<open>src/client_reports.cpp\<close>: \<open>set_user\<close>).
  Each record holds the members the code guards with one mutex; each function is one critical
  section.
\<close>

section \<open>The interface\<close>

text \<open>
  \<open>todo\<close> is the value still to be delivered, \<open>beat\<close> builds a heartbeat (what it carries, the new
  state), \<open>ack\<close> handles the answer to the last heartbeat. A beat that is lost is never
  acknowledged.
\<close>

locale carry_until_acked =
  fixes todo :: "'s \<Rightarrow> 'v option"
    and beat :: "'s \<Rightarrow> 'v option \<times> 's"
    and ack :: "'s \<Rightarrow> 's"
  assumes beat_carries: "fst (beat s) = todo s"
    and beat_keeps: "todo (snd (beat s)) = todo s"
    and ack_commits: "todo s \<noteq> None \<Longrightarrow> todo (ack (snd (beat s))) = None"
begin

definition lost :: "'s \<Rightarrow> 's" where
  "lost s = snd (beat s)"

lemma todo_lost: "todo ((lost ^^ n) s) = todo s"
  by (induction n) (simp_all add: lost_def beat_keeps)

lemma lost_beat_recarries: "fst (beat ((lost ^^ n) s)) = todo s"
  by (simp add: beat_carries todo_lost)

lemma acked_beat_settles: "todo s \<noteq> None \<Longrightarrow> todo (ack (snd (beat ((lost ^^ n) s)))) = None"
  by (intro ack_commits) (simp add: todo_lost)

lemma settled_stays_silent: "todo s = None \<Longrightarrow> fst (beat ((lost ^^ n) s)) = None"
  by (simp add: lost_beat_recarries)

lemma delivered_then_silent:
  assumes "todo s \<noteq> None"
  shows "fst (beat ((lost ^^ n) s)) = todo s \<and>
    fst (beat ((lost ^^ m) (ack (snd (beat ((lost ^^ n) s)))))) = None"
  using lost_beat_recarries settled_stays_silent [OF acked_beat_settles [OF assms]] by blast

end

section \<open>Identity\<close>

record identity =
  id_user :: string
  id_steam :: string
  id_provisional :: string
  id_pending_prior :: string
  id_prior_in_flight :: string

definition new_identity :: identity where
  "new_identity = \<lparr>id_user = [], id_steam = [], id_provisional = [], id_pending_prior = [], id_prior_in_flight = []\<rparr>"

record user_data =
  ud_entries :: user_metadata
  ud_acked :: string
  ud_epoch :: int
  ud_in_flight :: string
  ud_in_flight_epoch :: int

definition new_user_data :: user_data where
  "new_user_data = \<lparr>ud_entries = [], ud_acked = ''{}'', ud_epoch = 0, ud_in_flight = [], ud_in_flight_epoch = - 1\<rparr>"

definition clamped :: "cstr \<Rightarrow> nat \<Rightarrow> string" where
  "clamped v max_bytes = (case v of None \<Rightarrow> [] | Some s \<Rightarrow> utf8_safe_truncate s max_bytes)"

definition current_user_id :: "identity \<Rightarrow> string" where
  "current_user_id i = (if id_user i = [] then id_provisional i else id_user i)"

definition current_prior_user_id :: "identity \<Rightarrow> string" where
  "current_prior_user_id i = id_pending_prior i"

definition switch_user_data :: "string \<Rightarrow> string \<Rightarrow> user_data \<Rightarrow> user_data" where
  "switch_user_data old next m =
    (if next \<noteq> old
     then let m = (if old \<noteq> [] then m\<lparr>ud_entries := []\<rparr> else m)
          in m\<lparr>ud_acked := ''{}'', ud_epoch := ud_epoch m + 1\<rparr>
     else m)"

definition set_user :: "cstr \<Rightarrow> cstr \<Rightarrow> identity \<times> user_data \<Rightarrow> identity \<times> user_data" where
  "set_user user_id steam_id = (\<lambda>(i, m).
    let next = clamped user_id limit_user_id;
        m = switch_user_data (id_user i) next m;
        i = (if next = [] then i\<lparr>id_pending_prior := []\<rparr>
             else if id_provisional i \<noteq> [] \<and> next \<noteq> id_provisional i
             then (if (if id_user i = [] then id_provisional i else id_user i) = id_provisional i
                   then i\<lparr>id_pending_prior := id_provisional i\<rparr> else i)
             else i)
    in (i\<lparr>id_user := next, id_steam := clamped steam_id limit_steam_id\<rparr>, m))"

text \<open>The beat's identity snapshot: the effective user id, the prior id, and the new state.\<close>

definition beat_prior :: "identity \<Rightarrow> string \<times> identity" where
  "beat_prior i =
    (if id_pending_prior i \<noteq> [] then (id_pending_prior i, i\<lparr>id_prior_in_flight := id_pending_prior i\<rparr>)
     else ([], i))"

definition ack_prior :: "identity \<Rightarrow> identity" where
  "ack_prior i =
    (let i = (if id_prior_in_flight i \<noteq> [] \<and> id_prior_in_flight i = id_pending_prior i
              then i\<lparr>id_pending_prior := []\<rparr> else i)
     in i\<lparr>id_prior_in_flight := []\<rparr>)"

section \<open>Metadata\<close>

definition set_user_metadata :: "cstr list option \<Rightarrow> cstr list option \<Rightarrow> user_data \<Rightarrow> user_data" where
  "set_user_metadata keys vals m = m\<lparr>ud_entries := clamp_user_metadata keys vals\<rparr>"

text \<open>The empty string when the beat carries no metadata object.\<close>

definition beat_metadata :: "user_data \<Rightarrow> string \<times> user_data" where
  "beat_metadata m =
    (let current = build_user_metadata_json (ud_entries m) in
     if current \<noteq> ud_acked m
     then (current, m\<lparr>ud_in_flight := current, ud_in_flight_epoch := ud_epoch m\<rparr>)
     else ([], m))"

definition ack_metadata :: "user_data \<Rightarrow> user_data" where
  "ack_metadata m =
    (let m = (if ud_in_flight_epoch m = ud_epoch m \<and> ud_in_flight m \<noteq> []
              then m\<lparr>ud_acked := ud_in_flight m\<rparr> else m)
     in m\<lparr>ud_in_flight := [], ud_in_flight_epoch := - 1\<rparr>)"

section \<open>Device description\<close>

record device_state =
  ds_device :: device_payload
  ds_sent :: bool
  ds_in_flight :: bool

definition new_device_state :: device_state where
  "new_device_state = \<lparr>ds_device = no_device, ds_sent = False, ds_in_flight = False\<rparr>"

definition change_device :: "device_payload \<Rightarrow> device_state \<Rightarrow> device_state" where
  "change_device copy d = d\<lparr>ds_device := copy, ds_sent := False, ds_in_flight := False\<rparr>"

text \<open>The device a beat carries, when it does.\<close>

definition beat_device :: "device_state \<Rightarrow> device_payload option \<times> device_state" where
  "beat_device d =
    (if \<not> ds_sent d \<and> device_has_content (ds_device d)
     then (Some (ds_device d), d\<lparr>ds_in_flight := True\<rparr>) else (None, d))"

definition ack_device :: "device_state \<Rightarrow> device_state" where
  "ack_device d = (if ds_in_flight d then d\<lparr>ds_sent := True, ds_in_flight := False\<rparr> else d)"

section \<open>The three carries meet the interface\<close>

definition some_text :: "string \<Rightarrow> string option" where
  "some_text s = (if s = [] then None else Some s)"

definition prior_todo :: "identity \<Rightarrow> string option" where
  "prior_todo i = some_text (id_pending_prior i)"

definition prior_beat :: "identity \<Rightarrow> string option \<times> identity" where
  "prior_beat i = map_prod some_text id (beat_prior i)"

definition metadata_todo :: "user_data \<Rightarrow> string option" where
  "metadata_todo m =
    (if build_user_metadata_json (ud_entries m) \<noteq> ud_acked m
     then Some (build_user_metadata_json (ud_entries m)) else None)"

definition metadata_beat :: "user_data \<Rightarrow> string option \<times> user_data" where
  "metadata_beat m = map_prod some_text id (beat_metadata m)"

definition device_todo :: "device_state \<Rightarrow> device_payload option" where
  "device_todo d = (if \<not> ds_sent d \<and> device_has_content (ds_device d) then Some (ds_device d) else None)"

lemma metadata_json_nonempty [simp]: "build_user_metadata_json entries \<noteq> []"
  by (simp add: user_metadata_render)

interpretation prior: carry_until_acked prior_todo prior_beat ack_prior
  by unfold_locales (auto simp: prior_todo_def prior_beat_def beat_prior_def ack_prior_def some_text_def Let_def)

interpretation metadata: carry_until_acked metadata_todo metadata_beat ack_metadata
  by unfold_locales
    (auto simp: metadata_todo_def metadata_beat_def beat_metadata_def ack_metadata_def some_text_def Let_def)

interpretation device: carry_until_acked device_todo beat_device ack_device
  by unfold_locales (auto simp: device_todo_def beat_device_def ack_device_def)

lemma lost_beats [simp]:
  "prior.lost = (\<lambda>i. snd (beat_prior i))" "metadata.lost = (\<lambda>m. snd (beat_metadata m))"
  "device.lost = (\<lambda>d. snd (beat_device d))"
  by (simp_all add: fun_eq_iff prior.lost_def prior_beat_def metadata.lost_def metadata_beat_def device.lost_def)

lemma some_text_iff [simp]: "some_text s = None \<longleftrightarrow> s = []" "some_text s = Some t \<longleftrightarrow> s = t \<and> t \<noteq> []"
  "some_text s = some_text t \<longleftrightarrow> s = t"
  by (auto simp: some_text_def)

section \<open>Runs\<close>

datatype identity_op =
    SetUser cstr cstr
  | SetMetadata "cstr list option" "cstr list option"
  | BuildBeat
  | AckBeat

fun identity_step :: "identity_op \<Rightarrow> identity \<times> user_data \<Rightarrow> identity \<times> user_data" where
  "identity_step (SetUser user_id steam_id) s = set_user user_id steam_id s"
| "identity_step (SetMetadata keys vals) (i, m) = (i, set_user_metadata keys vals m)"
| "identity_step BuildBeat (i, m) = (snd (beat_prior i), snd (beat_metadata m))"
| "identity_step AckBeat (i, m) = (ack_prior i, ack_metadata m)"

definition identity_ok :: "string \<Rightarrow> identity \<Rightarrow> bool" where
  "identity_ok prov i \<longleftrightarrow>
    id_provisional i = prov \<and> length (id_user i) \<le> 128 \<and> length (id_steam i) \<le> 32 \<and>
    (id_pending_prior i = [] \<or> id_pending_prior i = prov \<and> id_user i \<noteq> [])"

lemma length_clamped: "length (clamped v n) \<le> n"
  by (simp add: clamped_def truncate_length split: option.split)

lemma set_user_ok: "identity_ok prov i \<Longrightarrow> identity_ok prov (fst (set_user u s (i, m)))"
  using length_clamped [of u 128] length_clamped [of s 32]
  by (auto simp: identity_ok_def set_user_def Let_def limit_defs)

lemma identity_step_ok: "identity_ok prov (fst s) \<Longrightarrow> identity_ok prov (fst (identity_step op s))"
  by (cases op; cases s)
    (auto simp: set_user_ok, auto simp: identity_ok_def beat_prior_def ack_prior_def Let_def)

section \<open>Properties\<close>

text \<open>C16. Carried until acknowledged: the merge marker, the metadata map and the device description each
  ride, unchanged, on every heartbeat after any number of lost ones, and once a beat carrying
  them is acknowledged no later beat repeats them (until a new value is set).\<close>

theorem carried_until_acked:
  "(id_pending_prior i \<noteq> [] \<longrightarrow>
      (let lost = (\<lambda>i. snd (beat_prior i)); b = beat_prior ((lost ^^ n) i) in
        fst b = id_pending_prior i \<and> fst (beat_prior ((lost ^^ k) (ack_prior (snd b)))) = [])) \<and>
   (build_user_metadata_json (ud_entries m) \<noteq> ud_acked m \<longrightarrow>
      (let lost = (\<lambda>m. snd (beat_metadata m)); b = beat_metadata ((lost ^^ n) m) in
        fst b = build_user_metadata_json (ud_entries m) \<and>
        fst (beat_metadata ((lost ^^ k) (ack_metadata (snd b)))) = [])) \<and>
   (\<not> ds_sent d \<and> device_has_content (ds_device d) \<longrightarrow>
      (let lost = (\<lambda>d. snd (beat_device d)); b = beat_device ((lost ^^ n) d) in
        fst b = Some (ds_device d) \<and> fst (beat_device ((lost ^^ k) (ack_device (snd b)))) = None))"
proof (intro conjI impI)
  assume "id_pending_prior i \<noteq> []"
  then have "prior_todo i \<noteq> None" by (simp add: prior_todo_def)
  from prior.delivered_then_silent [OF this, of n k]
  show "let lost = (\<lambda>i. snd (beat_prior i)); b = beat_prior ((lost ^^ n) i) in
      fst b = id_pending_prior i \<and> fst (beat_prior ((lost ^^ k) (ack_prior (snd b)))) = []"
    by (simp add: prior_todo_def prior_beat_def Let_def)
next
  assume "build_user_metadata_json (ud_entries m) \<noteq> ud_acked m"
  then have todo: "metadata_todo m = Some (build_user_metadata_json (ud_entries m))" by (simp add: metadata_todo_def)
  then have "metadata_todo m \<noteq> None" by simp
  from metadata.delivered_then_silent [OF this, of n k]
  show "let lost = (\<lambda>m. snd (beat_metadata m)); b = beat_metadata ((lost ^^ n) m) in
      fst b = build_user_metadata_json (ud_entries m) \<and>
      fst (beat_metadata ((lost ^^ k) (ack_metadata (snd b)))) = []"
    by (simp add: todo metadata_beat_def Let_def)
next
  assume "\<not> ds_sent d \<and> device_has_content (ds_device d)"
  then have todo: "device_todo d = Some (ds_device d)" by (simp add: device_todo_def)
  then have "device_todo d \<noteq> None" by simp
  from device.delivered_then_silent [OF this, of n k]
  show "let lost = (\<lambda>d. snd (beat_device d)); b = beat_device ((lost ^^ n) d) in
      fst b = Some (ds_device d) \<and> fst (beat_device ((lost ^^ k) (ack_device (snd b)))) = None"
    by (simp add: todo Let_def)
qed

theorem carried_until_acked_witness:
  "fst (beat_prior (ack_prior (snd (beat_prior (new_identity\<lparr>id_pending_prior := ''dev_1''\<rparr>))))) = []"
  using carried_until_acked [of "new_identity\<lparr>id_pending_prior := ''dev_1''\<rparr>" 0 0]
  by (simp add: Let_def)

text \<open>Once the provisional id is acquired the SDK is never anonymous: over any sequence of logins,
  logouts, metadata changes, beats and acknowledgements the effective user id is non-empty and
  within the wire limit, and a merge marker is pending only while a real user is logged in and
  always names the provisional id, so logged-out telemetry is never merged into anyone.\<close>

theorem identity_never_anonymous:
  fixes i :: identity and m :: user_data and ops :: "identity_op list"
  assumes "id_provisional i = prov" "prov \<noteq> []" "length prov \<le> 128" "id_user i = []" "id_steam i = []"
    "id_pending_prior i = []"
  defines "i' \<equiv> fst (fold identity_step ops (i, m))"
  shows "current_user_id i' \<noteq> [] \<and> length (current_user_id i') \<le> 128 \<and>
    (fst (beat_prior i') = [] \<or> fst (beat_prior i') = prov \<and> id_user i' \<noteq> [])"
proof -
  have "identity_ok prov (fst (fold identity_step ops s))" if "identity_ok prov (fst s)" for s
    using that by (induction ops arbitrary: s) (simp_all add: identity_step_ok)
  moreover have "identity_ok prov i" using assms by (simp add: identity_ok_def)
  ultimately have "identity_ok prov i'" by (simp add: i'_def)
  then show ?thesis using assms(2,3) by (auto simp: identity_ok_def current_user_id_def beat_prior_def)
qed

theorem identity_never_anonymous_witness:
  "current_user_id (fst (fold identity_step [SetUser (Some ''u'') None, BuildBeat, SetUser None None, AckBeat]
     (new_identity\<lparr>id_provisional := ''dev_1''\<rparr>, new_user_data))) \<noteq> []"
  using identity_never_anonymous [of "new_identity\<lparr>id_provisional := ''dev_1''\<rparr>" "''dev_1''"
      "[SetUser (Some ''u'') None, BuildBeat, SetUser None None, AckBeat]" new_user_data]
  by (simp add: new_identity_def)

text \<open>One player's metadata never reaches the next: a change of user away from a real id empties the
  map, a first login keeps it; either way the new identity starts from the empty baseline, and the
  late acknowledgement of a beat built before the change does not move that baseline.\<close>

theorem user_switch_metadata:
  fixes i :: identity and m :: user_data and u s :: cstr
  assumes "ud_in_flight_epoch m \<le> ud_epoch m" "clamped u limit_user_id \<noteq> id_user i"
  defines "m' \<equiv> snd (set_user u s (i, snd (beat_metadata m)))"
  shows "ud_entries m' = (if id_user i = [] then ud_entries m else []) \<and>
    ud_acked (ack_metadata m') = ''{}'' \<and>
    (fst (beat_metadata (ack_metadata m')) = [] \<longleftrightarrow> ud_entries m' = [])"
proof -
  have json: "build_user_metadata_json es = ''{}'' \<longleftrightarrow> es = []" for es
    by (cases es) (auto simp: user_metadata_render build_user_metadata_json_def)
  have "ud_in_flight_epoch (snd (beat_metadata m)) \<le> ud_epoch m" "ud_epoch (snd (beat_metadata m)) = ud_epoch m"
    "ud_entries (snd (beat_metadata m)) = ud_entries m"
    using assms(1) by (simp_all add: beat_metadata_def Let_def)
  then show ?thesis
    using assms(2) by (auto simp: m'_def set_user_def switch_user_data_def Let_def ack_metadata_def beat_metadata_def json)
qed

theorem user_switch_metadata_witness:
  "ud_entries (snd (set_user (Some ''b'') None (new_identity\<lparr>id_user := ''a''\<rparr>,
     snd (beat_metadata (new_user_data\<lparr>ud_entries := [(''k'', ''v'')]\<rparr>))))) = []"
  using user_switch_metadata [of "new_user_data\<lparr>ud_entries := [(''k'', ''v'')]\<rparr>" "Some ''b''" "new_identity\<lparr>id_user := ''a''\<rparr>" None]
  by (simp add: new_user_data_def new_identity_def clamped_def limit_defs)

section \<open>Where the commit discipline fails\<close>

text \<open>The metadata commit trusts a stale record: when a beat carrying a new map \<open>b\<close> is lost and the
  map goes back to the acknowledged \<open>a\<close>, the next beat carries nothing, but its acknowledgement
  commits \<open>b\<close>, which the in-flight record still holds. Setting \<open>b\<close> again then sends nothing,
  although no acknowledged beat ever carried it.\<close>

theorem metadata_lost_after_lost_beat:
  assumes "ud_acked m = build_user_metadata_json a" "build_user_metadata_json a \<noteq> build_user_metadata_json b"
  defines "m1 \<equiv> snd (beat_metadata (m\<lparr>ud_entries := b\<rparr>))"
  defines "m2 \<equiv> m1\<lparr>ud_entries := a\<rparr>"
  defines "m3 \<equiv> (ack_metadata (snd (beat_metadata m2)))\<lparr>ud_entries := b\<rparr>"
  shows "fst (beat_metadata m2) = [] \<and> (\<forall>n. fst (beat_metadata (((\<lambda>m. snd (beat_metadata m)) ^^ n) m3)) = [])"
proof -
  have ne: "build_user_metadata_json b \<noteq> ud_acked m" using assms(1,2) by simp
  have m1: "m1 = m\<lparr>ud_entries := b, ud_in_flight := build_user_metadata_json b, ud_in_flight_epoch := ud_epoch m\<rparr>"
    using ne by (simp add: m1_def beat_metadata_def Let_def)
  have quiet: "beat_metadata m2 = ([], m2)" using assms(1) by (simp add: m2_def m1 beat_metadata_def Let_def)
  have "ud_acked m3 = build_user_metadata_json b" "ud_entries m3 = b"
    by (simp_all add: m3_def quiet ack_metadata_def Let_def, simp_all add: m2_def m1)
  then have "metadata_todo m3 = None" by (simp add: metadata_todo_def)
  from metadata.settled_stays_silent [OF this] quiet show ?thesis by (simp add: metadata_beat_def)
qed

theorem metadata_lost_after_lost_beat_witness:
  "fst (beat_metadata ((ack_metadata (snd (beat_metadata
     ((snd (beat_metadata (new_user_data\<lparr>ud_entries := [(''k'', ''v'')]\<rparr>)))\<lparr>ud_entries := []\<rparr>))))\<lparr>ud_entries := [(''k'', ''v'')]\<rparr>)) = []"
proof -
  have "ud_acked new_user_data = build_user_metadata_json []"
    "build_user_metadata_json [] \<noteq> build_user_metadata_json [(''k'', ''v'')]"
    by (simp_all add: new_user_data_def user_metadata_render)
  from metadata_lost_after_lost_beat [OF this, THEN conjunct2, rule_format, of 0] show ?thesis by simp
qed

text \<open>The merge marker's commit compares values, but the marker is always the same provisional id:
  when a player logs in, a beat leaves, the player logs out and another logs in, the late answer
  to the first player's beat clears the second player's marker, and no beat ever carries it.\<close>

theorem prior_cleared_by_late_ack:
  fixes i :: identity and m :: user_data and x y :: cstr
  assumes "id_provisional i = prov" "prov \<noteq> []" "id_user i = []"
    and "clamped x limit_user_id \<noteq> []" "clamped x limit_user_id \<noteq> prov"
    and "clamped y limit_user_id \<noteq> []" "clamped y limit_user_id \<noteq> prov"
  defines "s1 \<equiv> set_user x None (i, m)"
  defines "sent \<equiv> beat_prior (fst s1)"
  defines "s2 \<equiv> set_user y None (set_user None None (snd sent, snd s1))"
  shows "current_user_id (fst s1) = clamped x limit_user_id \<and> fst sent = prov \<and>
    current_user_id (fst s2) = clamped y limit_user_id \<and> fst (beat_prior (fst s2)) = prov \<and>
    fst (beat_prior (ack_prior (fst s2))) = []"
  using assms(1-7)
  by (auto simp: s2_def sent_def s1_def set_user_def Let_def beat_prior_def ack_prior_def current_user_id_def
      switch_user_data_def clamped_def)

theorem prior_cleared_by_late_ack_witness:
  "fst (beat_prior (ack_prior (fst (set_user (Some ''y'') None (set_user None None
     (snd (beat_prior (fst (set_user (Some ''x'') None (new_identity\<lparr>id_provisional := ''dev_1''\<rparr>, new_user_data)))),
      snd (set_user (Some ''x'') None (new_identity\<lparr>id_provisional := ''dev_1''\<rparr>, new_user_data)))))))) = []"
  using prior_cleared_by_late_ack [of "new_identity\<lparr>id_provisional := ''dev_1''\<rparr>" "''dev_1''" "Some ''x''" "Some ''y''" new_user_data]
  by (simp add: new_identity_def clamped_def limit_defs)

text \<open>The device flag does not know which beat an answer belongs to: with a second device set while a
  beat with the first is still queued, the answer to the first beat marks the second device as
  delivered, and if its own beat is lost it is never sent.\<close>

theorem device_marked_by_foreign_ack:
  fixes d :: device_state
  assumes "device_has_content dev1" "device_has_content dev2"
  defines "first \<equiv> beat_device (change_device dev1 d)"
  defines "second \<equiv> beat_device (change_device dev2 (snd first))"
  shows "fst first = Some dev1 \<and> fst second = Some dev2 \<and>
    (\<forall>n. fst (beat_device (((\<lambda>d. snd (beat_device d)) ^^ n) (ack_device (snd second)))) = None)"
proof -
  have sent: "fst first = Some dev1" "fst second = Some dev2" "device_todo (ack_device (snd second)) = None"
    using assms(1,2) by (simp_all add: first_def second_def beat_device_def change_device_def ack_device_def device_todo_def)
  from device.settled_stays_silent [OF sent(3)] sent(1,2) show ?thesis by simp
qed

theorem device_marked_by_foreign_ack_witness:
  "fst (beat_device (ack_device (snd (beat_device (change_device (no_device\<lparr>dv_os := ''b''\<rparr>)
     (snd (beat_device (change_device (no_device\<lparr>dv_os := ''a''\<rparr>) new_device_state)))))))) = None"
proof -
  have "device_has_content (no_device\<lparr>dv_os := ''a''\<rparr>)" "device_has_content (no_device\<lparr>dv_os := ''b''\<rparr>)"
    by (simp_all add: device_has_content_def)
  from device_marked_by_foreign_ack [OF this, of new_device_state, THEN conjunct2, THEN conjunct2, rule_format, of 0]
  show ?thesis by simp
qed

end
