(* ===== verification/Start_Gate.thy ===== *)
theory Start_Gate
  imports Tomb_Prelude
begin

text \<open>
  \<^verbatim>\<open>src/start_gate.h\<close>: the one-way latch that holds heartbeats and batch drains until the
  session is started. Each method is one atomic step on the two flags.
\<close>

record start_gate =
  sg_open :: bool
  sg_requested :: bool

definition new_gate :: start_gate where
  "new_gate = \<lparr>sg_open = True, sg_requested = False\<rparr>"

definition gate_arm :: "bool \<Rightarrow> start_gate \<Rightarrow> start_gate" where
  "gate_arm auto_start g = g\<lparr>sg_open := auto_start \<or> sg_requested g\<rparr>"

text \<open>\<open>set()\<close> returns whether this call opened the gate.\<close>

definition gate_set :: "start_gate \<Rightarrow> bool \<times> start_gate" where
  "gate_set g = (\<not> sg_open g, g\<lparr>sg_requested := True, sg_open := True\<rparr>)"

definition gate_is_set :: "start_gate \<Rightarrow> bool" where
  "gate_is_set g = sg_open g"

section \<open>Runs\<close>

datatype gate_op = Arm bool | SetGate

fun gate_step :: "gate_op \<Rightarrow> start_gate \<Rightarrow> start_gate" where
  "gate_step (Arm b) g = gate_arm b g"
| "gate_step SetGate g = snd (gate_set g)"

fun gate_edges :: "gate_op list \<Rightarrow> start_gate \<Rightarrow> nat" where
  "gate_edges [] g = 0"
| "gate_edges (Arm b # ops) g = gate_edges ops (gate_arm b g)"
| "gate_edges (SetGate # ops) g = (if fst (gate_set g) then 1 else 0) + gate_edges ops (snd (gate_set g))"

definition latched :: "start_gate \<Rightarrow> bool" where
  "latched g \<longleftrightarrow> sg_open g \<and> sg_requested g"

lemma latched_step: "latched g \<Longrightarrow> latched (gate_step op g)"
  by (cases op) (simp_all add: latched_def gate_arm_def gate_set_def)

lemma latched_fold: "latched g \<Longrightarrow> latched (fold gate_step ops g)"
  by (induction ops arbitrary: g) (simp_all add: latched_step)

lemma latched_edges: "latched g \<Longrightarrow> gate_edges ops g = 0"
proof (induction ops arbitrary: g)
  case (Cons op ops)
  then show ?case using latched_step [of g op]
    by (cases op) (simp_all add: latched_def gate_set_def)
qed simp

lemma set_latches: "latched (snd (gate_set g))"
  by (simp add: latched_def gate_set_def)

section \<open>Properties\<close>

text \<open>The gate is a latch: whatever ran before, once \<open>set\<close> has been called every later
  \<open>arm\<close>, also with \<open>auto_start = false\<close>, and every later \<open>set\<close> leaves it open. And over a whole
  run, from any state, at most one \<open>set\<close> call reports the opening edge.\<close>

theorem start_gate_latch:
  "gate_is_set (fold gate_step after (gate_step SetGate (fold gate_step before g))) \<and>
   gate_edges ops g \<le> 1"
proof
  have "latched (fold gate_step after (gate_step SetGate (fold gate_step before g)))"
    by (rule latched_fold) (simp add: set_latches)
  then show "gate_is_set (fold gate_step after (gate_step SetGate (fold gate_step before g)))"
    by (simp add: latched_def gate_is_set_def)
  show "gate_edges ops g \<le> 1"
    by (induction ops g rule: gate_edges.induct) (simp_all add: latched_edges set_latches)
qed

end
