(* ===== verification/Dedupe.thy ===== *)
theory Dedupe
  imports Tomb_Prelude "HOL-Library.AList"
begin

text \<open>
  \<^verbatim>\<open>src/dedupe.cpp\<close>: one report per signature and window. The \<open>unordered_map\<close> is an association
  list with distinct keys; times and the window are integers on the steady clock's scale.
\<close>

record dedupe_entry =
  de_last_sent :: int
  de_suppressed :: int

record dedupe =
  dd_recent :: "(string \<times> dedupe_entry) list"
  dd_window :: int

record decision =
  dc_allowed :: bool
  dc_suppressed :: int

definition max_tracked_signatures :: nat where
  "max_tracked_signatures = 64"

definition new_dedupe :: "int \<Rightarrow> dedupe" where
  "new_dedupe window = \<lparr>dd_recent = [], dd_window = window\<rparr>"

definition dedupe_check :: "string \<Rightarrow> int \<Rightarrow> dedupe \<Rightarrow> decision \<times> dedupe" where
  "dedupe_check sig now d =
    (case map_of (dd_recent d) sig of
       Some entry \<Rightarrow>
         if now - de_last_sent entry < dd_window d
         then (\<lparr>dc_allowed = False, dc_suppressed = de_suppressed entry + 1\<rparr>,
               d\<lparr>dd_recent := AList.update sig (entry\<lparr>de_suppressed := de_suppressed entry + 1\<rparr>) (dd_recent d)\<rparr>)
         else (\<lparr>dc_allowed = True, dc_suppressed = 0\<rparr>,
               d\<lparr>dd_recent := AList.update sig \<lparr>de_last_sent = now, de_suppressed = 0\<rparr> (dd_recent d)\<rparr>)
     | None \<Rightarrow>
         let recent = (if max_tracked_signatures \<le> length (dd_recent d) then [] else dd_recent d)
         in (\<lparr>dc_allowed = True, dc_suppressed = 0\<rparr>,
             d\<lparr>dd_recent := AList.update sig \<lparr>de_last_sent = now, de_suppressed = 0\<rparr> recent\<rparr>))"

section \<open>Runs of checks\<close>

fun dedupe_run :: "(string \<times> int) list \<Rightarrow> dedupe \<Rightarrow> decision list \<times> dedupe" where
  "dedupe_run [] d = ([], d)"
| "dedupe_run ((sig, now) # reqs) d =
    (let (dec, d') = dedupe_check sig now d; (decs, d'') = dedupe_run reqs d' in (dec # decs, d''))"

lemma dedupe_run_Cons [simp]:
  "dedupe_run (x # reqs) d =
    (let c = dedupe_check (fst x) (snd x) d; r = dedupe_run reqs (snd c) in (fst c # fst r, snd r))"
  by (cases x) (simp add: Let_def case_prod_unfold)

declare dedupe_run.simps(2) [simp del]

lemma dedupe_run_append:
  "dedupe_run (xs @ ys) d =
    (let r = dedupe_run xs d; r' = dedupe_run ys (snd r) in (fst r @ fst r', snd r'))"
  by (induction xs arbitrary: d) (simp_all add: Let_def)

lemma length_dedupe_run [simp]: "length (fst (dedupe_run xs d)) = length xs"
  by (induction xs arbitrary: d) (simp_all add: Let_def)

text \<open>The table: distinct keys, never more than 64 of them.\<close>

definition dedupe_ok :: "dedupe \<Rightarrow> bool" where
  "dedupe_ok d \<longleftrightarrow> distinct (map fst (dd_recent d)) \<and> length (dd_recent d) \<le> max_tracked_signatures"

lemma length_update:
  "length (AList.update k v al) = (if k \<in> fst ` set al then length al else Suc (length al))"
  by (induction al) auto

lemma dedupe_check_ok: "dedupe_ok d \<Longrightarrow> dedupe_ok (snd (dedupe_check sig now d))"
  by (auto simp: dedupe_ok_def dedupe_check_def Let_def length_update distinct_update
      max_tracked_signatures_def map_of_eq_None_iff dest: map_of_SomeD split: option.splits)
    (force dest: map_of_SomeD)+

lemma dedupe_run_ok: "dedupe_ok d \<Longrightarrow> dedupe_ok (snd (dedupe_run reqs d))"
  by (induction reqs arbitrary: d) (simp_all add: Let_def dedupe_check_ok)

section \<open>What the table remembers\<close>

text \<open>The reports a run let through: signature and time.\<close>

definition allowed_in :: "(string \<times> int) list \<Rightarrow> decision list \<Rightarrow> (string \<times> int) set" where
  "allowed_in reqs decs = {r. \<exists>dec. (r, dec) \<in> set (zip reqs decs) \<and> dc_allowed dec}"

definition newest :: "(string \<times> int) set \<Rightarrow> string \<Rightarrow> int \<Rightarrow> bool" where
  "newest R sig t \<longleftrightarrow> (sig, t) \<in> R \<and> (\<forall>t'. (sig, t') \<in> R \<longrightarrow> t' \<le> t)"

definition remembers :: "(string \<times> int) list \<Rightarrow> decision list \<times> dedupe \<Rightarrow> bool" where
  "remembers reqs r \<longleftrightarrow>
    dom (map_of (dd_recent (snd r))) = fst ` set reqs \<and>
    (\<forall>sig e. map_of (dd_recent (snd r)) sig = Some e \<longrightarrow>
       newest (allowed_in reqs (fst r)) sig (de_last_sent e))"

lemma newest_insert_other: "sig \<noteq> s \<Longrightarrow> newest (insert (s, now) R) sig t \<longleftrightarrow> newest R sig t"
  by (auto simp: newest_def)

lemma newest_insert_later: "newest R sig t \<Longrightarrow> t \<le> now \<Longrightarrow> newest (insert (sig, now) R) sig now"
  by (auto simp: newest_def)

lemma newest_insert_first: "sig \<notin> fst ` R \<Longrightarrow> newest (insert (sig, now) R) sig now"
  by (force simp: newest_def)

lemma dedupe_window_const: "dd_window (snd (dedupe_run reqs d)) = dd_window d"
proof (induction reqs arbitrary: d)
  case (Cons x xs)
  have "dd_window (snd (dedupe_check (fst x) (snd x) d)) = dd_window d"
    by (simp add: dedupe_check_def Let_def split: option.splits)
  with Cons show ?case by (simp add: Let_def)
qed simp

lemma allowed_in_snoc:
  "length decs = length reqs \<Longrightarrow>
    allowed_in (reqs @ [x]) (decs @ [dec]) =
      (if dc_allowed dec then insert x (allowed_in reqs decs) else allowed_in reqs decs)"
  by (auto simp: allowed_in_def)

lemma allowed_in_subset: "allowed_in reqs decs \<subseteq> set reqs"
  by (auto simp: allowed_in_def dest: set_zip_leftD)

lemma remembers_step:
  assumes r: "remembers reqs (decs, d)" and len: "length decs = length reqs"
    and ok: "dedupe_ok d" and w: "0 \<le> dd_window d"
    and room: "card (fst ` set (reqs @ [(sig, now)])) \<le> max_tracked_signatures"
  shows "remembers (reqs @ [(sig, now)]) (decs @ [fst (dedupe_check sig now d)], snd (dedupe_check sig now d))"
proof (cases "map_of (dd_recent d) sig")
  case (Some e)
  have new: "newest (allowed_in reqs decs) sig (de_last_sent e)"
    using r Some unfolding remembers_def by simp
  have seen: "sig \<in> fst ` set reqs" using r Some unfolding remembers_def by (auto simp: dom_def)
  have dom: "dom (map_of (AList.update sig e' (dd_recent d))) = fst ` set (reqs @ [(sig, now)])" for e'
    using r seen by (auto simp: remembers_def update_conv')
  show ?thesis
  proof (cases "now - de_last_sent e < dd_window d")
    case True
    with r len Some new show ?thesis
      unfolding remembers_def using dom
      by (simp add: dedupe_check_def allowed_in_snoc) (auto simp: update_conv')
  next
    case False
    with w have "newest (insert (sig, now) (allowed_in reqs decs)) sig now"
      by (intro newest_insert_later [OF new]) simp
    with r len False Some show ?thesis
      unfolding remembers_def using dom
      by (simp add: dedupe_check_def allowed_in_snoc) (auto simp: update_conv' newest_insert_other)
  qed
next
  case None
  then have "sig \<notin> dom (map_of (dd_recent d))" by (simp add: domIff)
  then have unseen: "sig \<notin> fst ` set reqs" using r unfolding remembers_def by simp
  have "length (dd_recent d) = card (dom (map_of (dd_recent d)))"
    using ok distinct_card [of "map fst (dd_recent d)"]
    by (simp add: dedupe_ok_def dom_map_of_conv_image_fst)
  also have "\<dots> = card (fst ` set reqs)" using r by (simp add: remembers_def)
  also have "\<dots> < max_tracked_signatures" using room unseen by simp
  finally have room': "\<not> max_tracked_signatures \<le> length (dd_recent d)" by simp
  have "newest (insert (sig, now) (allowed_in reqs decs)) sig now"
    using unseen allowed_in_subset [of reqs decs] by (intro newest_insert_first) auto
  moreover have "dom (map_of (AList.update sig e' (dd_recent d))) = fst ` set (reqs @ [(sig, now)])" for e'
    using r by (auto simp: remembers_def update_conv')
  ultimately show ?thesis
    using r len None room' unfolding remembers_def
    by (simp add: dedupe_check_def allowed_in_snoc) (auto simp: update_conv' newest_insert_other)
qed

lemma remembers_run:
  assumes "0 \<le> w" "card (fst ` set reqs) \<le> max_tracked_signatures"
  shows "remembers reqs (dedupe_run reqs (new_dedupe w))"
  using assms(2)
proof (induction reqs rule: rev_induct)
  case Nil
  show ?case by (simp add: remembers_def new_dedupe_def)
next
  case (snoc x reqs)
  let ?r = "dedupe_run reqs (new_dedupe w)"
  have "card (fst ` set reqs) \<le> card (fst ` set (reqs @ [x]))" by (intro card_mono) auto
  with snoc have "remembers reqs (fst ?r, snd ?r)" by simp
  moreover have "dedupe_ok (snd ?r)"
    by (rule dedupe_run_ok) (simp add: dedupe_ok_def new_dedupe_def)
  moreover have "0 \<le> dd_window (snd ?r)"
    using assms(1) by (simp add: dedupe_window_const new_dedupe_def)
  ultimately have "remembers (reqs @ [(fst x, snd x)])
      (fst ?r @ [fst (dedupe_check (fst x) (snd x) (snd ?r))], snd (dedupe_check (fst x) (snd x) (snd ?r)))"
    using snoc.prems by (intro remembers_step) simp_all
  then show ?case by (simp add: dedupe_run_append Let_def)
qed

lemma dedupe_run_nth:
  fixes d :: dedupe
  assumes "j < length reqs"
  defines "r \<equiv> dedupe_run (take j reqs) d"
  shows "fst (dedupe_run reqs d) ! j = fst (dedupe_check (fst (reqs ! j)) (snd (reqs ! j)) (snd r))"
    and "i < j \<Longrightarrow> fst (dedupe_run reqs d) ! i = fst r ! i"
proof -
  have "dedupe_run reqs d = dedupe_run (take j reqs @ reqs ! j # drop (Suc j) reqs) d"
    using assms(1) by (simp add: id_take_nth_drop [symmetric])
  moreover have "length (fst r) = j" using assms(1) by (simp add: r_def)
  ultimately show "fst (dedupe_run reqs d) ! j = fst (dedupe_check (fst (reqs ! j)) (snd (reqs ! j)) (snd r))"
    and "i < j \<Longrightarrow> fst (dedupe_run reqs d) ! i = fst r ! i"
    by (simp_all add: dedupe_run_append Let_def nth_append r_def [symmetric])
qed

section \<open>Properties\<close>

text \<open>C24. Exactly the promised de-duplication: over any run of checks of at most 64 distinct
  signatures, a report is let through if and only if every earlier report of its signature that
  was let through is at least one window old. So no signature reports twice inside a window, and
  no first report is ever lost.\<close>

theorem dedupe_exact:
  assumes "0 \<le> w" "card (fst ` set reqs) \<le> max_tracked_signatures" "j < length reqs"
    and "decs = fst (dedupe_run reqs (new_dedupe w))"
  shows "dc_allowed (decs ! j) \<longleftrightarrow>
    (\<forall>i < j. fst (reqs ! i) = fst (reqs ! j) \<and> dc_allowed (decs ! i) \<longrightarrow> w \<le> snd (reqs ! j) - snd (reqs ! i))"
proof -
  let ?pre = "take j reqs"
  let ?r = "dedupe_run ?pre (new_dedupe w)"
  obtain sig now where x: "reqs ! j = (sig, now)" by force
  have "card (fst ` set ?pre) \<le> card (fst ` set reqs)"
    by (intro card_mono image_mono set_take_subset) simp
  then have rem: "remembers ?pre ?r" using assms(1,2) by (intro remembers_run) simp_all
  have window: "dd_window (snd ?r) = w" by (simp add: dedupe_window_const new_dedupe_def)
  have hist: "(\<forall>i < j. fst (reqs ! i) = sig \<and> dc_allowed (decs ! i) \<longrightarrow> w \<le> now - snd (reqs ! i)) \<longleftrightarrow>
      (\<forall>t. (sig, t) \<in> allowed_in ?pre (fst ?r) \<longrightarrow> w \<le> now - t)" (is "?A \<longleftrightarrow> ?B")
  proof -
    have same: "decs ! i = fst ?r ! i" if "i < j" for i
      using dedupe_run_nth(2) [OF assms(3) that] by (simp add: assms(4))
    have "(sig, t) \<in> allowed_in ?pre (fst ?r) \<longleftrightarrow> (\<exists>i < j. reqs ! i = (sig, t) \<and> dc_allowed (decs ! i))" for t
    proof
      assume "\<exists>i < j. reqs ! i = (sig, t) \<and> dc_allowed (decs ! i)"
      then obtain i where i: "i < j" "reqs ! i = (sig, t)" "dc_allowed (fst ?r ! i)" using same by auto
      then have "zip ?pre (fst ?r) ! i \<in> set (zip ?pre (fst ?r))" using assms(3) by (intro nth_mem) simp
      with i assms(3) show "(sig, t) \<in> allowed_in ?pre (fst ?r)" by (auto simp: allowed_in_def)
    qed (use assms(3) in \<open>auto simp: allowed_in_def set_zip same\<close>)
    then show ?thesis by (metis fst_conv snd_conv surjective_pairing)
  qed
  have dec: "decs ! j = fst (dedupe_check sig now (snd ?r))"
    using dedupe_run_nth(1) [OF assms(3), of "new_dedupe w"] x by (simp add: assms(4))
  show ?thesis
  proof (cases "map_of (dd_recent (snd ?r)) sig")
    case None
    then have "sig \<notin> dom (map_of (dd_recent (snd ?r)))" by (simp add: domIff)
    then have "sig \<notin> fst ` set ?pre" using rem unfolding remembers_def by simp
    then have "\<forall>t. (sig, t) \<notin> allowed_in ?pre (fst ?r)"
      using allowed_in_subset [of ?pre "fst ?r"] by force
    with None show ?thesis
      unfolding x fst_conv snd_conv hist by (simp add: dec dedupe_check_def Let_def)
  next
    case (Some e)
    then have "newest (allowed_in ?pre (fst ?r)) sig (de_last_sent e)"
      using rem unfolding remembers_def by blast
    then have "(\<forall>t. (sig, t) \<in> allowed_in ?pre (fst ?r) \<longrightarrow> w \<le> now - t) \<longleftrightarrow> w \<le> now - de_last_sent e"
      unfolding newest_def by force
    with Some show ?thesis
      unfolding x fst_conv snd_conv hist by (simp add: dec dedupe_check_def window not_less)
  qed
qed

theorem dedupe_exact_witness:
  "dc_allowed (fst (dedupe_run [(''a'', 0), (''a'', 5), (''b'', 6), (''a'', 60)] (new_dedupe 60)) ! 3)"
proof -
  have "fst (dedupe_run [(''a'', 0), (''a'', 5), (''b'', 6), (''a'', 60)] (new_dedupe 60)) =
    [\<lparr>dc_allowed = True, dc_suppressed = 0\<rparr>, \<lparr>dc_allowed = False, dc_suppressed = 1\<rparr>,
     \<lparr>dc_allowed = True, dc_suppressed = 0\<rparr>, \<lparr>dc_allowed = True, dc_suppressed = 0\<rparr>]"
    by code_simp
  then show ?thesis
    using dedupe_exact [of 60 "[(''a'', 0), (''a'', 5), (''b'', 6), (''a'', 60)]" 3]
    by (auto simp: max_tracked_signatures_def card_insert_if less_Suc_eq numeral_eq_Suc)
qed

text \<open>The table stays small: over any run it has distinct signatures and never more than 64
  of them, and a signature it has no entry for is always let through, also when the table is full.\<close>

theorem dedupe_bounded:
  "length (dd_recent (snd (dedupe_run reqs (new_dedupe w)))) \<le> 64 \<and>
   distinct (map fst (dd_recent (snd (dedupe_run reqs (new_dedupe w))))) \<and>
   (sig \<notin> fst ` set reqs \<longrightarrow>
     dc_allowed (fst (dedupe_check sig now (snd (dedupe_run reqs (new_dedupe w))))))"
proof -
  have "dedupe_ok (snd (dedupe_run reqs (new_dedupe w)))"
    by (rule dedupe_run_ok) (simp add: dedupe_ok_def new_dedupe_def)
  moreover have "fst ` set (dd_recent (snd (dedupe_run reqs d))) \<subseteq> fst ` set reqs \<union> fst ` set (dd_recent d)" for d
  proof (induction reqs arbitrary: d)
    case (Cons x reqs)
    have "fst ` set (dd_recent (snd (dedupe_check (fst x) (snd x) d))) \<subseteq> insert (fst x) (fst ` set (dd_recent d))"
      by (auto simp: dedupe_check_def Let_def dom_update split: option.splits)
    with Cons.IH [of "snd (dedupe_check (fst x) (snd x) d)"] show ?case by (auto simp: Let_def)
  qed simp
  from this [of "new_dedupe w"] have "fst ` set (dd_recent (snd (dedupe_run reqs (new_dedupe w)))) \<subseteq> fst ` set reqs"
    by (simp add: new_dedupe_def)
  then have "sig \<notin> fst ` set reqs \<Longrightarrow> map_of (dd_recent (snd (dedupe_run reqs (new_dedupe w)))) sig = None"
    by (auto simp: map_of_eq_None_iff)
  ultimately show ?thesis
    by (auto simp: dedupe_ok_def max_tracked_signatures_def dedupe_check_def Let_def)
qed

theorem dedupe_bounded_witness:
  "dc_allowed (fst (dedupe_check ''c'' 7 (snd (dedupe_run [(''a'', 0), (''a'', 5)] (new_dedupe 60)))))"
  using dedupe_bounded [of "[(''a'', 0), (''a'', 5)]" 60 "''c''" 7] by simp

end
