(* ===== verification/Sampler.thy ===== *)
theory Sampler
  imports Ieee_Double "HOL-Library.AList"
begin

text \<open>
  \<^verbatim>\<open>src/sampler.cpp\<close>: per-name keep rates. The random engine is outside the model: the roll it
  would produce is an argument of \<open>should_keep\<close>, which says whether it was consumed.
\<close>

type_synonym sampler = "(string \<times> double) list"

definition max_entries :: nat where
  "max_entries = 256"

definition d_one :: double where
  "d_one = Finite False 1"

text \<open>\<open>std::clamp\<close> by its two comparisons.\<close>

definition d_clamp :: "double \<Rightarrow> double \<Rightarrow> double \<Rightarrow> double" where
  "d_clamp v lo hi = (if d_less v lo then lo else if d_less hi v then hi else v)"

definition set_rate :: "string \<Rightarrow> double \<Rightarrow> sampler \<Rightarrow> sampler" where
  "set_rate name rate rates =
    (if name = [] then rates
     else let clamped = d_clamp rate d_zero d_one in
       case map_of rates name of
         Some _ \<Rightarrow> AList.update name clamped rates
       | None \<Rightarrow> if max_entries \<le> length rates then rates else AList.update name clamped rates)"

definition keep :: "double \<Rightarrow> double \<Rightarrow> bool" where
  "keep rate roll = d_less roll rate"

definition should_keep :: "string \<Rightarrow> double \<Rightarrow> sampler \<Rightarrow> bool" where
  "should_keep name roll rates =
    (case map_of rates name of
       None \<Rightarrow> True
     | Some rate \<Rightarrow>
         if d_le d_one rate then True
         else if d_le rate d_zero then False
         else keep rate roll)"

section \<open>Lemmas\<close>

definition sampler_ok :: "sampler \<Rightarrow> bool" where
  "sampler_ok rates \<longleftrightarrow> distinct (map fst rates) \<and> length rates \<le> max_entries"

lemma length_AList_update:
  "length (AList.update k v al) = (if k \<in> fst ` set al then length al else Suc (length al))"
  by (induction al) auto

lemma set_rate_ok: "sampler_ok rates \<Longrightarrow> sampler_ok (set_rate name rate rates)"
  by (auto simp: sampler_ok_def set_rate_def Let_def length_AList_update distinct_update
      split: option.splits dest: map_of_SomeD)
    (force dest: map_of_SomeD)

lemma set_rates_ok: "sampler_ok rates \<Longrightarrow> sampler_ok (fold (\<lambda>(n, r). set_rate n r) ops rates)"
  by (induction ops arbitrary: rates) (auto simp: set_rate_ok)

lemma set_rate_lookup:
  "map_of (set_rate name rate rates) n =
    (if n = name \<and> name \<noteq> [] \<and> (map_of rates name \<noteq> None \<or> length rates < max_entries)
     then Some (d_clamp rate d_zero d_one) else map_of rates n)"
  by (auto simp: set_rate_def Let_def update_conv' split: option.splits)

section \<open>Properties\<close>

text \<open>The sampling contract: after a rate is set for a name that fits the table, the name's
  samples are all kept at rate 1 or above, all dropped at 0 or below, and otherwise kept exactly
  when the roll is below the rate; samples of every other name are decided as before.\<close>

theorem set_rate_contract:
  assumes "name \<noteq> []" "length rates < max_entries \<or> map_of rates name \<noteq> None" "isfinite rate"
  shows "should_keep name roll (set_rate name rate rates) =
      (if 1 \<le> dval rate then True else if dval rate \<le> 0 then False else d_less roll rate) \<and>
    (\<forall>n. n \<noteq> name \<longrightarrow> should_keep n roll (set_rate name rate rates) = should_keep n roll rates)"
proof -
  obtain s m where r: "rate = Finite s m" using assms(3) by (rule isfiniteE)
  have "map_of (set_rate name rate rates) name = Some (d_clamp rate d_zero d_one)"
    using assms by (auto simp: set_rate_lookup)
  then have "should_keep name roll (set_rate name rate rates) =
      (if 1 \<le> dval rate then True else if dval rate \<le> 0 then False else d_less roll rate)"
    by (auto simp: should_keep_def keep_def d_clamp_def d_zero_def d_one_def r)
  then show ?thesis by (simp add: should_keep_def set_rate_lookup)
qed

theorem set_rate_contract_witness:
  "\<not> should_keep ''fps'' (Finite False (1/2)) (set_rate ''fps'' (Finite False (1/4)) [(''x'', d_zero)]) \<and>
   should_keep ''fps'' (Finite False (1/8)) (set_rate ''fps'' (Finite False (1/4)) [(''x'', d_zero)])"
  using set_rate_contract [of "''fps''" "[(''x'', d_zero)]" "Finite False (1/4)" "Finite False (1/2)"]
    set_rate_contract [of "''fps''" "[(''x'', d_zero)]" "Finite False (1/4)" "Finite False (1/8)"]
  by (simp add: max_entries_def)

text \<open>The clamp does not catch NaN: both of its comparisons are false, so a NaN rate is stored
  as it is, no roll is below it, and from then on the stream is dropped entirely.\<close>

theorem nan_rate_silences_stream:
  assumes "name \<noteq> []" "length rates < max_entries \<or> map_of rates name \<noteq> None"
  shows "map_of (set_rate name NaN rates) name = Some NaN \<and> \<not> should_keep name roll (set_rate name NaN rates)"
proof -
  have "map_of (set_rate name NaN rates) name = Some NaN"
    using assms by (auto simp: set_rate_lookup d_clamp_def d_one_def)
  moreover have "\<not> d_less roll NaN" by (cases roll) auto
  ultimately show ?thesis by (simp add: should_keep_def keep_def d_one_def)
qed

theorem nan_rate_silences_stream_witness:
  "\<not> should_keep ''fps'' d_zero (set_rate ''fps'' NaN [])"
  using nan_rate_silences_stream [of "''fps''" "[]" d_zero] by (simp add: max_entries_def)

end
