(* ===== verification/Frame_Stats.thy ===== *)
theory Frame_Stats
  imports Ieee_Double
begin

text \<open>
  \<^verbatim>\<open>src/frame_stats.cpp\<close>: the per-interval frame accumulator. The spin lock makes \<open>sample\<close> and
  \<open>consume\<close> atomic steps; the millisecond sums are binary64 values, the counters integers.
\<close>

record frame_acc =
  fa_frame_count :: int
  fa_elapsed_ms :: double
  fa_slow_frames :: int
  fa_hitch_frames :: int
  fa_worst_frame_ms :: double

record frame_snapshot =
  fs_valid :: bool
  fs_fps_avg :: double
  fs_slow_frame_pct :: double
  fs_hitch_count :: int
  fs_worst_frame_ms :: int

definition slow_frame_ms :: double where "slow_frame_ms = round_signed (334 / 10)"
definition hitch_frame_ms :: double where "hitch_frame_ms = Finite False 250"
definition max_fps :: double where "max_fps = Finite False 1000"
definition max_hitch_count :: int where "max_hitch_count = 1000000"
definition max_worst_frame_ms :: int where "max_worst_frame_ms = 10000000"

definition new_frame_acc :: frame_acc where
  "new_frame_acc =
    \<lparr>fa_frame_count = 0, fa_elapsed_ms = d_zero, fa_slow_frames = 0, fa_hitch_frames = 0,
     fa_worst_frame_ms = d_zero\<rparr>"

definition empty_snapshot :: frame_snapshot where
  "empty_snapshot =
    \<lparr>fs_valid = False, fs_fps_avg = d_zero, fs_slow_frame_pct = d_zero, fs_hitch_count = 0,
     fs_worst_frame_ms = 0\<rparr>"

definition frame_sample :: "double \<Rightarrow> frame_acc \<Rightarrow> frame_acc" where
  "frame_sample ms a =
    (if \<not> isfinite ms \<or> d_le ms d_zero then a
     else a\<lparr>fa_frame_count := fa_frame_count a + 1,
            fa_elapsed_ms := d_add (fa_elapsed_ms a) ms,
            fa_slow_frames := (if d_less slow_frame_ms ms then fa_slow_frames a + 1 else fa_slow_frames a),
            fa_hitch_frames := (if d_less hitch_frame_ms ms \<and> fa_hitch_frames a < max_hitch_count
                                then fa_hitch_frames a + 1 else fa_hitch_frames a),
            fa_worst_frame_ms := (if d_less (fa_worst_frame_ms a) ms then ms else fa_worst_frame_ms a)\<rparr>)"

definition frame_consume :: "frame_acc \<Rightarrow> frame_snapshot \<times> frame_acc" where
  "frame_consume a =
    ((if 0 < fa_frame_count a \<and> d_less d_zero (fa_elapsed_ms a) then
        let fps = d_div (d_mul (double_of_int (fa_frame_count a)) (Finite False 1000)) (fa_elapsed_ms a);
            fps = (if d_less max_fps fps then max_fps else fps);
            pct = d_div (d_mul (double_of_int (fa_slow_frames a)) (Finite False 100))
                    (double_of_int (fa_frame_count a));
            pct = (if d_less (Finite False 100) pct then Finite False 100 else pct);
            worst = (if d_less (double_of_int max_worst_frame_ms) (fa_worst_frame_ms a)
                     then double_of_int max_worst_frame_ms else fa_worst_frame_ms a)
        in \<lparr>fs_valid = True, fs_fps_avg = fps, fs_slow_frame_pct = pct,
            fs_hitch_count = fa_hitch_frames a, fs_worst_frame_ms = d_trunc worst\<rparr>
      else empty_snapshot),
     new_frame_acc)"

section \<open>The accumulator's invariant\<close>

definition d_nonneg :: "double \<Rightarrow> bool" where
  "d_nonneg x = (case x of NaN \<Rightarrow> False | Infinity s \<Rightarrow> \<not> s | Finite s m \<Rightarrow> \<not> s \<and> 0 \<le> m)"

definition acc_ok :: "frame_acc \<Rightarrow> bool" where
  "acc_ok a \<longleftrightarrow>
    0 \<le> fa_slow_frames a \<and> fa_slow_frames a \<le> fa_frame_count a \<and>
    0 \<le> fa_hitch_frames a \<and> fa_hitch_frames a \<le> max_hitch_count \<and>
    d_nonneg (fa_elapsed_ms a) \<and> isfinite (fa_worst_frame_ms a) \<and> 0 \<le> dval (fa_worst_frame_ms a)"

lemma d_nonnegE:
  assumes "d_nonneg x"
  obtains "x = Infinity False" | m where "x = Finite False m" "0 \<le> m"
  using assms by (cases x) (auto simp: d_nonneg_def)

lemma d_nonneg_round64: "0 \<le> q \<Longrightarrow> d_nonneg (round64 False q)"
  using round64_nonneg [of q False] round64_sign [of False q]
  by (cases "round64 False q") (auto simp: d_nonneg_def round64_def Let_def split: if_splits)

lemma d_nonneg_add:
  assumes "d_nonneg x" "0 \<le> k"
  shows "d_nonneg (d_add x (Finite False k))"
proof (cases rule: d_nonnegE [OF assms(1)])
  case (2 m)
  then show ?thesis
    using assms(2) d_nonneg_round64 [of "m + k"]
    by (simp add: round_signed_def Let_def d_nonneg_def)
qed (simp add: d_nonneg_def)

lemma acc_ok_new [simp]: "acc_ok new_frame_acc"
  by (simp add: acc_ok_def new_frame_acc_def max_hitch_count_def d_nonneg_def d_zero_def)

lemma accepted_sample:
  assumes "d_valid ms" "isfinite ms" "\<not> d_le ms d_zero"
  obtains k where "ms = Finite False k" "0 < k"
proof -
  obtain s m where "ms = Finite s m" using assms(2) by (rule isfiniteE)
  then show thesis using assms that by (cases s) (auto simp: d_valid_def d_zero_def)
qed

lemma frame_sample_ok: "acc_ok a \<Longrightarrow> d_valid ms \<Longrightarrow> acc_ok (frame_sample ms a)"
proof (cases "isfinite ms \<and> \<not> d_le ms d_zero")
  case True
  assume ok: "acc_ok a" and valid: "d_valid ms"
  obtain k where k: "ms = Finite False k" "0 < k" using accepted_sample [OF valid] True by blast
  have "d_nonneg (d_add (fa_elapsed_ms a) ms)"
    using ok k by (simp add: acc_ok_def d_nonneg_add)
  with ok k True show ?thesis by (auto simp: acc_ok_def frame_sample_def)
next
  case False
  then show "acc_ok a \<Longrightarrow> acc_ok (frame_sample ms a)" by (auto simp: frame_sample_def)
qed

lemma frame_samples_ok:
  "acc_ok a \<Longrightarrow> list_all d_valid xs \<Longrightarrow> acc_ok (fold frame_sample xs a)"
  by (induction xs arbitrary: a) (simp_all add: frame_sample_ok)

lemma frame_count_le:
  "fa_frame_count (fold frame_sample xs a) \<le> fa_frame_count a + int (length xs)"
proof (induction xs arbitrary: a)
  case (Cons x xs)
  have "fa_frame_count (frame_sample x a) \<le> fa_frame_count a + 1" by (simp add: frame_sample_def)
  with Cons.IH [of "frame_sample x a"] show ?case by simp
qed simp

section \<open>The clamps\<close>

lemma clamp_bounds:
  assumes "d_nonneg x" "0 \<le> b"
  shows "isfinite (if d_less (Finite False b) x then Finite False b else x) \<and>
    0 \<le> dval (if d_less (Finite False b) x then Finite False b else x) \<and>
    dval (if d_less (Finite False b) x then Finite False b else x) \<le> b"
  using assms by (cases rule: d_nonnegE) (auto simp: not_less)

lemma double_of_nat_small:
  assumes "0 \<le> n" "n < 2 ^ 63"
  obtains k where "double_of_int n = Finite False k" "0 \<le> k" "k \<le> 2 ^ 64" "0 < n \<Longrightarrow> 0 < k"
proof -
  have n: "0 \<le> (of_int n :: rat)" "(of_int n :: rat) \<le> 2 ^ 63"
    using assms of_int_le_iff [of n "2 ^ 63", where 'a = rat] by simp_all
  then have "(of_int n :: rat) \<le> 2 ^ 1000" by (elim order_trans) simp
  with n(1) obtain k where k: "round64 False (of_int n) = Finite False k" "0 \<le> k" "k \<le> 2 * max 1 (of_int n)"
    by (rule round64_small)
  have "k \<le> 2 ^ 64" using k(3) n(2) by simp
  moreover have "0 < k" if "0 < n" using round64_pos [OF _ k(1)] that by simp
  ultimately show thesis
    using that k n(1) by (simp add: double_of_int_def round_signed_def not_less)
qed

lemma percent_nonneg:
  assumes "double_of_int n = Finite False k" "0 \<le> k" "k \<le> 2 ^ 64" "0 \<le> c" "c \<le> 2 ^ 10"
  obtains p where "d_mul (double_of_int n) (Finite False c) = Finite False p" "0 \<le> p"
proof -
  have "k * c \<le> 2 ^ 64 * 2 ^ 10" using assms by (intro mult_mono) simp_all
  also have "\<dots> \<le> (2::rat) ^ 1000" by simp
  finally have "k * c \<le> 2 ^ 1000" .
  have "0 \<le> k * c" using assms by simp
  from this \<open>k * c \<le> 2 ^ 1000\<close> obtain p where "round64 False (k * c) = Finite False p" "0 \<le> p"
    by (rule round64_small [of "k * c" False])
  with that show thesis by (simp add: assms(1))
qed

lemma quotient_nonneg: "0 \<le> p \<Longrightarrow> d_nonneg y \<Longrightarrow> d_less d_zero y \<Longrightarrow> d_nonneg (d_div (Finite False p) y)"
  by (erule d_nonnegE) (auto simp: d_zero_def d_nonneg_round64, simp add: d_nonneg_def)

section \<open>What a window says\<close>

text \<open>The frames that count, and the window they should give, read off the whole list at once.\<close>

definition counted_frames :: "double list \<Rightarrow> double list" where
  "counted_frames samples = filter (\<lambda>ms. isfinite ms \<and> 0 < dval ms) samples"

definition capped :: "double \<Rightarrow> double \<Rightarrow> double" where
  "capped limit x = (if d_less limit x then limit else x)"

definition window_of :: "double list \<Rightarrow> frame_snapshot" where
  "window_of frames =
    (if frames = [] then empty_snapshot
     else \<lparr>fs_valid = True,
       fs_fps_avg = capped max_fps (d_div (d_mul (double_of_int (int (length frames))) (Finite False 1000))
         (fold (\<lambda>ms total. d_add total ms) frames d_zero)),
       fs_slow_frame_pct = capped (Finite False 100)
         (d_div (d_mul (double_of_int (int (length (filter (d_less slow_frame_ms) frames)))) (Finite False 100))
           (double_of_int (int (length frames)))),
       fs_hitch_count = min max_hitch_count (int (length (filter (d_less hitch_frame_ms) frames))),
       fs_worst_frame_ms = \<lfloor>min (of_int max_worst_frame_ms) (Max (dval ` set frames))\<rfloor>\<rparr>)"

lemma accepted_counts: "\<not> (\<not> isfinite ms \<or> d_le ms d_zero) \<longleftrightarrow> isfinite ms \<and> 0 < dval ms"
  by (cases ms) (auto simp: d_zero_def)

text \<open>A positive sum of two doubles does not round to zero.\<close>

lemma positive_sum:
  assumes "d_nonneg x" "d_valid (Finite False k)" "0 < k"
  shows "d_less d_zero (d_add x (Finite False k))"
proof (cases rule: d_nonnegE [OF assms(1)])
  case (2 m)
  let ?q = "m + k"
  have low: "scale 2 (- 1074) \<le> ?q" using d_valid_range(1) [OF assms(2)] assms(3) 2 by simp
  have "0 < ?q" using 2 assms(3) by simp
  have "ulp_of ?q \<le> ?q"
  proof (cases "- 1022 \<le> expo 2 ?q")
    case True
    then have "ulp_of ?q \<le> scale 2 (expo 2 ?q)" by (auto simp: ulp_of_def intro!: scale_mono)
    also have "\<dots> \<le> ?q" using \<open>0 < ?q\<close> by (intro expo_lower) simp_all
    finally show ?thesis .
  qed (use low in \<open>simp add: ulp_of_def\<close>)
  then have "1 \<le> round_half_even (?q / ulp_of ?q)"
    using ulp_of_pos [of ?q] by (intro round_half_even_ge1) simp
  then have "0 < of_int (round_half_even (?q / ulp_of ?q)) * ulp_of ?q"
    using ulp_of_pos [of ?q] by (intro mult_pos_pos) simp_all
  then show ?thesis
    using 2 \<open>0 < ?q\<close> by (auto simp: d_zero_def round_signed_def round64_def Let_def ulp_of_def)
qed (simp add: d_zero_def)

definition summed :: "double list \<Rightarrow> frame_acc \<Rightarrow> bool" where
  "summed frames a \<longleftrightarrow> fa_frame_count a = int (length frames) \<and>
    fa_elapsed_ms a = fold (\<lambda>ms total. d_add total ms) frames d_zero \<and>
    fa_slow_frames a = int (length (filter (d_less slow_frame_ms) frames)) \<and>
    fa_hitch_frames a = min max_hitch_count (int (length (filter (d_less hitch_frame_ms) frames))) \<and>
    dval (fa_worst_frame_ms a) = Max (insert 0 (dval ` set frames)) \<and>
    (frames \<noteq> [] \<longrightarrow> d_less d_zero (fa_elapsed_ms a))"

lemma summed_sample:
  assumes "summed frames a" "acc_ok a" "d_valid ms"
  shows "summed (frames @ counted_frames [ms]) (frame_sample ms a)"
proof (cases "isfinite ms \<and> 0 < dval ms")
  case True
  then have kept: "counted_frames [ms] = [ms]" "\<not> (\<not> isfinite ms \<or> d_le ms d_zero)"
    using accepted_counts by (auto simp: counted_frames_def)
  obtain k where k: "ms = Finite False k" "0 < k"
    using accepted_sample [OF assms(3)] kept(2) by blast
  have total: "d_less d_zero (d_add (fa_elapsed_ms a) ms)"
    using positive_sum [of "fa_elapsed_ms a" k] assms(2,3) k by (simp add: acc_ok_def)
  have worst: "d_less (fa_worst_frame_ms a) ms \<longleftrightarrow> dval (fa_worst_frame_ms a) < dval ms"
    using assms(2) True by (intro d_less_finite) (simp_all add: acc_ok_def)
  have biggest: "Max (insert 0 (dval ` set (frames @ [ms]))) = max (dval ms) (Max (insert 0 (dval ` set frames)))"
  proof -
    have "insert 0 (dval ` set (frames @ [ms])) = insert (dval ms) (insert 0 (dval ` set frames))" by auto
    then show ?thesis by (simp only:) (rule Max_insert, simp_all)
  qed
  let ?a = "frame_sample ms a"
  have sample: "fa_frame_count ?a = fa_frame_count a + 1" "fa_elapsed_ms ?a = d_add (fa_elapsed_ms a) ms"
    "fa_slow_frames ?a = (if d_less slow_frame_ms ms then fa_slow_frames a + 1 else fa_slow_frames a)"
    "fa_hitch_frames ?a = (if d_less hitch_frame_ms ms \<and> fa_hitch_frames a < max_hitch_count
       then fa_hitch_frames a + 1 else fa_hitch_frames a)"
    "dval (fa_worst_frame_ms ?a) = max (dval ms) (dval (fa_worst_frame_ms a))"
    using kept(2) worst by (simp_all add: frame_sample_def max_def)
  show ?thesis
    using assms(1) total unfolding summed_def kept(1) biggest sample by (auto simp: min_def max_hitch_count_def)
next
  case False
  then have "counted_frames [ms] = []" "\<not> isfinite ms \<or> d_le ms d_zero"
    using accepted_counts [of ms] by (auto simp: counted_frames_def)
  with assms(1) show ?thesis by (simp add: frame_sample_def)
qed

lemma summed_samples:
  "list_all d_valid samples \<Longrightarrow> summed (counted_frames samples) (fold frame_sample samples new_frame_acc)"
proof (induction samples rule: rev_induct)
  case Nil
  show ?case by (simp add: summed_def counted_frames_def new_frame_acc_def max_hitch_count_def)
next
  case (snoc ms samples)
  then have "summed (counted_frames samples @ counted_frames [ms]) (frame_sample ms (fold frame_sample samples new_frame_acc))"
    by (intro summed_sample) (simp_all add: frame_samples_ok)
  then show ?case by (simp add: counted_frames_def)
qed

lemma consume_window:
  assumes "summed frames a" "acc_ok a" "\<forall>ms \<in> set frames. 0 < dval ms"
  shows "fst (frame_consume a) = window_of frames"
proof (cases "frames = []")
  case True
  with assms(1) show ?thesis by (simp add: summed_def frame_consume_def window_of_def)
next
  case False
  have most: "Max (insert 0 (dval ` set frames)) = Max (dval ` set frames)"
  proof -
    obtain ms where "ms \<in> set frames" using False by (cases frames) auto
    then have "0 < dval ms" "dval ms \<le> Max (dval ` set frames)" using assms(3) by simp_all
    then have "0 \<le> Max (dval ` set frames)" by linarith
    then show ?thesis using False by (simp add: max_absorb2)
  qed
  let ?w = "fa_worst_frame_ms a"
  have million: "double_of_int max_worst_frame_ms = Finite False 10000000" by code_simp
  have worst: "d_trunc (if d_less (Finite False 10000000) ?w then Finite False 10000000 else ?w) =
      \<lfloor>min (of_int max_worst_frame_ms) (Max (dval ` set frames))\<rfloor>"
    using assms(1,2) most d_less_finite [of "Finite False 10000000" ?w]
    by (auto simp: summed_def acc_ok_def d_trunc_def Let_def max_worst_frame_ms_def min_def not_less)
  have sums: "fa_frame_count a = int (length frames)" "fa_elapsed_ms a = fold (\<lambda>ms total. d_add total ms) frames d_zero"
    "fa_slow_frames a = int (length (filter (d_less slow_frame_ms) frames))"
    "fa_hitch_frames a = min max_hitch_count (int (length (filter (d_less hitch_frame_ms) frames)))"
    using assms(1) by (simp_all add: summed_def)
  have "d_less d_zero (fa_elapsed_ms a)" using assms(1) False unfolding summed_def by blast
  then have sampled: "0 < fa_frame_count a \<and> d_less d_zero (fa_elapsed_ms a)" using sums(1) False by simp
  show ?thesis
    unfolding frame_consume_def if_P [OF sampled] window_of_def if_not_P [OF False]
    unfolding fst_conv Let_def capped_def million worst unfolding sums ..
qed

section \<open>Properties\<close>

text \<open>C18. A frame window says what was sampled: whatever frame times are fed in one interval (any doubles: NaN,
  infinities, zeros, negatives, values whose sum overflows), the drained window is the one read off the list
  of the finite positive ones - their rate, the share above 33.4 ms, the number above 250 ms, the
  longest, each capped - and obeys the server contract: a finite
  frame rate of 0 to 1000, a finite slow-frame share of 0 to 100, at most a million hitches and a
  worst frame of at most ten million milliseconds; and the accumulator starts the next interval
  from zero.\<close>

theorem frame_window_exact:
  assumes "list_all d_valid samples" "length samples < 2 ^ 63"
  defines "out \<equiv> frame_consume (fold frame_sample samples new_frame_acc)"
  shows "fst out = window_of (counted_frames samples) \<and> snd out = new_frame_acc \<and>
    isfinite (fs_fps_avg (fst out)) \<and> 0 \<le> dval (fs_fps_avg (fst out)) \<and> dval (fs_fps_avg (fst out)) \<le> 1000 \<and>
    isfinite (fs_slow_frame_pct (fst out)) \<and> 0 \<le> dval (fs_slow_frame_pct (fst out)) \<and>
      dval (fs_slow_frame_pct (fst out)) \<le> 100 \<and>
    0 \<le> fs_hitch_count (fst out) \<and> fs_hitch_count (fst out) \<le> 1000000 \<and>
    0 \<le> fs_worst_frame_ms (fst out) \<and> fs_worst_frame_ms (fst out) \<le> 10000000"
proof -
  define a where "a = fold frame_sample samples new_frame_acc"
  have ok: "acc_ok a" using assms(1) by (simp add: a_def frame_samples_ok)
  have "fst out = window_of (counted_frames samples)"
    using consume_window [OF summed_samples [OF assms(1)] ok [unfolded a_def]] by (simp add: out_def counted_frames_def)
  moreover have "snd out = new_frame_acc \<and> 
    isfinite (fs_fps_avg (fst out)) \<and> 0 \<le> dval (fs_fps_avg (fst out)) \<and> dval (fs_fps_avg (fst out)) \<le> 1000 \<and>
    isfinite (fs_slow_frame_pct (fst out)) \<and> 0 \<le> dval (fs_slow_frame_pct (fst out)) \<and>
      dval (fs_slow_frame_pct (fst out)) \<le> 100 \<and>
    0 \<le> fs_hitch_count (fst out) \<and> fs_hitch_count (fst out) \<le> 1000000 \<and>
    0 \<le> fs_worst_frame_ms (fst out) \<and> fs_worst_frame_ms (fst out) \<le> 10000000"
  proof (cases "0 < fa_frame_count a \<and> d_less d_zero (fa_elapsed_ms a)")
    case False
    then have "out = (empty_snapshot, new_frame_acc)"
      unfolding out_def a_def [symmetric] frame_consume_def by (simp only: if_False)
    then show ?thesis by (simp add: empty_snapshot_def)
  next
    case True
    have "fa_frame_count a \<le> int (length samples)"
      using frame_count_le [of samples new_frame_acc] by (simp add: a_def new_frame_acc_def)
    also have "\<dots> < int (2 ^ 63)" using assms(2) by (simp only: of_nat_less_iff)
    finally have n: "fa_frame_count a < 2 ^ 63" by simp
    obtain k where k: "double_of_int (fa_frame_count a) = Finite False k" "0 \<le> k" "k \<le> 2 ^ 64" "0 < k"
      using double_of_nat_small [of "fa_frame_count a"] True n by auto
    obtain j where j: "double_of_int (fa_slow_frames a) = Finite False j" "0 \<le> j" "j \<le> 2 ^ 64"
      using double_of_nat_small [of "fa_slow_frames a"] ok n by (auto simp: acc_ok_def)
    obtain p where p: "d_mul (double_of_int (fa_frame_count a)) (Finite False 1000) = Finite False p" "0 \<le> p"
      using percent_nonneg [OF k(1-3), of 1000] by auto
    obtain q where q: "d_mul (double_of_int (fa_slow_frames a)) (Finite False 100) = Finite False q" "0 \<le> q"
      using percent_nonneg [OF j, of 100] by auto
    have fps: "d_nonneg (d_div (Finite False p) (fa_elapsed_ms a))"
      using ok True p(2) by (simp add: acc_ok_def quotient_nonneg)
    have pct: "d_nonneg (d_div (Finite False q) (Finite False k))"
      using q(2) k by (intro quotient_nonneg) (simp_all add: d_nonneg_def d_zero_def)
    have worst: "isfinite (fa_worst_frame_ms a)" "0 \<le> dval (fa_worst_frame_ms a)"
      using ok by (simp_all add: acc_ok_def)
    have ten_million: "double_of_int max_worst_frame_ms = Finite False 10000000" by code_simp
    let ?w = "if d_less (Finite False 10000000) (fa_worst_frame_ms a) then Finite False 10000000 else fa_worst_frame_ms a"
    have "0 \<le> d_trunc ?w \<and> d_trunc ?w \<le> 10000000"
    proof -
      have "0 \<le> dval ?w" "dval ?w \<le> 10000000"
        using worst d_less_finite [of "Finite False 10000000" "fa_worst_frame_ms a"] by (auto simp: not_less)
      then show ?thesis by (simp add: d_trunc_def Let_def floor_le_iff)
    qed
    then show ?thesis
      using True ok clamp_bounds [OF fps, of 1000] clamp_bounds [OF pct, of 100]
      unfolding out_def a_def [symmetric] frame_consume_def Let_def ten_million k(1) j(1) max_fps_def
        p(1) [unfolded k(1)] q(1) [unfolded j(1)]
      by (simp add: acc_ok_def max_hitch_count_def del: d_less.simps d_div.simps d_mul.simps)
  qed
  ultimately show ?thesis by simp
qed

theorem frame_window_exact_witness:
  "fst (frame_consume (fold frame_sample [Finite False 16, NaN, Infinity False, Finite False 300] new_frame_acc)) =
     window_of [Finite False 16, Finite False 300]"
proof -
  have "list_all d_valid [Finite False 16, NaN, Infinity False, Finite False 300]" by code_simp
  then show ?thesis
    using frame_window_exact [of "[Finite False 16, NaN, Infinity False, Finite False 300]"] by (simp add: counted_frames_def)
qed

end
