(* ===== verification/Batch.thy ===== *)
theory Batch
  imports Payloads
begin

text \<open>
  \<^verbatim>\<open>src/batch.cpp\<close>: the bounded buffer of serialised telemetry items and its drain into
  envelopes. The mutex makes each method one step; the steady clock is the argument \<open>now\<close>,
  in nanoseconds.
\<close>

record batch =
  bt_items :: "string list"
  bt_first_add :: int

definition new_batch :: batch where
  "new_batch = \<lparr>bt_items = [], bt_first_add = 0\<rparr>"

definition batch_max_items :: nat where "batch_max_items = 256"
definition flush_count :: nat where "flush_count = 50"
definition max_batch_bytes :: nat where "max_batch_bytes = 512 * 1024"
definition flush_age :: int where "flush_age = 10 * 1000000000"

definition batch_push :: "string \<Rightarrow> batch \<Rightarrow> batch" where
  "batch_push item b =
    b\<lparr>bt_items := (if batch_max_items \<le> length (bt_items b) then tl (bt_items b) else bt_items b) @ [item]\<rparr>"

text \<open>\<open>add\<close> returns whether the count trigger is satisfied.\<close>

definition batch_add :: "string \<Rightarrow> int \<Rightarrow> batch \<Rightarrow> bool \<times> batch" where
  "batch_add item now b =
    (let b = (if bt_items b = [] then b\<lparr>bt_first_add := now\<rparr> else b);
         b = batch_push item b
     in (flush_count \<le> length (bt_items b), b))"

definition batch_has_items :: "batch \<Rightarrow> bool" where
  "batch_has_items b \<longleftrightarrow> bt_items b \<noteq> []"

definition batch_ready :: "int \<Rightarrow> bool \<Rightarrow> batch \<Rightarrow> bool" where
  "batch_ready now force b \<longleftrightarrow>
    bt_items b \<noteq> [] \<and>
    (force \<or> flush_count \<le> length (bt_items b) \<or> flush_age \<le> now - bt_first_add b)"

text \<open>The loop of \<open>drain_locked\<close>: bytes so far, items taken, items left.\<close>

fun drain_loop :: "nat \<Rightarrow> string list \<Rightarrow> string list \<Rightarrow> string list \<times> string list" where
  "drain_loop bytes drained [] = (drained, [])"
| "drain_loop bytes drained (item # items) =
    (let next_bytes = length item + (if drained = [] then 0 else 1) in
     if drained \<noteq> [] \<and> max_batch_bytes < bytes + next_bytes then (drained, item # items)
     else let bytes = bytes + next_bytes in
       if max_batch_bytes \<le> bytes then (drained @ [item], items)
       else drain_loop bytes (drained @ [item]) items)"

definition drain_locked :: "string \<Rightarrow> batch \<Rightarrow> string \<times> batch" where
  "drain_locked sent_at_iso b =
    (let (drained, rest) = drain_loop (length (build_batch_envelope sent_at_iso [])) [] (bt_items b)
     in (build_batch_envelope sent_at_iso drained, b\<lparr>bt_items := rest\<rparr>))"

definition drain_if_ready :: "string \<Rightarrow> int \<Rightarrow> bool \<Rightarrow> batch \<Rightarrow> string option \<times> batch" where
  "drain_if_ready sent_at_iso now force b =
    (if \<not> batch_ready now force b then (None, b)
     else let (e, b') = drain_locked sent_at_iso b in (Some e, b'))"

section \<open>Lemmas on one drain\<close>

lemma drain_loop_split:
  "drain_loop bytes drained items = (d, r) \<Longrightarrow>
    \<exists>taken. d = drained @ taken \<and> items = taken @ r \<and> (drained = [] \<and> items \<noteq> [] \<longrightarrow> taken \<noteq> [])"
proof (induction bytes drained items arbitrary: d r rule: drain_loop.induct)
  case (2 bytes drained item items)
  then show ?case by (fastforce simp: Let_def split: if_splits)
qed simp

lemma drain_locked_shorter:
  "bt_items b \<noteq> [] \<Longrightarrow> length (bt_items (snd (drain_locked t b))) < length (bt_items b)"
  using drain_loop_split [of "length (build_batch_envelope t [])" "[]" "bt_items b"]
  by (fastforce simp: drain_locked_def Let_def split: prod.splits)

text \<open>The loop \<open>while (!items_.empty()) envelopes.push_back(drain_locked(...))\<close>.\<close>

function drain_all :: "string \<Rightarrow> batch \<Rightarrow> string list \<times> batch" where
  "drain_all sent_at_iso b =
    (if bt_items b = [] then ([], b)
     else let (e, b') = drain_locked sent_at_iso b; (es, b'') = drain_all sent_at_iso b' in (e # es, b''))"
  by pat_completeness auto
termination
  using drain_locked_shorter
  by (relation "measure (\<lambda>(t, b). length (bt_items b))") (simp, metis case_prod_conv in_measure snd_conv)

declare drain_all.simps [simp del]

definition drain_envelopes_if_ready :: "string \<Rightarrow> int \<Rightarrow> bool \<Rightarrow> batch \<Rightarrow> string list \<times> batch" where
  "drain_envelopes_if_ready sent_at_iso now force b =
    (if \<not> batch_ready now force b then ([], b) else drain_all sent_at_iso b)"

section \<open>The buffer is a drop-oldest buffer\<close>

definition batch_ok :: "batch \<Rightarrow> bool" where
  "batch_ok b \<longleftrightarrow> length (bt_items b) \<le> batch_max_items"

lemma batch_push_items: "batch_ok b \<Longrightarrow> bt_items (batch_push x b) = last_n batch_max_items (bt_items b @ [x])"
proof -
  assume ok: "batch_ok b"
  show ?thesis
  proof (cases "length (bt_items b) < batch_max_items")
    case True
    then show ?thesis by (simp add: batch_push_def)
  next
    case False
    with ok have "length (bt_items b) = batch_max_items" by (simp add: batch_ok_def)
    with last_n_snoc_full [OF this] show ?thesis by (simp add: batch_push_def batch_max_items_def)
  qed
qed

interpretation batch: drop_oldest bt_items batch_push batch_max_items batch_ok
  by unfold_locales (simp_all add: batch_push_items batch_ok_def)

section \<open>Envelope sizes\<close>

lemma length_elems_text:
  "length (elems_text c (map JLit items)) =
    sum_list (map length items) + (length items - (if c then 0 else 1))"
  by (induction items arbitrary: c) auto

lemma envelope_length:
  "length (build_batch_envelope t items) =
    length (build_batch_envelope t []) + sum_list (map length items) + (length items - 1)"
  by (simp add: batch_envelope_render length_elems_text)

lemma drain_loop_bytes:
  assumes "drain_loop bytes drained items = (d, r)" "drained \<noteq> [] \<Longrightarrow> bytes \<le> max_batch_bytes"
    and "bytes = base + sum_list (map length drained) + (length drained - 1)"
  shows "length d = 1 \<or> d = [] \<or> base + sum_list (map length d) + (length d - 1) \<le> max_batch_bytes"
  using assms
proof (induction bytes drained items arbitrary: d r rule: drain_loop.induct)
  case (2 bytes drained item items)
  let ?n = "length item + (if drained = [] then 0 else 1)"
  have sum: "bytes + ?n = base + sum_list (map length (drained @ [item])) + (length (drained @ [item]) - 1)"
    using "2.prems"(3) by (cases drained) auto
  show ?case
  proof (cases "drained \<noteq> [] \<and> max_batch_bytes < bytes + ?n")
    case True
    with 2 show ?thesis by (auto simp: Let_def)
  next
    case False
    show ?thesis
    proof (cases "max_batch_bytes \<le> bytes + ?n")
      case True
      with False "2.prems"(1) have "d = drained @ [item]" by (auto simp: Let_def split: if_splits)
      with False sum show ?thesis by (cases "drained = []") auto
    next
      case small: False
      with False "2.prems"(1) have "drain_loop (bytes + ?n) (drained @ [item]) items = (d, r)"
        by (auto simp: Let_def split: if_splits)
      from "2.IH" [OF refl False refl small this _ sum] small show ?thesis by simp
    qed
  qed
qed auto

section \<open>A full drain\<close>

definition envelope_size_ok :: "string \<Rightarrow> string list \<Rightarrow> bool" where
  "envelope_size_ok t d \<longleftrightarrow> length d = 1 \<or> length (build_batch_envelope t d) \<le> max_batch_bytes"

lemma drain_locked_group:
  assumes "bt_items b \<noteq> []" "drain_locked t b = (e, b')"
  obtains d where "e = build_batch_envelope t d" "d \<noteq> []" "bt_items b = d @ bt_items b'" "envelope_size_ok t d"
    "bt_first_add b' = bt_first_add b"
proof -
  obtain d r where dr: "drain_loop (length (build_batch_envelope t [])) [] (bt_items b) = (d, r)"
    by force
  from drain_loop_split [OF this] assms(1) have "d \<noteq> []" "bt_items b = d @ r" by auto
  moreover from drain_loop_bytes [OF dr, of "length (build_batch_envelope t [])"] \<open>d \<noteq> []\<close>
  have "envelope_size_ok t d" unfolding envelope_size_ok_def envelope_length [of t d] by auto
  moreover have "e = build_batch_envelope t d" "bt_items b' = r" "bt_first_add b' = bt_first_add b"
    using assms(2) dr by (auto simp: drain_locked_def)
  ultimately show thesis using that by blast
qed

lemma drain_all_groups:
  "drain_all t b = (es, b') \<Longrightarrow>
    \<exists>groups. es = map (build_batch_envelope t) groups \<and> concat groups = bt_items b \<and>
      list_all (\<lambda>g. g \<noteq> [] \<and> envelope_size_ok t g) groups \<and> bt_items b' = []"
proof (induction t b arbitrary: es b' rule: drain_all.induct)
  case (1 t b)
  show ?case
  proof (cases "bt_items b = []")
    case True
    with 1(2) have "es = []" "b' = b" by (auto simp: drain_all.simps [of t b])
    with True show ?thesis by (intro exI [of _ "[]"]) simp
  next
    case False
    obtain e b1 where e: "drain_locked t b = (e, b1)" by force
    obtain es' b2 where r: "drain_all t b1 = (es', b2)" by force
    obtain d where d: "e = build_batch_envelope t d" "d \<noteq> []" "bt_items b = d @ bt_items b1" "envelope_size_ok t d"
      by (rule drain_locked_group [OF False e])
    from 1(1) [OF False e [symmetric] refl r] obtain groups where
      "es' = map (build_batch_envelope t) groups" "concat groups = bt_items b1"
      "list_all (\<lambda>g. g \<noteq> [] \<and> envelope_size_ok t g) groups" "bt_items b2 = []" by blast
    moreover have "es = e # es'" "b' = b2" using 1(2) False e r by (auto simp: drain_all.simps [of t b])
    ultimately show ?thesis using d by (intro exI [of _ "d # groups"]) simp
  qed
qed

section \<open>Properties\<close>

text \<open>C25. A flush loses, duplicates and reorders nothing: the envelopes of one forced or triggered
  drain carry exactly the buffered items in order, each envelope is non-empty and the buffer is
  empty afterwards; a drain that is not due changes nothing. And each envelope stays within the
  512 KiB limit unless it holds a single oversized item.\<close>

theorem batch_drain_conserves:
  "\<exists>groups. fst (drain_envelopes_if_ready t now force b) = map (build_batch_envelope t) groups \<and>
     concat groups @ bt_items (snd (drain_envelopes_if_ready t now force b)) = bt_items b \<and>
     list_all (\<lambda>g. g \<noteq> [] \<and> (length g = 1 \<or> length (build_batch_envelope t g) \<le> 524288)) groups \<and>
     (if batch_ready now force b then bt_items (snd (drain_envelopes_if_ready t now force b)) = []
      else groups = [] \<and> snd (drain_envelopes_if_ready t now force b) = b)"
proof (cases "batch_ready now force b")
  case False
  then show ?thesis by (intro exI [of _ "[]"]) (simp add: drain_envelopes_if_ready_def)
next
  case True
  obtain es b' where "drain_all t b = (es, b')" by force
  from drain_all_groups [OF this] this True show ?thesis
    by (auto simp: drain_envelopes_if_ready_def envelope_size_ok_def max_batch_bytes_def)
qed

text \<open>The buffer refines "the last 256 items": adding any items to it keeps exactly the newest
  256 of what was there and what came, and it never exceeds that bound.\<close>

theorem batch_keeps_newest:
  assumes "length (bt_items b) \<le> 256"
  shows "bt_items (fold (\<lambda>(item, now) b. snd (batch_add item now b)) adds b) =
      last_n 256 (bt_items b @ map fst adds)"
proof -
  have push: "bt_items (snd (batch_add item now b)) = bt_items (batch_push item b)" for item now b
    by (simp add: batch_add_def Let_def batch_push_def)
  have "bt_items (fold (\<lambda>(item, now) b. snd (batch_add item now b)) adds b) =
      bt_items (fold batch_push (map fst adds) b)"
  proof (induction adds arbitrary: b)
    case (Cons x adds)
    obtain item now where x: "x = (item, now)" by force
    have "bt_items (fold batch_push xs c) = bt_items (fold batch_push xs c')" if "bt_items c = bt_items c'" for xs c c'
      using that by (induction xs arbitrary: c c') (simp_all add: batch_push_def)
    from this [OF push] Cons show ?case by (simp add: x)
  qed simp
  also have "\<dots> = last_n batch_max_items (bt_items b @ map fst adds)"
    using assms by (intro batch.contents_fold) (simp add: batch_ok_def batch_max_items_def)
  finally show ?thesis by (simp add: batch_max_items_def)
qed

theorem batch_keeps_newest_witness:
  "bt_items (fold (\<lambda>(item, now) b. snd (batch_add item now b)) [(''x'', 1), (''y'', 2)] new_batch) = [''x'', ''y'']"
  using batch_keeps_newest [of new_batch "[(''x'', 1), (''y'', 2)]"] by (simp add: new_batch_def)

end
