(* ===== verification/Session_Marker.thy ===== *)
theory Session_Marker
  imports File_System Json_Roundtrip
begin

text \<open>
  \<^verbatim>\<open>src/session_marker.cpp\<close>: the dirty-session marker \<open>session.lock\<close>. The operations take and
  return the file system.
\<close>

record marker_data =
  md_session_id :: string
  md_started_at_iso :: string
  md_build_version :: string
  md_os :: string
  md_arch :: string

text \<open>\<^const>\<open>None\<close> until \<open>configure\<close> has set the path.\<close>

type_synonym session_marker = "path option"

definition marker_name :: string where
  "marker_name = ''session.lock''"

definition marker_configure :: "path \<Rightarrow> session_marker" where
  "marker_configure data_dir = Some (data_dir @ [marker_name])"

definition field_or_empty :: "string \<Rightarrow> string \<Rightarrow> string" where
  "field_or_empty text key = (case find_string_field text key of None \<Rightarrow> [] | Some v \<Rightarrow> v)"

definition marker_text :: "marker_data \<Rightarrow> string" where
  "marker_text d = document
    [string_field ''sessionId'' (md_session_id d),
     string_field ''startedAtIso'' (md_started_at_iso d),
     string_field ''buildVersion'' (md_build_version d),
     string_field ''os'' (md_os d),
     string_field ''arch'' (md_arch d)]"

definition marker_take_previous :: "session_marker \<Rightarrow> file_system \<Rightarrow> marker_data option \<times> file_system" where
  "marker_take_previous m fs =
    (case m of
       None \<Rightarrow> (None, fs)
     | Some p \<Rightarrow>
         if \<not> fs_exists fs p then (None, fs)
         else case fs_read fs p of
                None \<Rightarrow> (None, fs)
              | Some text \<Rightarrow>
                  let fs = fs_remove p fs; sid = field_or_empty text ''sessionId'' in
                  if sid = [] then (None, fs)
                  else (Some \<lparr>md_session_id = sid,
                              md_started_at_iso = field_or_empty text ''startedAtIso'',
                              md_build_version = field_or_empty text ''buildVersion'',
                              md_os = field_or_empty text ''os'',
                              md_arch = field_or_empty text ''arch''\<rparr>, fs))"

definition marker_write :: "marker_data \<Rightarrow> session_marker \<Rightarrow> file_system \<Rightarrow> file_system" where
  "marker_write d m fs =
    (case m of None \<Rightarrow> fs | Some p \<Rightarrow> snd (fs_write p (marker_text d) fs))"

definition marker_remove :: "session_marker \<Rightarrow> file_system \<Rightarrow> file_system" where
  "marker_remove m fs = (case m of None \<Rightarrow> fs | Some p \<Rightarrow> fs_remove p fs)"

section \<open>Lemmas\<close>

definition marker_fields :: "marker_data \<Rightarrow> (string \<times> json) list" where
  "marker_fields d =
    [(''sessionId'', JStr (md_session_id d)), (''startedAtIso'', JStr (md_started_at_iso d)),
     (''buildVersion'', JStr (md_build_version d)), (''os'', JStr (md_os d)), (''arch'', JStr (md_arch d))]"

lemma marker_text_render [json_shape]: "marker_text d = render (JObj (marker_fields d))"
proof -
  have "emits (calls
      [string_field ''sessionId'' (md_session_id d), string_field ''startedAtIso'' (md_started_at_iso d),
       string_field ''buildVersion'' (md_build_version d), string_field ''os'' (md_os d),
       string_field ''arch'' (md_arch d)])
    ([(''sessionId'', JStr (md_session_id d))] @ [(''startedAtIso'', JStr (md_started_at_iso d))] @
     [(''buildVersion'', JStr (md_build_version d))] @ [(''os'', JStr (md_os d))] @
     [(''arch'', JStr (md_arch d))] @ [])"
    by (intro json_emit)
  from document_render [OF this] show ?thesis by (simp add: marker_text_def marker_fields_def)
qed

lemma marker_keys_plain:
  "list_all plain_key [''sessionId'', ''startedAtIso'', ''buildVersion'', ''os'', ''arch'']"
  by code_simp

lemma marker_field:
  "(k, JStr v) \<in> set (marker_fields d) \<Longrightarrow> field_or_empty (marker_text d) k = v"
proof -
  assume k: "(k, JStr v) \<in> set (marker_fields d)"
  have tidy: "tidy (JObj (marker_fields d))" using marker_keys_plain by (simp add: marker_fields_def)
  have plain: "plain_key k" using k marker_keys_plain by (auto simp: marker_fields_def)
  have "map_of (field_pairs (marker_fields d)) k = Some (JStr v)"
    using k by (auto simp: marker_fields_def)
  then show ?thesis
    by (simp add: field_or_empty_def marker_text_render find_string_document [OF plain tidy] del: render.simps)
qed

section \<open>Properties\<close>

text \<open>What a session wrote is what the next launch recovers: if the marker file can be written
  and read, taking the previous marker after a write gives back every field byte for byte,
  whatever the build version or ids contain. If the file can be deleted the marker is consumed:
  taking it again finds nothing, so one crash is reported once.\<close>

theorem marker_write_take:
  assumes "m = marker_configure dir" "p = dir @ [marker_name]"
    and "fl_writable fs p" "fl_readable fs p" "fl_removable fs p" "md_session_id d \<noteq> []"
  shows "fst (marker_take_previous m (marker_write d m fs)) = Some d \<and>
    fst (marker_take_previous m (snd (marker_take_previous m (marker_write d m fs)))) = None \<and>
    (\<forall>q. q \<noteq> p \<longrightarrow> fs_lookup (snd (marker_take_previous m (marker_write d m fs))) q = fs_lookup fs q)"
proof -
  let ?w = "fs_put p (marker_text d) fs"
  have m: "m = Some p" using assms by (simp add: marker_configure_def)
  have w: "marker_write d m fs = ?w" using assms(3) by (simp add: marker_write_def m fs_write_def)
  have "fs_read ?w p = Some (marker_text d)" "fs_exists ?w p"
    using assms(4) by (simp_all add: fs_read_def fs_exists_def disk.lookup_put)
  then have t: "marker_take_previous m ?w = (Some d, fs_remove p ?w)"
    using assms(6)
    by (simp add: marker_take_previous_def m Let_def marker_field marker_fields_def)
  have "\<not> fs_exists (fs_remove p ?w) p"
    using assms(5) by (simp add: fs_exists_def disk.lookup_del)
  then have "fst (marker_take_previous m (fs_remove p ?w)) = None"
    by (simp add: marker_take_previous_def m)
  moreover have "q \<noteq> p \<Longrightarrow> fs_lookup (fs_remove p ?w) q = fs_lookup fs q" for q
    using disk.other_paths [of q p] by simp
  ultimately show ?thesis by (simp add: w t)
qed

definition open_disk :: file_system where
  "open_disk = \<lparr>fl_files = [], fl_readable = (\<lambda>_. True), fl_writable = (\<lambda>_. True), fl_removable = (\<lambda>_. True)\<rparr>"

theorem marker_write_take_witness:
  "fst (marker_take_previous (marker_configure [''d''])
     (marker_write \<lparr>md_session_id = ''s'', md_started_at_iso = [], md_build_version = CHR 0x22 # ''os'',
        md_os = ''linux'', md_arch = ''x64''\<rparr> (marker_configure [''d'']) open_disk)) =
   Some \<lparr>md_session_id = ''s'', md_started_at_iso = [], md_build_version = CHR 0x22 # ''os'',
     md_os = ''linux'', md_arch = ''x64''\<rparr>"
  using marker_write_take [of "marker_configure [''d'']" "[''d'']" "[''d'', marker_name]" open_disk
    "\<lparr>md_session_id = ''s'', md_started_at_iso = [], md_build_version = CHR 0x22 # ''os'',
      md_os = ''linux'', md_arch = ''x64''\<rparr>"]
  by (simp add: open_disk_def)

text \<open>A clean shutdown leaves no trace: after \<open>remove\<close>, on a disk that lets the file be deleted,
  the next launch finds no previous session, whatever was written before.\<close>

theorem marker_clean_shutdown:
  assumes "m = marker_configure dir" "fl_removable fs (dir @ [marker_name])"
  shows "fst (marker_take_previous m (marker_remove m (marker_write d m fs))) = None"
proof -
  let ?p = "dir @ [marker_name]"
  have "fl_removable (marker_write d m fs) ?p"
    using assms by (simp add: marker_write_def marker_configure_def fs_write_def)
  then have "\<not> fs_exists (marker_remove m (marker_write d m fs)) ?p"
    using assms(1) by (simp add: marker_remove_def marker_configure_def fs_exists_def disk.lookup_del)
  then show ?thesis using assms(1) by (simp add: marker_take_previous_def marker_configure_def)
qed

theorem marker_clean_shutdown_witness:
  "fst (marker_take_previous (marker_configure [''d''])
     (marker_remove (marker_configure [''d'']) (marker_write \<lparr>md_session_id = ''s'', md_started_at_iso = [],
        md_build_version = [], md_os = [], md_arch = []\<rparr> (marker_configure [''d'']) open_disk))) = None"
  by (rule marker_clean_shutdown [of _ "[''d'']"]) (simp_all add: open_disk_def)

end
