(* ===== verification/Clock.thy ===== *)
theory Clock
  imports Tomb_Prelude
begin

text \<open>
  \<^verbatim>\<open>src/clock.cpp\<close>: the wire timestamp. C++ division and remainder on signed integers truncate
  towards zero (\<open>tdiv\<close>, \<open>tmod\<close>); the unsigned intermediates never leave their range, so they
  are plain integers here. The current time is an argument wherever the code reads a clock.
\<close>

definition tdiv :: "int \<Rightarrow> int \<Rightarrow> int" where
  "tdiv a b = (if 0 \<le> a then a div b else - ((- a) div b))"

definition tmod :: "int \<Rightarrow> int \<Rightarrow> int" where
  "tmod a b = a - tdiv a b * b"

record civil_date =
  cd_year :: int
  cd_month :: int
  cd_day :: int

definition civil_from_days :: "int \<Rightarrow> civil_date" where
  "civil_from_days z0 =
    (let z = z0 + 719468;
         era = tdiv (if 0 \<le> z then z else z - 146096) 146097;
         doe = z - era * 146097;
         yoe = (doe - doe div 1460 + doe div 36524 - doe div 146096) div 365;
         y = yoe + era * 400;
         doy = doe - (365 * yoe + yoe div 4 - yoe div 100);
         mp = (5 * doy + 2) div 153;
         d = doy - (153 * mp + 2) div 5 + 1;
         m = (if mp < 10 then mp + 3 else mp - 9)
     in \<lparr>cd_year = y + (if m \<le> 2 then 1 else 0), cd_month = m, cd_day = d\<rparr>)"

text \<open>\<open>%0wd\<close>: zeros up to the width, after the sign.\<close>

definition pad0 :: "nat \<Rightarrow> int \<Rightarrow> string" where
  "pad0 w i =
    (let d = dec_pos \<bar>i\<bar>; s = (if i < 0 then ''-'' else [])
     in s @ replicate (w - length s - length d) (CHR ''0'') @ d)"

definition ms_per_day :: int where
  "ms_per_day = 86400000"

definition format_iso8601_utc_ms :: "int \<Rightarrow> string" where
  "format_iso8601_utc_ms ms =
    (let days = tdiv ms ms_per_day;
         ms_of_day = tmod ms ms_per_day;
         (days, ms_of_day) = (if ms_of_day < 0 then (days - 1, ms_of_day + ms_per_day)
                              else (days, ms_of_day));
         date = civil_from_days days
     in pad0 4 (cd_year date) @ ''-'' @ pad0 2 (cd_month date) @ ''-'' @ pad0 2 (cd_day date) @ ''T'' @
        pad0 2 (ms_of_day div 3600000) @ '':'' @ pad0 2 (ms_of_day div 60000 mod 60) @ '':'' @
        pad0 2 (ms_of_day div 1000 mod 60) @ ''.'' @ pad0 3 (ms_of_day mod 1000) @ ''Z'')"

section \<open>The Gregorian calendar\<close>

definition leap :: "int \<Rightarrow> bool" where
  "leap y \<longleftrightarrow> y mod 4 = 0 \<and> (y mod 100 \<noteq> 0 \<or> y mod 400 = 0)"

definition month_length :: "int \<Rightarrow> int \<Rightarrow> int" where
  "month_length y m =
    (if m = 2 then (if leap y then 29 else 28) else if m \<in> {4, 6, 9, 11} then 30 else 31)"

definition valid_date :: "civil_date \<Rightarrow> bool" where
  "valid_date t \<longleftrightarrow> 1 \<le> cd_month t \<and> cd_month t \<le> 12 \<and> 1 \<le> cd_day t \<and>
    cd_day t \<le> month_length (cd_year t) (cd_month t)"

text \<open>Days from 0001-01-01 to the first day of a year, and of a month.\<close>

definition days_before_year :: "int \<Rightarrow> int" where
  "days_before_year y = 365 * (y - 1) + (y - 1) div 4 - (y - 1) div 100 + (y - 1) div 400"

definition days_before_month :: "int \<Rightarrow> int \<Rightarrow> int" where
  "days_before_month y m = sum_list (map (month_length y) [1..m - 1])"

definition day_number :: "civil_date \<Rightarrow> int" where
  "day_number t = days_before_year (cd_year t) + days_before_month (cd_year t) (cd_month t) + cd_day t - 1"

text \<open>The Unix epoch, 1970-01-01, is day 719162.\<close>

definition epoch_day :: int where
  "epoch_day = 719162"

lemma epoch_day_is: "day_number \<lparr>cd_year = 1970, cd_month = 1, cd_day = 1\<rparr> = epoch_day"
  by (simp add: day_number_def days_before_year_def days_before_month_def epoch_day_def)

lemma div_pred:
  assumes "0 < (n::int)"
  shows "(y - 1) div n = y div n - (if y mod n = 0 then 1 else 0)"
proof (cases "y mod n = 0")
  case True
  have "y - 1 = n * (y div n - 1) + (n - 1)"
    using True mult_div_mod_eq [of n y] by (simp add: algebra_simps)
  then show ?thesis using True assms int_div_pos_eq [of "y - 1" n "y div n - 1" "n - 1"] by simp
next
  case False
  then have "0 < y mod n" using assms pos_mod_sign [of n y] by linarith
  moreover have "y - 1 = n * (y div n) + (y mod n - 1)"
    using mult_div_mod_eq [of n y] by (simp add: algebra_simps)
  ultimately show ?thesis
    using False int_div_pos_eq [of "y - 1" n "y div n" "y mod n - 1"] pos_mod_bound [OF assms, of y]
    by simp
qed

lemma days_before_next_year:
  "days_before_year (y + 1) = days_before_year y + (if leap y then 366 else 365)"
proof -
  have "y mod 100 = 0 \<Longrightarrow> y mod 4 = 0" "y mod 400 = 0 \<Longrightarrow> y mod 100 = 0" by presburger+
  then show ?thesis by (auto simp: days_before_year_def leap_def div_pred)
qed

section \<open>The conversion inside one 400-year era\<close>

definition year_start :: "int \<Rightarrow> int" where
  "year_start y = 365 * y + y div 4 - y div 100"

definition drift :: "int \<Rightarrow> int" where
  "drift doe = doe - doe div 1460 + doe div 36524 - doe div 146096"

lemma drift_mono: "a \<le> b \<Longrightarrow> 0 \<le> a \<Longrightarrow> drift a \<le> drift b"
proof -
  have step: "drift x \<le> drift (x + 1)" for x
  proof -
    have "(x + 1) mod 146096 = 0 \<Longrightarrow> (x + 1) mod 36524 = 0"
      using dvd_trans [of 36524 "146096::int" "x + 1"] by (simp add: mod_eq_0_iff_dvd)
    moreover have "x div n = (x + 1) div n - (if (x + 1) mod n = 0 then 1 else 0)" if "0 < n" for n
      using div_pred [OF that, of "x + 1"] by simp
    then have "x div 1460 = (x + 1) div 1460 - (if (x + 1) mod 1460 = 0 then 1 else 0)"
      "x div 36524 = (x + 1) div 36524 - (if (x + 1) mod 36524 = 0 then 1 else 0)"
      "x div 146096 = (x + 1) div 146096 - (if (x + 1) mod 146096 = 0 then 1 else 0)"
      by simp_all
    ultimately show ?thesis unfolding drift_def by (smt (verit))
  qed
  show "drift a \<le> drift b" if "a \<le> b"
    using that by (induction rule: int_ge_induct) (auto intro: order_trans step)
qed

lemma era_years:
  "list_all (\<lambda>y. drift (year_start y) div 365 = y \<and>
     drift (if y = 399 then 146096 else year_start (y + 1) - 1) div 365 = y) [0..399]"
  by code_simp

lemma yoe_in_year:
  assumes "0 \<le> y" "y \<le> 399" "year_start y \<le> doe"
    and "doe \<le> (if y = 399 then 146096 else year_start (y + 1) - 1)"
  shows "drift doe div 365 = y"
proof -
  let ?e = "if y = 399 then 146096 else year_start (y + 1) - 1"
  have "drift (year_start y) div 365 = y" "drift ?e div 365 = y"
    using era_years assms(1,2) unfolding list_all_iff by auto
  moreover have "0 \<le> year_start y" using assms(1) by (simp add: year_start_def)
  then have "drift (year_start y) \<le> drift doe" "drift doe \<le> drift ?e"
    using assms by (auto intro!: drift_mono)
  ultimately show ?thesis by (metis order_antisym zdiv_mono1 zero_less_numeral)
qed

lemma day_in_year:
  assumes "0 \<le> doe" "doe \<le> 146096"
  obtains y where "0 \<le> y" "y \<le> 399" "year_start y \<le> doe"
    "doe \<le> (if y = 399 then 146096 else year_start (y + 1) - 1)"
proof -
  have "\<exists>y. 0 \<le> y \<and> y \<le> k \<and> year_start y \<le> doe \<and> doe \<le> (if y = 399 then 146096 else year_start (y + 1) - 1)"
    if "0 \<le> k" "k \<le> 399" "doe \<le> (if k = 399 then 146096 else year_start (k + 1) - 1)" for k
    using that
  proof (induction k rule: int_ge_induct)
    case base
    then show ?case using assms(1) by (intro exI [of _ 0]) (auto simp: year_start_def)
  next
    case (step k)
    show ?case
    proof (cases "year_start (k + 1) \<le> doe")
      case True
      with step.prems step.hyps show ?thesis by (intro exI [of _ "k + 1"]) simp
    next
      case False
      with step.prems step.hyps obtain y where "0 \<le> y" "y \<le> k" "year_start y \<le> doe"
        "doe \<le> (if y = 399 then 146096 else year_start (y + 1) - 1)"
        using step.IH by force
      then show ?thesis by (intro exI [of _ y]) simp
    qed
  qed
  from this [of 399] assms(2) that show thesis by auto
qed

section \<open>The conversion inside one March-based year\<close>

definition month_of :: "int \<Rightarrow> int" where
  "month_of doy = (let mp = (5 * doy + 2) div 153 in if mp < 10 then mp + 3 else mp - 9)"

definition day_of :: "int \<Rightarrow> int" where
  "day_of doy = (let mp = (5 * doy + 2) div 153 in doy - (153 * mp + 2) div 5 + 1)"

text \<open>Year 1 is a common year: its month lengths serve every year, up to the leap day.\<close>

lemma months_table:
  "list_all (\<lambda>doy. 1 \<le> month_of doy \<and> month_of doy \<le> 12 \<and> 1 \<le> day_of doy \<and>
     (month_of doy \<le> 2 \<longleftrightarrow> 306 \<le> doy) \<and>
     days_before_month 1 (month_of doy) + day_of doy - 1 = (if doy < 306 then doy + 59 else doy - 306) \<and>
     (doy = 365 \<longrightarrow> month_of doy = 2 \<and> day_of doy = 29) \<and>
     (doy \<noteq> 365 \<longrightarrow> day_of doy \<le> month_length 1 (month_of doy))) [0..365]"
  by code_simp

lemma months_by_leap:
  assumes "1 \<le> m" "m \<le> 12"
  shows "days_before_month y m = days_before_month 1 m + (if 2 < m \<and> leap y then 1 else 0)"
    and "month_length y m = month_length 1 m + (if m = 2 \<and> leap y then 1 else 0)"
proof -
  from assms have "m = 1 \<or> m = 2 \<or> m = 3 \<or> m = 4 \<or> m = 5 \<or> m = 6 \<or> m = 7 \<or> m = 8 \<or> m = 9 \<or>
    m = 10 \<or> m = 11 \<or> m = 12" by presburger
  then show "days_before_month y m = days_before_month 1 m + (if 2 < m \<and> leap y then 1 else 0)"
    by (elim disjE) (simp_all add: days_before_month_def month_length_def leap_def upto.simps)
  show "month_length y m = month_length 1 m + (if m = 2 \<and> leap y then 1 else 0)"
  proof -
    have "\<not> leap 1" by (simp add: leap_def)
    then show ?thesis by (simp add: month_length_def)
  qed
qed

lemma leap_shift: "leap (y + 400 * k) = leap y"
proof -
  have "(y + 400 * k) mod 4 = y mod 4" "(y + 400 * k) mod 100 = y mod 100"
    using mod_mult_self2 [of y 4 "100 * k"] mod_mult_self2 [of y 100 "4 * k"] by simp_all
  then show ?thesis by (simp add: leap_def)
qed

lemma tdiv_era: "tdiv (if 0 \<le> z then z else z - 146096) 146097 = z div 146097"
proof (cases "0 \<le> z")
  case False
  have "146096 - z = 146097 * (- (z div 146097)) + (146096 - z mod 146097)"
    using mult_div_mod_eq [of 146097 z] by linarith
  moreover have "0 \<le> 146096 - z mod 146097" "146096 - z mod 146097 < 146097"
    using pos_mod_bound [of 146097 z] pos_mod_sign [of 146097 z] by linarith+
  ultimately have "(146096 - z) div 146097 = - (z div 146097)"
    using int_div_pos_eq by blast
  with False show ?thesis by (simp add: tdiv_def)
qed (simp add: tdiv_def)

lemma civil_from_days_split:
  "civil_from_days z0 =
    (let z = z0 + 719468; e = z div 146097; doe = z - e * 146097; y = drift doe div 365;
         doy = doe - year_start y
     in \<lparr>cd_year = y + e * 400 + (if month_of doy \<le> 2 then 1 else 0),
         cd_month = month_of doy, cd_day = day_of doy\<rparr>)"
  unfolding civil_from_days_def tdiv_era drift_def year_start_def month_of_def day_of_def Let_def ..

lemma civil_from_days_unfold:
  assumes "e = (z0 + 719468) div 146097" "doe = z0 + 719468 - e * 146097" "doy = doe - year_start y"
    and "0 \<le> y" "y \<le> 399" "year_start y \<le> doe"
    "doe \<le> (if y = 399 then 146096 else year_start (y + 1) - 1)"
  shows "civil_from_days z0 =
    \<lparr>cd_year = y + e * 400 + (if month_of doy \<le> 2 then 1 else 0), cd_month = month_of doy, cd_day = day_of doy\<rparr>"
  unfolding civil_from_days_split Let_def assms(1) [symmetric] assms(2) [symmetric]
    yoe_in_year [OF assms(4-7)] assms(3) [symmetric] ..

lemma year_span:
  assumes "0 \<le> y" "y \<le> 399" "year_start y \<le> doe"
    and "doe \<le> (if y = 399 then 146096 else year_start (y + 1) - 1)"
  shows "doe - year_start y \<le> 365" and "doe - year_start y = 365 \<Longrightarrow> leap (y + 1)"
proof -
  define p q where "p \<longleftrightarrow> (y + 1) mod 4 = 0" and "q \<longleftrightarrow> (y + 1) mod 100 = 0"
  have step: "year_start (y + 1) = year_start y + 365 + (if p then 1 else 0) - (if q then 1 else 0)"
    using div_pred [of 4 "y + 1"] div_pred [of 100 "y + 1"] by (simp add: year_start_def p_def q_def)
  have last: "year_start 399 = 145731" by (simp add: year_start_def)
  show "doe - year_start y \<le> 365"
  proof (cases "y = 399")
    case False
    with assms(4) have "doe \<le> year_start (y + 1) - 1" by simp
    with step show ?thesis by (cases p; cases q) simp_all
  qed (use assms(4) last in simp)
  show "leap (y + 1)" if "doe - year_start y = 365"
  proof (cases "y = 399")
    case False
    with assms(4) that have "year_start y + 365 \<le> year_start (y + 1) - 1" by simp
    with step have "p \<and> \<not> q" by (cases p; cases q) simp_all
    then show ?thesis by (simp add: leap_def p_def q_def)
  qed (simp add: leap_def)
qed

section \<open>The text\<close>

lemma dec_val_zeros: "dec_val (replicate n (CHR ''0'') @ s) = dec_val s"
proof -
  have "foldl (\<lambda>v c. 10 * v + int (digit_val c)) 0 (replicate n (CHR ''0'')) = 0"
    by (induction n) (simp_all add: digit_val_def)
  then show ?thesis by (simp add: dec_val_def)
qed

lemma pad0_exact:
  assumes "0 \<le> i" "i < 10 ^ w" "0 < w"
  shows "length (pad0 w i) = w" and "dec_val (pad0 w i) = i"
  using assms length_dec_pos [OF assms] by (simp_all add: pad0_def Let_def dec_val_zeros)

lemma tmod_floor:
  "0 < b \<Longrightarrow> (if tmod a b < 0 then (tdiv a b - 1, tmod a b + b) else (tdiv a b, tmod a b)) = (a div b, a mod b)"
proof (cases "0 \<le> a")
  case True
  then show "0 < b \<Longrightarrow> ?thesis"
    by (simp add: tmod_def tdiv_def minus_div_mult_eq_mod not_less)
next
  case False
  assume b: "0 < b"
  have "a < 0" using False by simp
  have r: "0 \<le> a mod b" "a mod b < b" using b by simp_all
  show ?thesis
  proof (cases "a mod b = 0")
    case True
    then have "tdiv a b = a div b" using b False by (simp add: tdiv_def zdiv_zminus1_eq_if)
    with True show ?thesis by (simp add: tmod_def minus_div_mult_eq_mod)
  next
    case nz: False
    then have "tdiv a b = a div b + 1" using b False by (simp add: tdiv_def zdiv_zminus1_eq_if)
    moreover from this have "tmod a b = a mod b - b"
      by (simp add: tmod_def distrib_right minus_div_mult_eq_mod [symmetric])
    ultimately show ?thesis using r by simp
  qed
qed

text \<open>The reading of a 24-character timestamp: the milliseconds since the epoch.\<close>

definition slice :: "nat \<Rightarrow> nat \<Rightarrow> string \<Rightarrow> int" where
  "slice i n t = dec_val (take n (drop i t))"

definition parse_timestamp :: "string \<Rightarrow> int" where
  "parse_timestamp t =
    (day_number \<lparr>cd_year = slice 0 4 t, cd_month = slice 5 2 t, cd_day = slice 8 2 t\<rparr> - epoch_day) * ms_per_day +
    slice 11 2 t * 3600000 + slice 14 2 t * 60000 + slice 17 2 t * 1000 + slice 20 3 t"

lemma time_of_day:
  fixes r :: int
  shows "r div 3600000 * 3600000 + r div 60000 mod 60 * 60000 + r div 1000 mod 60 * 1000 + r mod 1000 = r"
proof -
  have "r div 60000 div 60 = r div 3600000" "r div 1000 div 60 = r div 60000"
    by (simp_all add: zdiv_zmult2_eq [symmetric])
  then show ?thesis
    using mult_div_mod_eq [of 1000 r] mult_div_mod_eq [of 60 "r div 1000"]
      mult_div_mod_eq [of 60 "r div 60000"] by linarith
qed

section \<open>Properties\<close>

text \<open>The calendar conversion is right for every day, before and after the epoch: the date it
  yields is a valid Gregorian date and its day number, counted by leap years and month lengths,
  is the input.\<close>

theorem civil_from_days_correct:
  "valid_date (civil_from_days z) \<and> day_number (civil_from_days z) = epoch_day + z"
proof -
  define e where "e = (z + 719468) div 146097"
  define doe where "doe = z + 719468 - e * 146097"
  have "doe = (z + 719468) mod 146097" by (simp add: doe_def e_def minus_div_mult_eq_mod)
  then have "0 \<le> doe" "doe \<le> 146096" by simp_all
  then obtain y where y: "0 \<le> y" "y \<le> 399" "year_start y \<le> doe"
    "doe \<le> (if y = 399 then 146096 else year_start (y + 1) - 1)" by (rule day_in_year)
  define doy where "doy = doe - year_start y"
  have doy: "0 \<le> doy" "doy \<le> 365" and leap: "doy = 365 \<Longrightarrow> leap (y + 1)"
    using year_span [OF y] y by (simp_all add: doy_def)
  have civil: "civil_from_days z =
      \<lparr>cd_year = y + e * 400 + (if month_of doy \<le> 2 then 1 else 0), cd_month = month_of doy, cd_day = day_of doy\<rparr>"
    by (rule civil_from_days_unfold [OF e_def doe_def doy_def y])
  have m: "1 \<le> month_of doy" "month_of doy \<le> 12" "1 \<le> day_of doy" "month_of doy \<le> 2 \<longleftrightarrow> 306 \<le> doy"
    "days_before_month 1 (month_of doy) + day_of doy - 1 = (if doy < 306 then doy + 59 else doy - 306)"
    "doy = 365 \<Longrightarrow> month_of doy = 2 \<and> day_of doy = 29"
    "doy \<noteq> 365 \<Longrightarrow> day_of doy \<le> month_length 1 (month_of doy)"
    using months_table doy unfolding list_all_iff by auto
  have shift: "(y + e * 400) div 4 = y div 4 + 100 * e" "(y + e * 400) div 100 = y div 100 + 4 * e"
    "(y + e * 400) div 400 = e" using y(1,2) by (auto simp: div_pos_pos_trivial)
  have "leap (y + 1 + 400 * e) = leap (y + 1)" by (rule leap_shift)
  then have leap': "doy = 365 \<Longrightarrow> leap (y + e * 400 + 1)" using leap by (simp add: ac_simps)
  have "day_of doy \<le> month_length Y (month_of doy)" if "doy = 365 \<longrightarrow> leap Y" for Y
  proof (cases "doy = 365")
    case True
    with m(6) that show ?thesis by (simp add: month_length_def)
  next
    case False
    have "month_length 1 (month_of doy) \<le> month_length Y (month_of doy)"
      using months_by_leap(2) [OF m(1,2), of Y] by simp
    with m(7) [OF False] show ?thesis by simp
  qed
  with m leap' have "valid_date (civil_from_days z)"
    by (simp add: civil valid_date_def)
  moreover have "day_number (civil_from_days z) = year_start y + 146097 * e - 306 + doy"
  proof (cases "doy < 306")
    case True
    have "days_before_year (y + e * 400 + 1) = year_start y + 146097 * e"
      using shift by (simp add: days_before_year_def year_start_def)
    then have "days_before_year (y + e * 400) = year_start y + 146097 * e - 365 - (if leap (y + e * 400) then 1 else 0)"
      using days_before_next_year [of "y + e * 400"] by (simp split: if_splits)
    moreover from True m(4) have "\<not> month_of doy \<le> 2" by simp
    ultimately show ?thesis
      using True m(5) months_by_leap(1) [OF m(1,2), of "y + e * 400"]
      by (simp add: civil day_number_def split: if_splits)
  next
    case False
    have "days_before_year (y + e * 400 + 1) = year_start y + 146097 * e"
      using shift by (simp add: days_before_year_def year_start_def)
    moreover from False m(4) have "month_of doy \<le> 2" by simp
    ultimately show ?thesis
      using False m(5) months_by_leap(1) [OF m(1,2), of "y + e * 400 + 1"]
      by (simp add: civil day_number_def)
  qed
  ultimately show ?thesis by (simp add: doy_def doe_def epoch_day_def)
qed

text \<open>A timestamp of the years 0 to 9999 has 24 characters and loses nothing: read back by its
  fixed columns it gives the input milliseconds. So distinct instants have distinct stamps, and
  the borrow of a day for times before the epoch is right.\<close>

theorem timestamp_roundtrip:
  assumes "0 \<le> cd_year (civil_from_days (ms div ms_per_day))"
    and "cd_year (civil_from_days (ms div ms_per_day)) \<le> 9999"
  shows "length (format_iso8601_utc_ms ms) = 24 \<and> parse_timestamp (format_iso8601_utc_ms ms) = ms"
proof -
  define date where "date = civil_from_days (ms div ms_per_day)"
  define r where "r = ms mod ms_per_day"
  have valid: "valid_date date" "day_number date = epoch_day + ms div ms_per_day"
    using civil_from_days_correct [of "ms div ms_per_day"] by (simp_all add: date_def)
  define y mo d where "y = pad0 4 (cd_year date)" and "mo = pad0 2 (cd_month date)" and "d = pad0 2 (cd_day date)"
  define h mi s f where "h = pad0 2 (r div 3600000)" and "mi = pad0 2 (r div 60000 mod 60)"
    and "s = pad0 2 (r div 1000 mod 60)" and "f = pad0 3 (r mod 1000)"
  have r: "0 \<le> r" "r < 86400000" by (simp_all add: r_def ms_per_day_def)
  then have hour: "0 \<le> r div 3600000" "r div 3600000 < 10 ^ 2" by simp_all
  have month_day: "0 \<le> cd_month date" "cd_month date < 10 ^ 2" "0 \<le> cd_day date" "cd_day date < 10 ^ 2"
    using valid(1) by (auto simp: valid_date_def month_length_def split: if_splits)
  have bounds: "0 \<le> n mod 60" "n mod 60 < 10 ^ 2" "0 \<le> n mod 1000" "n mod 1000 < 10 ^ 3" for n :: int
    using pos_mod_bound [of 60 n] by simp_all
  have year: "0 \<le> cd_year date" "cd_year date < 10 ^ 4"
    using assms unfolding date_def [symmetric] by simp_all
  have pos: "0 < (4::nat)" "0 < (2::nat)" "0 < (3::nat)" by simp_all
  note exact = pad0_exact [OF year pos(1)] pad0_exact [OF month_day(1,2) pos(2)]
    pad0_exact [OF month_day(3,4) pos(2)] pad0_exact [OF hour pos(2)]
    pad0_exact [OF bounds(1,2) pos(2)] pad0_exact [OF bounds(3,4) pos(3)]
  have len: "length y = 4" "length mo = 2" "length d = 2" "length h = 2" "length mi = 2" "length s = 2" "length f = 3"
    unfolding y_def mo_def d_def h_def mi_def s_def f_def by (rule exact)+
  have val: "dec_val y = cd_year date" "dec_val mo = cd_month date" "dec_val d = cd_day date"
      "dec_val h = r div 3600000" "dec_val mi = r div 60000 mod 60" "dec_val s = r div 1000 mod 60"
      "dec_val f = r mod 1000"
    unfolding y_def mo_def d_def h_def mi_def s_def f_def by (rule exact)+
  have t: "format_iso8601_utc_ms ms = y @ ''-'' @ mo @ ''-'' @ d @ ''T'' @ h @ '':'' @ mi @ '':'' @ s @ ''.'' @ f @ ''Z''"
  proof -
    have "0 < ms_per_day" by (simp add: ms_per_day_def)
    show ?thesis
      unfolding format_iso8601_utc_ms_def Let_def tmod_floor [OF \<open>0 < ms_per_day\<close>] prod.case
      by (simp only: date_def r_def y_def mo_def d_def h_def mi_def s_def f_def)
  qed
  have "parse_timestamp (format_iso8601_utc_ms ms) = ms div ms_per_day * ms_per_day +
      (r div 3600000 * 3600000 + r div 60000 mod 60 * 60000 + r div 1000 mod 60 * 1000 + r mod 1000)"
    using valid(2) by (simp add: parse_timestamp_def slice_def t len val numeral_eq_Suc day_number_def)
  also have "\<dots> = ms" by (simp add: time_of_day r_def)
  finally show ?thesis using len by (simp add: t)
qed

theorem timestamp_roundtrip_witness:
  "length (format_iso8601_utc_ms (- 1)) = 24 \<and> parse_timestamp (format_iso8601_utc_ms (- 1)) = - 1"
proof (rule timestamp_roundtrip)
  have "cd_year (civil_from_days (- 1 div ms_per_day)) = 1969" by code_simp
  then show "0 \<le> cd_year (civil_from_days (- 1 div ms_per_day))"
    "cd_year (civil_from_days (- 1 div ms_per_day)) \<le> 9999" by simp_all
qed

end
