(* ===== verification/Client.thy ===== *)
theory Client
  imports Carry Delivery Native_Crash Start_Gate Dedupe Sampler Frame_Stats Batch Session_Marker Signature Clock
begin

text \<open>
  \<^verbatim>\<open>src/client.h\<close>, \<^verbatim>\<open>src/client.cpp\<close> and \<^verbatim>\<open>src/client_reports.cpp\<close>: the SDK instance behind the C interface. Its
  state extends the delivery state of the worker, so the worker's operations act on it directly.
  Every method is one step; what a call reads from outside (clocks, random numbers, the locale's
  decimal separator) is its \<open>env\<close> argument, read once per call.
\<close>

unbundle bit_operations_syntax

datatype result =
    OK | Disabled | Suppressed
  | Invalid_Argument | Not_Initialized | Already_Initialized | Io_Error | Queue_Full | Timed_Out
  | Internal_Error

datatype level = Debug | Info | Warn | Error

fun level_label :: "level \<Rightarrow> string" where
  "level_label Debug = ''Debug''"
| "level_label Warn = ''Warning''"
| "level_label Error = ''Error''"
| "level_label Info = ''Info''"

section \<open>State\<close>

record env =
  en_iso :: string
  en_now :: int
  en_name :: string
  en_draw :: double
  en_random :: "64 word \<times> 64 word"
  en_separator :: string

record config =
  co_endpoint :: string
  co_token :: string
  co_build_version :: string
  co_os :: string
  co_arch :: string
  co_session_id :: string
  co_data_dir :: path
  co_heartbeat_interval :: int
  co_heartbeats_enabled :: bool
  co_session_log_enabled :: bool
  co_unclean_detection :: bool
  co_rtt_metric :: bool
  co_native_crash :: bool

text \<open>The members guarded by \<open>match_mutex_\<close> (the device is in \<open>device_state\<close>).\<close>

record match_state =
  ma_role :: string
  ma_server_id :: string
  ma_match_id :: string
  ma_environment :: string
  ma_region :: string
  ma_hostname :: string
  ma_level :: string

record client = worker +
  cl_config :: config
  cl_marker :: session_marker
  cl_breadcrumbs :: ring
  cl_dedupe :: dedupe
  cl_sampler :: sampler
  cl_event_batch :: batch
  cl_metric_batch :: batch
  cl_storage_available :: bool
  cl_last_flush_ns :: int
  cl_initialized :: bool
  cl_consent :: bool
  cl_gate :: start_gate
  cl_tracking_started :: bool
  cl_previous_marker :: "marker_data option"
  cl_had_previous_log :: bool
  cl_restored_crash :: bool
  cl_native_dump :: "crash_dump option"
  cl_identity :: identity
  cl_user_data :: user_data
  cl_device :: device_state
  cl_match :: match_state
  cl_frames :: frame_acc
  cl_heartbeat_stop :: bool
  cl_heartbeat_kick :: bool

definition crashes_path :: string where "crashes_path = ''/api/v1/ingest/crashes''"
definition bug_reports_path :: string where "bug_reports_path = ''/api/v1/ingest/bug-reports''"
definition events_path :: string where "events_path = ''/api/v1/ingest/events''"
definition heartbeats_path :: string where "heartbeats_path = ''/api/v1/ingest/heartbeats''"
definition events_batch_path :: string where "events_batch_path = ''/api/v1/ingest/events:batch''"
definition metrics_batch_path :: string where "metrics_batch_path = ''/api/v1/ingest/metrics:batch''"
definition pull_requests_path :: string where "pull_requests_path = ''/api/v1/pull-requests''"

definition min_heartbeat_interval_s :: int where "min_heartbeat_interval_s = 15"
definition max_heartbeat_interval_s :: int where "max_heartbeat_interval_s = 240"
definition default_heartbeat_interval_s :: int where "default_heartbeat_interval_s = 60"

definition identity_file_name :: string where "identity_file_name = ''identity''"
definition unclean_signature :: string where "unclean_signature = ''unclean-shutdown''"

definition unclean_stack_hint :: string where
  "unclean_stack_hint =
    ''Previous session ended without a clean shutdown (hard crash, OOM kill, or force quit)''"

section \<open>Helpers\<close>

text \<open>Two draws of the engine, each sixteen digits from its low nibble up.\<close>

definition random_session_id :: "64 word \<times> 64 word \<Rightarrow> string" where
  "random_session_id = (\<lambda>(v1, v2).
    concat (map (\<lambda>v. map (\<lambda>i. hex_digits ! unat (drop_bit (i * 4) v AND 0xF)) [0..<16]) [v1, v2]))"

fun ingest_path_for :: "sidecar_kind \<Rightarrow> string" where
  "ingest_path_for Crash = crashes_path"
| "ingest_path_for BugReport = bug_reports_path"
| "ingest_path_for Event = events_path"

definition trim_trailing_slash :: "string \<Rightarrow> string" where
  "trim_trailing_slash v = rev (dropWhile (\<lambda>c. c = CHR ''/'') (rev v))"

definition capture_allowed :: "client \<Rightarrow> bool" where
  "capture_allowed c \<longleftrightarrow> cl_initialized c \<and> cl_consent c"

definition record_breadcrumb :: "env \<Rightarrow> string \<Rightarrow> string \<Rightarrow> client \<Rightarrow> client" where
  "record_breadcrumb e lvl message c =
    c\<lparr>cl_breadcrumbs := ring_add lvl message (en_iso e) (cl_breadcrumbs c)\<rparr>"

definition enqueue_ingest ::
    "env \<Rightarrow> string \<Rightarrow> string \<Rightarrow> durability \<Rightarrow> sidecar_kind \<Rightarrow> bool \<Rightarrow> bool \<Rightarrow> client \<Rightarrow> client" where
  "enqueue_ingest e ingest_path body dur kind request_log log_from_previous c =
    (let job = new_job\<lparr>uj_url := co_endpoint (cl_config c) @ ingest_path, uj_body := body, uj_durability := dur,
                 uj_kind := kind, uj_request_log := request_log, uj_log_from_previous := log_from_previous,
                 uj_sign_body := True\<rparr>;
         (p, c) = (if dur = WriteAhead \<and> cl_storage_available c
                   then write_sidecar kind body (en_name e) c else ([], c))
     in enqueue (job\<lparr>uj_sidecar_path := p\<rparr>) c)"

section \<open>Batches\<close>

text \<open>One envelope's job, as queued by the loop of \<open>maybe_flush_batch\<close>.\<close>

definition batch_job :: "string \<Rightarrow> bool \<Rightarrow> string \<Rightarrow> upload_job" where
  "batch_job url suppress_rtt envelope =
    new_job\<lparr>uj_url := url, uj_body := envelope, uj_durability := PersistOnFailure, uj_no_persist := True,
      uj_sign_body := True, uj_suppress_rtt := suppress_rtt\<rparr>"

definition queue_envelopes :: "env \<Rightarrow> string \<Rightarrow> bool \<Rightarrow> string list \<Rightarrow> client \<Rightarrow> client" where
  "queue_envelopes e batch_path suppress_rtt envelopes c =
    fold (\<lambda>envelope c. enqueue (batch_job (co_endpoint (cl_config c) @ batch_path) suppress_rtt envelope)
                         (c\<lparr>cl_last_flush_ns := en_now e\<rparr>)) envelopes c"

definition flush_event_batch :: "env \<Rightarrow> bool \<Rightarrow> client \<Rightarrow> client" where
  "flush_event_batch e force c =
    (if \<not> batch_has_items (cl_event_batch c) then c
     else let (envelopes, b) = drain_envelopes_if_ready (en_iso e) (en_now e) force (cl_event_batch c);
              c = c\<lparr>cl_event_batch := b\<rparr>
          in queue_envelopes e events_batch_path False envelopes c)"

definition flush_metric_batch :: "env \<Rightarrow> bool \<Rightarrow> client \<Rightarrow> client" where
  "flush_metric_batch e force c =
    (if \<not> batch_has_items (cl_metric_batch c) then c
     else let (envelopes, b) = drain_envelopes_if_ready (en_iso e) (en_now e) force (cl_metric_batch c);
              c = c\<lparr>cl_metric_batch := b\<rparr>
          in queue_envelopes e metrics_batch_path True envelopes c)"

definition drain_ready_batches :: "env \<Rightarrow> client \<Rightarrow> client" where
  "drain_ready_batches e c =
    (if \<not> gate_is_set (cl_gate c) then c
     else flush_metric_batch e False (flush_event_batch e False c))"

definition flush_all_batches :: "env \<Rightarrow> client \<Rightarrow> client" where
  "flush_all_batches e c =
    (if \<not> gate_is_set (cl_gate c) then c
     else flush_metric_batch e True (flush_event_batch e True c))"

section \<open>Capture\<close>

definition add_breadcrumb :: "env \<Rightarrow> level \<Rightarrow> cstr \<Rightarrow> client \<Rightarrow> result \<times> client" where
  "add_breadcrumb e lvl message c =
    (if cstr_blank message then (Invalid_Argument, c)
     else if \<not> capture_allowed c then (Disabled, c)
     else (OK, record_breadcrumb e (level_label lvl) (cstr_or_empty message) c))"

definition log_line :: "env \<Rightarrow> level \<Rightarrow> cstr \<Rightarrow> client \<Rightarrow> result \<times> client" where
  "log_line e lvl line c =
    (if cstr_blank line then (Invalid_Argument, c)
     else if \<not> capture_allowed c then (Disabled, c)
     else
       let label = level_label lvl;
           c = (if co_session_log_enabled (cl_config c) \<and> cl_storage_available c
                then append_line (en_iso e) label (cstr_or_empty line) c else c)
       in (OK, record_breadcrumb e label (cstr_or_empty line) c))"

text \<open>The attribute loop shared by the live call and the pre-init buffer: entries without a key go.\<close>

definition usable_attributes :: "cstr list \<Rightarrow> cstr list \<Rightarrow> (string \<times> string) list" where
  "usable_attributes keys vals =
    map (\<lambda>(k, v). (cstr_or_empty k, cstr_or_empty v)) (filter (\<lambda>(k, v). \<not> cstr_blank k) (zip keys vals))"

definition arrays_missing :: "cstr list option \<Rightarrow> cstr list option \<Rightarrow> nat \<Rightarrow> bool" where
  "arrays_missing keys vals count \<longleftrightarrow> 0 < count \<and> (keys = None \<or> vals = None)"

definition the_array :: "cstr list option \<Rightarrow> nat \<Rightarrow> cstr list" where
  "the_array a count = (case a of None \<Rightarrow> [] | Some xs \<Rightarrow> take count xs)"

definition track_event ::
    "env \<Rightarrow> cstr \<Rightarrow> cstr list option \<Rightarrow> cstr list option \<Rightarrow> nat \<Rightarrow> client \<Rightarrow> result \<times> client" where
  "track_event e name keys vals count c =
    (if cstr_blank name then (Invalid_Argument, c)
     else if arrays_missing keys vals count then (Invalid_Argument, c)
     else if \<not> capture_allowed c then (Disabled, c)
     else if \<not> should_keep (cstr_or_empty name) (en_draw e) (cl_sampler c) then (OK, c)
     else
       let co = cl_config c; ctx = cl_match c;
           payload = \<lparr>ev_occurred_at_iso = en_iso e, ev_build_version = co_build_version co,
             ev_os = co_os co, ev_arch = co_arch co, ev_name = cstr_or_empty name,
             ev_user_id = current_user_id (cl_identity c),
             ev_attributes = usable_attributes (the_array keys count) (the_array vals count),
             ev_role = ma_role ctx, ev_server_id = ma_server_id ctx, ev_match_id = ma_match_id ctx,
             ev_session_id = co_session_id co, ev_environment = ma_environment ctx\<rparr>;
           (full, b) = batch_add (build_event_json payload) (en_now e) (cl_event_batch c);
           c = c\<lparr>cl_event_batch := b\<rparr>
       in (OK, if full then worker_wake c else c))"

definition track_metric :: "env \<Rightarrow> cstr \<Rightarrow> double \<Rightarrow> cstr \<Rightarrow> client \<Rightarrow> result \<times> client" where
  "track_metric e name v unit c =
    (if cstr_blank name then (Invalid_Argument, c)
     else if \<not> isfinite v then (Invalid_Argument, c)
     else if \<not> capture_allowed c then (Disabled, c)
     else if \<not> should_keep (cstr_or_empty name) (en_draw e) (cl_sampler c) then (OK, c)
     else
       let co = cl_config c; ctx = cl_match c;
           payload = \<lparr>mt_name = cstr_or_empty name, mt_value = v, mt_unit = cstr_or_empty unit,
             mt_occurred_at_iso = en_iso e, mt_build_version = co_build_version co, mt_os = co_os co,
             mt_arch = co_arch co, mt_user_id = current_user_id (cl_identity c),
             mt_role = ma_role ctx, mt_server_id = ma_server_id ctx, mt_match_id = ma_match_id ctx,
             mt_session_id = co_session_id co, mt_environment = ma_environment ctx\<rparr>;
           (full, b) = batch_add (build_metric_json (en_separator e) payload) (en_now e) (cl_metric_batch c);
           c = c\<lparr>cl_metric_batch := b\<rparr>
       in (OK, if full then worker_wake c else c))"

definition record_rtt_metric :: "env \<Rightarrow> double \<Rightarrow> client \<Rightarrow> client" where
  "record_rtt_metric e ms c = snd (track_metric e (Some ''tombstone.rtt_ms'') ms (Some ''ms'') c)"

definition want_log :: "bool \<Rightarrow> client \<Rightarrow> bool" where
  "want_log attach_log c \<longleftrightarrow> attach_log \<and> co_session_log_enabled (cl_config c) \<and> cl_storage_available c"

definition report_crash :: "env \<Rightarrow> cstr \<Rightarrow> cstr \<Rightarrow> cstr \<Rightarrow> bool \<Rightarrow> client \<Rightarrow> result \<times> client" where
  "report_crash e signature stack_hint stack_trace attach_log c =
    (if \<not> capture_allowed c then (Disabled, c)
     else
       let hint = (if \<not> cstr_blank stack_hint then cstr_or_empty stack_hint else ''Crash'');
           trace = cstr_or_empty stack_trace;
           effective_signature = (if \<not> cstr_blank signature then cstr_or_empty signature
                                  else compute_crash_signature hint trace);
           (decision, d) = dedupe_check effective_signature (en_now e) (cl_dedupe c);
           c = c\<lparr>cl_dedupe := d\<rparr>
       in if \<not> dc_allowed decision
          then (Suppressed, record_breadcrumb e ''Error''
                 (''crash suppressed (duplicate x'' @ dec_int (dc_suppressed decision) @ '' within 60s): '' @ hint) c)
          else
            let want_log = want_log attach_log c;
                c = (if want_log then append_line (en_iso e) ''Crash'' (hint @ [CHR 0x0A] @ trace) c else c);
                co = cl_config c; ctx = cl_match c;
                payload = \<lparr>cp_occurred_at_iso = en_iso e, cp_build_version = co_build_version co,
                  cp_os = co_os co, cp_arch = co_arch co, cp_signature = effective_signature,
                  cp_stack_hint = hint, cp_stack_trace = trace,
                  cp_breadcrumbs = ring_snapshot (cl_breadcrumbs c),
                  cp_user_id = current_user_id (cl_identity c),
                  cp_prior_user_id = current_prior_user_id (cl_identity c),
                  cp_steam_id = id_steam (cl_identity c), cp_log = want_log,
                  cp_role = ma_role ctx, cp_server_id = ma_server_id ctx, cp_match_id = ma_match_id ctx,
                  cp_session_id = co_session_id co, cp_environment = ma_environment ctx,
                  cp_device = ds_device (cl_device c), cp_crash_type = [], cp_os_signal = 0\<rparr>;
                c = flush_all_batches e c;
                c = enqueue_ingest e crashes_path (build_crash_json (en_separator e) payload) WriteAhead
                      Crash want_log False c
            in (OK, if want_log then flush_log c else c))"

definition report_bug :: "env \<Rightarrow> cstr \<Rightarrow> cstr \<Rightarrow> bool \<Rightarrow> client \<Rightarrow> result \<times> client" where
  "report_bug e category message attach_log c =
    (if cstr_blank message then (Invalid_Argument, c)
     else if \<not> capture_allowed c then (Disabled, c)
     else
       let want_log = want_log attach_log c; co = cl_config c; ctx = cl_match c;
           payload = \<lparr>br_occurred_at_iso = en_iso e, br_build_version = co_build_version co,
             br_os = co_os co, br_arch = co_arch co, br_category = cstr_or_empty category,
             br_message = cstr_or_empty message, br_user_id = current_user_id (cl_identity c),
             br_prior_user_id = current_prior_user_id (cl_identity c),
             br_steam_id = id_steam (cl_identity c), br_breadcrumbs = ring_snapshot (cl_breadcrumbs c),
             br_log = want_log, br_role = ma_role ctx, br_server_id = ma_server_id ctx,
             br_match_id = ma_match_id ctx, br_session_id = co_session_id co,
             br_environment = ma_environment ctx, br_device = ds_device (cl_device c)\<rparr>
       in (OK, enqueue_ingest e bug_reports_path (build_bug_report_json (en_separator e) payload) WriteAhead
                 BugReport want_log False c))"

definition set_level :: "env \<Rightarrow> cstr \<Rightarrow> client \<Rightarrow> result \<times> client" where
  "set_level e level_name c =
    (if cstr_blank level_name then (Invalid_Argument, c)
     else if \<not> capture_allowed c then (Disabled, c)
     else let lvl = clamped level_name max_message_bytes;
              c = c\<lparr>cl_match := (cl_match c)\<lparr>ma_level := lvl\<rparr>\<rparr>
          in (OK, record_breadcrumb e ''Info'' (''[scene] level: '' @ lvl) c))"

definition request_player_logs :: "cstr \<Rightarrow> cstr \<Rightarrow> cstr \<Rightarrow> client \<Rightarrow> result \<times> client" where
  "request_player_logs target_type target_value reason c =
    (if \<not> cl_initialized c then (Not_Initialized, c)
     else if cstr_blank target_type \<or> cstr_blank target_value \<or> cstr_blank reason then (Invalid_Argument, c)
     else (OK, enqueue (new_job\<lparr>uj_url := co_endpoint (cl_config c) @ pull_requests_path,
                  uj_body := build_pull_request_json (cstr_or_empty target_type) (cstr_or_empty target_value)
                               (cstr_or_empty reason),
                  uj_durability := PersistOnFailure, uj_no_persist := True\<rparr>) c))"

definition set_sample_rate :: "cstr \<Rightarrow> double \<Rightarrow> client \<Rightarrow> client" where
  "set_sample_rate name rate c =
    (if cstr_blank name then c else c\<lparr>cl_sampler := set_rate (cstr_or_empty name) rate (cl_sampler c)\<rparr>)"

definition report_frame :: "double \<Rightarrow> client \<Rightarrow> client" where
  "report_frame frame_ms c =
    (if \<not> capture_allowed c then c else c\<lparr>cl_frames := frame_sample frame_ms (cl_frames c)\<rparr>)"

end
