(* ===== verification/Platform.thy ===== *)
theory Platform
  imports File_System
begin

text \<open>
  \<^verbatim>\<open>src/platform.cpp\<close>: the wire names of the build, the default data directory and the machine id. The
  build's target is a value, the process environment a function, the Windows registry and the macOS
  host id are arguments.
\<close>

datatype build_os = Windows | Macos | Linux | Other_OS

datatype build_arch = X64 | Arm64 | X86 | Other_Arch

fun os_name :: "build_os \<Rightarrow> string" where
  "os_name Windows = ''windows''"
| "os_name Macos = ''macos''"
| "os_name Linux = ''linux''"
| "os_name Other_OS = ''other''"

fun arch_name :: "build_arch \<Rightarrow> string" where
  "arch_name X64 = ''x64''"
| "arch_name Arm64 = ''arm64''"
| "arch_name X86 = ''x86''"
| "arch_name Other_Arch = ''other''"

definition env_or_empty :: "(string \<Rightarrow> cstr) \<Rightarrow> string \<Rightarrow> string" where
  "env_or_empty getenv name = cstr_or_empty (getenv name)"

text \<open>\<open>to_path\<close> is the conversion of a string to a path.\<close>

definition default_data_dir :: "build_os \<Rightarrow> (string \<Rightarrow> path) \<Rightarrow> (string \<Rightarrow> cstr) \<Rightarrow> path" where
  "default_data_dir os to_path getenv =
    (let home = env_or_empty getenv ''HOME'' in
     case os of
       Windows \<Rightarrow>
         if env_or_empty getenv ''LOCALAPPDATA'' \<noteq> []
         then to_path (env_or_empty getenv ''LOCALAPPDATA'') @ [''Tombstone''] else [''tombstone-data'']
     | Macos \<Rightarrow>
         if home \<noteq> [] then to_path home @ [''Library'', ''Application Support'', ''Tombstone'']
         else [''tombstone-data'']
     | _ \<Rightarrow>
         if env_or_empty getenv ''XDG_DATA_HOME'' \<noteq> []
         then to_path (env_or_empty getenv ''XDG_DATA_HOME'') @ [''tombstone'']
         else if home \<noteq> [] then to_path home @ [''.local'', ''share'', ''tombstone'']
         else [''tombstone-data''])"

text \<open>\<open>std::getline\<close>: the first line; and the loop that drops line ends and blanks at its end.\<close>

definition first_line :: "string \<Rightarrow> string" where
  "first_line s = takeWhile (\<lambda>c. c \<noteq> CHR 0x0A) s"

definition drop_line_end :: "string \<Rightarrow> string" where
  "drop_line_end s = rev (dropWhile (\<lambda>c. c = CHR 0x0A \<or> c = CHR 0x0D \<or> c = CHR '' '') (rev s))"

text \<open>\<open>native\<close> is what the registry or the host id call gives, \<^const>\<open>None\<close> when it fails.\<close>

definition read_machine_id :: "build_os \<Rightarrow> cstr \<Rightarrow> file_system \<Rightarrow> string" where
  "read_machine_id os native fs =
    (case os of
       Windows \<Rightarrow> cstr_or_empty native
     | Macos \<Rightarrow> cstr_or_empty native
     | Linux \<Rightarrow> (case fs_read fs [''etc'', ''machine-id''] of
                  None \<Rightarrow> [] | Some text \<Rightarrow> drop_line_end (first_line text))
     | Other_OS \<Rightarrow> [])"

end
