(* ===== verification/Lifecycle.thy ===== *)
theory Lifecycle
  imports Client Platform
begin

text \<open>
  The rest of the client (\<^verbatim>\<open>src/client.cpp\<close>): context setters, consent and the session gate, the heartbeat,
  its acknowledgement, start-up with crash recovery, flush and shutdown.
\<close>

section \<open>Context\<close>

definition client_set_user :: "cstr \<Rightarrow> cstr \<Rightarrow> client \<Rightarrow> result \<times> client" where
  "client_set_user user_id steam_id c =
    (let (i, m) = set_user user_id steam_id (cl_identity c, cl_user_data c)
     in (OK, c\<lparr>cl_identity := i, cl_user_data := m\<rparr>))"

definition client_set_user_metadata ::
    "cstr list option \<Rightarrow> cstr list option \<Rightarrow> nat \<Rightarrow> client \<Rightarrow> result \<times> client" where
  "client_set_user_metadata keys vals count c =
    (if arrays_missing keys vals count then (Invalid_Argument, c)
     else (OK, c\<lparr>cl_user_data := set_user_metadata (map_option (take count) keys) (map_option (take count) vals)
                                  (cl_user_data c)\<rparr>))"

definition set_environment :: "cstr \<Rightarrow> client \<Rightarrow> result \<times> client" where
  "set_environment environment c =
    (if cstr_blank environment then (Invalid_Argument, c)
     else (OK, c\<lparr>cl_match := (cl_match c)\<lparr>ma_environment := clamped environment limit_environment\<rparr>\<rparr>))"

definition set_server_info :: "cstr \<Rightarrow> cstr \<Rightarrow> client \<Rightarrow> result \<times> client" where
  "set_server_info region hostname c =
    (let m = cl_match c;
         m = (if region \<noteq> None then m\<lparr>ma_region := clamped region limit_region\<rparr> else m);
         m = (if hostname \<noteq> None then m\<lparr>ma_hostname := clamped hostname limit_hostname\<rparr> else m)
     in (OK, c\<lparr>cl_match := m\<rparr>))"

definition mark_dedicated_server :: "cstr \<Rightarrow> cstr \<Rightarrow> cstr \<Rightarrow> client \<Rightarrow> result \<times> client" where
  "mark_dedicated_server server_id region hostname c =
    (let m = (cl_match c)\<lparr>ma_role := ''server''\<rparr>;
         m = (if \<not> cstr_blank server_id then m\<lparr>ma_server_id := clamped server_id limit_server_id\<rparr> else m);
         m = (if \<not> cstr_blank region then m\<lparr>ma_region := clamped region limit_region\<rparr> else m);
         m = (if \<not> cstr_blank hostname then m\<lparr>ma_hostname := clamped hostname limit_hostname\<rparr> else m)
     in (OK, c\<lparr>cl_match := m\<rparr>))"

definition set_match_context :: "cstr \<Rightarrow> cstr \<Rightarrow> client \<Rightarrow> result \<times> client" where
  "set_match_context server_id match_id c =
    (OK, c\<lparr>cl_match := (cl_match c)\<lparr>ma_server_id := clamped server_id limit_server_id,
                                     ma_match_id := clamped match_id limit_match_id\<rparr>\<rparr>)"

text \<open>\<open>writable\<close> says whether the caller passed a buffer; the result includes what is written to it.\<close>

definition start_match :: "env \<Rightarrow> bool \<Rightarrow> nat \<Rightarrow> client \<Rightarrow> result \<times> cstr \<times> client" where
  "start_match e writable out_cap c =
    (if \<not> writable \<or> out_cap = 0 then (Invalid_Argument, None, c)
     else let ident = random_session_id (en_random e) in
       if out_cap < length ident + 1 then (Invalid_Argument, None, c)
       else (OK, Some ident, c\<lparr>cl_match := (cl_match c)\<lparr>ma_role := ''server'', ma_match_id := ident\<rparr>\<rparr>))"

definition end_match :: "client \<Rightarrow> result \<times> client" where
  "end_match c = (OK, c\<lparr>cl_match := (cl_match c)\<lparr>ma_match_id := []\<rparr>\<rparr>)"

text \<open>\<open>tombstone_device_t\<close>.\<close>

record device_options =
  do_model :: cstr
  do_type :: cstr
  do_os :: cstr
  do_os_family :: cstr
  do_cpu :: cstr
  do_cpu_count :: int
  do_ram_mb :: int
  do_gpu :: cstr
  do_gpu_vendor :: cstr
  do_gpu_version :: cstr
  do_gpu_api :: cstr
  do_vram_mb :: int
  do_screen :: cstr
  do_screen_dpi :: double
  do_refresh_rate :: double
  do_orientation :: cstr
  do_fullscreen :: int
  do_language :: cstr
  do_engine :: cstr
  do_scripting_backend :: cstr
  do_platform :: cstr

definition copy_device :: "device_options option \<Rightarrow> device_payload" where
  "copy_device device =
    (case device of
       None \<Rightarrow> no_device
     | Some d \<Rightarrow>
         \<lparr>dv_model = clamped (do_model d) limit_device_model, dv_type = clamped (do_type d) limit_device_type,
          dv_os = clamped (do_os d) limit_device_os, dv_os_family = clamped (do_os_family d) limit_device_os_family,
          dv_cpu = clamped (do_cpu d) limit_device_cpu, dv_cpu_count = do_cpu_count d, dv_ram_mb = do_ram_mb d,
          dv_gpu = clamped (do_gpu d) limit_device_gpu, dv_gpu_vendor = clamped (do_gpu_vendor d) limit_device_gpu_vendor,
          dv_gpu_version = clamped (do_gpu_version d) limit_device_gpu_version,
          dv_gpu_api = clamped (do_gpu_api d) limit_device_gpu_api, dv_vram_mb = do_vram_mb d,
          dv_screen = clamped (do_screen d) limit_device_screen, dv_screen_dpi = do_screen_dpi d,
          dv_refresh_rate = do_refresh_rate d, dv_orientation = clamped (do_orientation d) limit_device_orientation,
          dv_fullscreen = (do_fullscreen d \<noteq> 0), dv_language = clamped (do_language d) limit_device_language,
          dv_engine = clamped (do_engine d) limit_device_engine,
          dv_scripting_backend = clamped (do_scripting_backend d) limit_device_scripting_backend,
          dv_platform = clamped (do_platform d) limit_device_platform\<rparr>)"

definition set_device :: "device_options option \<Rightarrow> client \<Rightarrow> result \<times> client" where
  "set_device device c = (OK, c\<lparr>cl_device := change_device (copy_device device) (cl_device c)\<rparr>)"

section \<open>Recovery of the previous session\<close>

text \<open>The fields the two recovery reports take from the dead session or from this one.\<close>

definition or_else :: "string \<Rightarrow> string \<Rightarrow> string" where
  "or_else a b = (if a = [] then b else a)"

definition recovery_payload :: "env \<Rightarrow> marker_data \<Rightarrow> client \<Rightarrow> crash_payload" where
  "recovery_payload e previous c =
    \<lparr>cp_occurred_at_iso = en_iso e,
     cp_build_version = or_else (md_build_version previous) (co_build_version (cl_config c)),
     cp_os = or_else (md_os previous) (co_os (cl_config c)), cp_arch = or_else (md_arch previous) (co_arch (cl_config c)),
     cp_signature = [], cp_stack_hint = [], cp_stack_trace = [], cp_breadcrumbs = [],
     cp_user_id = current_user_id (cl_identity c), cp_prior_user_id = [], cp_steam_id = id_steam (cl_identity c),
     cp_log = (co_session_log_enabled (cl_config c) \<and> cl_had_previous_log c), cp_role = [], cp_server_id = [],
     cp_match_id = [], cp_session_id = [], cp_environment = ma_environment (cl_match c),
     cp_device = ds_device (cl_device c), cp_crash_type = [], cp_os_signal = 0\<rparr>"

definition native_frames_text :: "crash_frame list \<Rightarrow> string" where
  "native_frames_text frames =
    concat (map (\<lambda>f. cf_module f @ ''+'' @ hex_to (cf_offset f) @
                  (if cf_build_id f \<noteq> [] then '' '' @ cf_build_id f else []) @ [CHR 0x0A]) frames)"

definition report_native_crash :: "env \<Rightarrow> marker_data \<Rightarrow> crash_dump \<Rightarrow> client \<Rightarrow> client" where
  "report_native_crash e previous dump c =
    (let frames_text = native_frames_text (cd_frames dump);
         sig_name = signal_name (cd_signal dump);
         payload = (recovery_payload e previous c)\<lparr>
           cp_signature := compute_crash_signature sig_name frames_text,
           cp_stack_hint := ''Native crash: '' @ sig_name @ '' at '' @ hex_to (cd_fault dump),
           cp_stack_trace := frames_text,
           cp_crash_type := (if cd_signal dump = 6 then ''signal'' else ''native_crash''),
           cp_os_signal := cd_signal dump\<rparr>
     in enqueue_ingest e crashes_path (build_crash_json (en_separator e) payload) WriteAhead Crash (cp_log payload) True c)"

definition report_unclean_shutdown :: "env \<Rightarrow> marker_data \<Rightarrow> client \<Rightarrow> client" where
  "report_unclean_shutdown e previous c =
    (if cl_restored_crash c then c\<lparr>cl_native_dump := None\<rparr>
     else
       case cl_native_dump c of
         Some dump \<Rightarrow> report_native_crash e previous dump (c\<lparr>cl_native_dump := None\<rparr>)
       | None \<Rightarrow>
           let payload = (recovery_payload e previous c)\<lparr>cp_signature := unclean_signature, cp_stack_hint := unclean_stack_hint\<rparr>
           in enqueue_ingest e crashes_path (build_crash_json (en_separator e) payload) WriteAhead Crash
                (cp_log payload) True c)"

definition start_session_tracking :: "env \<Rightarrow> client \<Rightarrow> client" where
  "start_session_tracking e c =
    (if cl_tracking_started c \<or> \<not> co_unclean_detection (cl_config c) \<or> \<not> cl_storage_available c then c
     else
       let co = cl_config c;
           c = c\<lparr>cl_tracking_started := True\<rparr>;
           c = c\<lparr>wk_disk := marker_write \<lparr>md_session_id = co_session_id co, md_started_at_iso = en_iso e,
                   md_build_version = co_build_version co, md_os = co_os co, md_arch = co_arch co\<rparr>
                   (cl_marker c) (wk_disk c)\<rparr>
       in case cl_previous_marker c of
            None \<Rightarrow> c
          | Some previous \<Rightarrow> report_unclean_shutdown e previous (c\<lparr>cl_previous_marker := None\<rparr>))"

text \<open>One restored payload, and the loop over the scan.\<close>

definition restored_job :: "string \<Rightarrow> sidecar_record \<Rightarrow> upload_job" where
  "restored_job endpoint r =
    new_job\<lparr>uj_url := endpoint @ ingest_path_for (sr_kind r), uj_body := sr_body r, uj_durability := WriteAhead,
      uj_kind := sr_kind r, uj_sidecar_path := sr_path r,
      uj_request_log := (sr_kind r \<noteq> Event \<and> find_bool_field (sr_body r) ''log'' = Some True),
      uj_log_from_previous := True, uj_sign_body := True\<rparr>"

definition restore_sidecar :: "sidecar_record \<Rightarrow> client \<Rightarrow> client" where
  "restore_sidecar r c =
    (let c = (if sr_kind r = Crash then c\<lparr>cl_restored_crash := True\<rparr> else c)
     in enqueue (restored_job (co_endpoint (cl_config c)) r) c)"

definition drain_sidecars :: "client \<Rightarrow> client" where
  "drain_sidecars c = fold restore_sidecar (sidecar_scan (wk_sidecars c) (wk_disk c)) c"

section \<open>Consent and the session gate\<close>

definition set_consent :: "env \<Rightarrow> bool \<Rightarrow> client \<Rightarrow> result \<times> client" where
  "set_consent e granted c =
    (let was_granted = cl_consent c; c = c\<lparr>cl_consent := granted\<rparr> in
     if granted \<and> cl_initialized c then (OK, start_session_tracking e c)
     else if \<not> granted \<and> was_granted then (OK, c\<lparr>cl_breadcrumbs := ring_clear (cl_breadcrumbs c)\<rparr>)
     else (OK, c))"

definition start_session :: "client \<Rightarrow> result \<times> client" where
  "start_session c =
    (let (opened, g) = gate_set (cl_gate c); c = c\<lparr>cl_gate := g\<rparr> in
     if opened
     then let c = c\<lparr>cl_heartbeat_kick := True\<rparr> in (OK, if cl_initialized c then worker_wake c else c)
     else (OK, c))"

section \<open>Heartbeats\<close>

definition heartbeat_body :: "env \<Rightarrow> client \<Rightarrow> heartbeat_payload \<times> client" where
  "heartbeat_body e c =
    (let co = cl_config c; ctx = cl_match c;
         (prior, i) = beat_prior (cl_identity c);
         (device, d) = beat_device (cl_device c);
         (metadata, m) = beat_metadata (cl_user_data c);
         (frames, a) = frame_consume (cl_frames c)
     in (\<lparr>hb_session_id = co_session_id co, hb_occurred_at_iso = en_iso e, hb_build_version = co_build_version co,
          hb_os = co_os co, hb_arch = co_arch co, hb_user_id = current_user_id (cl_identity c),
          hb_prior_user_id = prior, hb_metadata_json = metadata, hb_has_frame_stats = fs_valid frames,
          hb_fps_avg = (if fs_valid frames then fs_fps_avg frames else d_zero),
          hb_slow_frame_pct = (if fs_valid frames then fs_slow_frame_pct frames else d_zero),
          hb_hitch_count = (if fs_valid frames then fs_hitch_count frames else 0),
          hb_worst_frame_ms = (if fs_valid frames then fs_worst_frame_ms frames else 0),
          hb_role = (if ma_role ctx = [] then ''client'' else ma_role ctx), hb_server_id = ma_server_id ctx,
          hb_match_id = ma_match_id ctx, hb_region = ma_region ctx, hb_hostname = ma_hostname ctx,
          hb_environment = ma_environment ctx, hb_device = (case device of None \<Rightarrow> no_device | Some v \<Rightarrow> v)\<rparr>,
         c\<lparr>cl_identity := i, cl_device := d, cl_user_data := m, cl_frames := a\<rparr>))"

definition heartbeat_job :: "string \<Rightarrow> string \<Rightarrow> upload_job" where
  "heartbeat_job url body =
    new_job\<lparr>uj_url := url, uj_body := body, uj_durability := Ephemeral, uj_parse_ack := True, uj_sign_body := True\<rparr>"

text \<open>One pass of the loop of \<open>heartbeat_loop\<close>: the beat, and what the wait after it resets.\<close>

definition heartbeat_pass :: "env \<Rightarrow> client \<Rightarrow> client" where
  "heartbeat_pass e c =
    (if cl_heartbeat_stop c then c
     else
       let c = (if capture_allowed c \<and> gate_is_set (cl_gate c)
                then let (payload, c) = heartbeat_body e c
                     in enqueue (heartbeat_job (co_endpoint (cl_config c) @ heartbeats_path)
                                  (build_heartbeat_json (en_separator e) payload)) c
                else c)
       in c\<lparr>cl_heartbeat_kick := False\<rparr>)"

definition fulfil_job :: "client \<Rightarrow> pull_request \<Rightarrow> upload_job" where
  "fulfil_job c request =
    new_job\<lparr>uj_url := co_endpoint (cl_config c) @ pull_requests_path @ ''/'' @ pr_request_id request @ ''/fulfill'',
      uj_body := build_pull_fulfill_json (current_user_id (cl_identity c)) (co_session_id (cl_config c))
                   (ma_match_id (cl_match c)) (ma_server_id (cl_match c)) (pr_fulfill_nonce request)
                   (pr_nonce_expiry request),
      uj_durability := PersistOnFailure, uj_request_log := True, uj_no_persist := True\<rparr>"

definition request_is_ours :: "client \<Rightarrow> pull_request \<Rightarrow> bool" where
  "request_is_ours c request \<longleftrightarrow>
    pr_request_id request \<noteq> [] \<and>
    pull_request_targets_client (pr_target_type request) (pr_target_value request)
      (current_user_id (cl_identity c)) (co_session_id (cl_config c)) (ma_match_id (cl_match c))
      (ma_server_id (cl_match c))"

definition handle_heartbeat_ack :: "string \<Rightarrow> client \<Rightarrow> client" where
  "handle_heartbeat_ack response_body c =
    (let c = c\<lparr>cl_device := ack_device (cl_device c), cl_identity := ack_prior (cl_identity c),
               cl_user_data := ack_metadata (cl_user_data c)\<rparr> in
     if \<not> capture_allowed c \<or> response_body = [] then c
     else fold (\<lambda>request. enqueue (fulfil_job c request))
            (filter (request_is_ours c) (find_pending_requests response_body)) c)"

text \<open>The callbacks the client installs on the worker, with the readings of the round they run in.\<close>

definition client_handlers :: "env \<Rightarrow> bool \<Rightarrow> client handlers" where
  "client_handlers e rtt =
    \<lparr>hd_drain = Some (drain_ready_batches e), hd_ack = Some handle_heartbeat_ack,
     hd_rtt = (if rtt then Some (record_rtt_metric e) else None)\<rparr>"

section \<open>Start-up\<close>

text \<open>\<open>tombstone_options\<close>, without the log callback.\<close>

record options =
  op_endpoint :: cstr
  op_token :: cstr
  op_build_version :: cstr
  op_data_dir :: cstr
  op_environment :: cstr
  op_heartbeat_interval_s :: int
  op_enable_heartbeats :: bool
  op_enable_session_log :: bool
  op_enable_unclean_detection :: bool
  op_consent_granted :: bool
  op_auto_start_session :: bool
  op_enable_rtt_metric :: bool
  op_enable_native_crash :: bool

text \<open>
  What the machine contributes at start: the target, the environment, whether the data directory
  and the sidecar directories could be created, the machine id source, and for the native handler
  the loaded modules and whether a signal action could be set.
\<close>

record machine =
  mc_os :: build_os
  mc_arch :: build_arch
  mc_to_path :: "string \<Rightarrow> path"
  mc_getenv :: "string \<Rightarrow> cstr"
  mc_native_id :: cstr
  mc_dir_ok :: bool
  mc_sidecar_dirs_ok :: bool
  mc_loaded :: "(64 word \<times> cstr \<times> phdr list) list"
  mc_sigaction_ok :: bool

definition new_client :: "file_system \<Rightarrow> client" where
  "new_client fs =
    \<lparr>wk_session_log = new_session_log, wk_sidecars = None, wk_disk = fs, wk_queue = [], wk_running = False,
     wk_in_flight = False, wk_previous_log_claimed = False, wk_wake_requested = False, wk_next_log_flush = 0,
     cl_config = \<lparr>co_endpoint = [], co_token = [], co_build_version = [], co_os = [], co_arch = [],
       co_session_id = [], co_data_dir = [], co_heartbeat_interval = 60, co_heartbeats_enabled = True,
       co_session_log_enabled = True, co_unclean_detection = True, co_rtt_metric = True, co_native_crash = False\<rparr>,
     cl_marker = None, cl_breadcrumbs = new_ring default_capacity, cl_dedupe = new_dedupe (seconds 60),
     cl_sampler = [], cl_event_batch = new_batch, cl_metric_batch = new_batch, cl_storage_available = False,
     cl_last_flush_ns = 0, cl_initialized = False, cl_consent = True, cl_gate = new_gate,
     cl_tracking_started = False, cl_previous_marker = None, cl_had_previous_log = False,
     cl_restored_crash = False, cl_native_dump = None, cl_identity = new_identity, cl_user_data = new_user_data,
     cl_device = new_device_state,
     cl_match = \<lparr>ma_role = [], ma_server_id = [], ma_match_id = [], ma_environment = [], ma_region = [],
       ma_hostname = [], ma_level = []\<rparr>,
     cl_frames = new_frame_acc, cl_heartbeat_stop = False, cl_heartbeat_kick = False\<rparr>"

definition configure_storage :: "machine \<Rightarrow> client \<Rightarrow> client" where
  "configure_storage mc c =
    (if \<not> mc_dir_ok mc then c
     else
       let co = cl_config c; dir = co_data_dir co;
           c = c\<lparr>cl_storage_available := True, wk_sidecars := sidecar_configure dir (mc_sidecar_dirs_ok mc),
                 cl_marker := marker_configure dir\<rparr>;
           c = (if co_session_log_enabled co
                then let (had, l, fs) = log_rotate (log_configure dir (wk_session_log c)) (wk_disk c)
                     in c\<lparr>cl_had_previous_log := had, wk_session_log := l, wk_disk := fs\<rparr>
                else c);
           c = (if co_unclean_detection co
                then let (previous, fs) = marker_take_previous (cl_marker c) (wk_disk c)
                     in c\<lparr>cl_previous_marker := previous, wk_disk := fs\<rparr>
                else c\<lparr>wk_disk := marker_remove (cl_marker c) (wk_disk c)\<rparr>)
       in if co_native_crash co
          then let (dump, fs) = take_previous_dump dir (wk_disk c) in c\<lparr>cl_native_dump := dump, wk_disk := fs\<rparr>
          else c)"

definition read_persisted_identity :: "client \<Rightarrow> string" where
  "read_persisted_identity c =
    (if \<not> cl_storage_available c then []
     else case fs_read (wk_disk c) (co_data_dir (cl_config c) @ [identity_file_name]) of
            None \<Rightarrow> []
          | Some text \<Rightarrow> let ident = drop_line_end (first_line text) in if is_valid ident then ident else [])"

definition persist_identity :: "string \<Rightarrow> client \<Rightarrow> client" where
  "persist_identity ident c =
    (if \<not> cl_storage_available c then c
     else c\<lparr>wk_disk := snd (fs_write (co_data_dir (cl_config c) @ [identity_file_name]) ident (wk_disk c))\<rparr>)"

definition acquire_device_identity :: "env \<Rightarrow> machine \<Rightarrow> client \<Rightarrow> client" where
  "acquire_device_identity e mc c =
    (let ident = read_persisted_identity c;
         (ident, c) =
           (if ident = []
            then let source = read_machine_id (mc_os mc) (mc_native_id mc) (wk_disk c);
                     source = (if source = [] then random_session_id (en_random e) else source);
                     ident = derive (co_token (cl_config c)) source
                 in (ident, persist_identity ident c)
            else (ident, c))
     in c\<lparr>cl_identity := (cl_identity c)\<lparr>id_provisional := ident\<rparr>\<rparr>)"

definition clamp_interval :: "int \<Rightarrow> int" where
  "clamp_interval requested =
    (let interval = (if 0 < requested then requested else default_heartbeat_interval_s)
     in if interval < min_heartbeat_interval_s then min_heartbeat_interval_s
        else if max_heartbeat_interval_s < interval then max_heartbeat_interval_s else interval)"

definition client_config :: "env \<Rightarrow> machine \<Rightarrow> options \<Rightarrow> config" where
  "client_config e mc op =
    \<lparr>co_endpoint = trim_trailing_slash (cstr_or_empty (op_endpoint op)), co_token = cstr_or_empty (op_token op),
     co_build_version = cstr_or_empty (op_build_version op), co_os = os_name (mc_os mc), co_arch = arch_name (mc_arch mc),
     co_session_id = random_session_id (en_random e),
     co_data_dir = (if \<not> cstr_blank (op_data_dir op) then mc_to_path mc (cstr_or_empty (op_data_dir op))
                    else default_data_dir (mc_os mc) (mc_to_path mc) (mc_getenv mc)),
     co_heartbeat_interval = clamp_interval (op_heartbeat_interval_s op),
     co_heartbeats_enabled = op_enable_heartbeats op, co_session_log_enabled = op_enable_session_log op,
     co_unclean_detection = op_enable_unclean_detection op, co_rtt_metric = op_enable_rtt_metric op,
     co_native_crash = op_enable_native_crash op\<rparr>"

text \<open>
  \<open>init\<close>. The handler state of the process is passed through; \<^const>\<open>None\<close> would be an out-of-bounds read while
  the module table is built.
\<close>

definition install_native ::
    "machine \<Rightarrow> handler_state \<Rightarrow> client \<Rightarrow> (handler_state \<times> client) option" where
  "install_native mc g c =
    (if co_native_crash (cl_config c) \<and> cl_storage_available c
     then map_option (\<lambda>(installed, g, fs). (g, c\<lparr>wk_disk := fs\<rparr>))
            (install_handler (co_data_dir (cl_config c)) (mc_loaded mc) (mc_sigaction_ok mc) g (wk_disk c))
     else Some (g, c))"

definition client_init ::
    "env \<Rightarrow> machine \<Rightarrow> options \<Rightarrow> handler_state \<Rightarrow> client \<Rightarrow> (result \<times> handler_state \<times> client) option" where
  "client_init e mc op g c =
    (if cstr_blank (op_endpoint op) \<or> cstr_blank (op_token op) \<or> cstr_blank (op_build_version op)
     then Some (Invalid_Argument, g, c)
     else
       let c = c\<lparr>cl_config := client_config e mc op\<rparr>;
           c = (if \<not> cstr_blank (op_environment op)
                then c\<lparr>cl_match := (cl_match c)\<lparr>ma_environment := clamped (op_environment op) limit_environment\<rparr>\<rparr> else c);
           c = c\<lparr>cl_consent := op_consent_granted op, cl_gate := gate_arm (op_auto_start_session op) (cl_gate c)\<rparr>;
           c = configure_storage mc c
       in case install_native mc g c of
            None \<Rightarrow> None
          | Some (g, c) \<Rightarrow>
              let c = acquire_device_identity e mc c;
                  c = worker_start (en_now e) c;
                  c = c\<lparr>cl_initialized := True\<rparr>;
                  c = drain_sidecars c
              in Some (OK, g, if cl_consent c then start_session_tracking e c else c))"

section \<open>Flush, diagnostics and shutdown\<close>

text \<open>
  What \<open>flush\<close> does before it waits for the worker, and the destructor before and after it stops the
  worker; \<open>waited\<close> is what happens while the caller waits.
\<close>

definition flush_begin :: "env \<Rightarrow> client \<Rightarrow> client" where
  "flush_begin e c =
    (let c = (if co_session_log_enabled (cl_config c) \<and> cl_storage_available c then flush_log c else c)
     in flush_all_batches e c)"

definition client_flush :: "env \<Rightarrow> (client \<Rightarrow> client) \<Rightarrow> client \<Rightarrow> result \<times> client" where
  "client_flush e waited c =
    (if \<not> cl_initialized c then (Not_Initialized, c)
     else let c = waited (flush_begin e c) in (if flush_done c then OK else Timed_Out, c))"

definition destroy_begin :: "env \<Rightarrow> client \<Rightarrow> client" where
  "destroy_begin e c =
    (let c = c\<lparr>cl_heartbeat_stop := True\<rparr>;
         c = (if co_session_log_enabled (cl_config c) \<and> cl_storage_available c then flush_log c else c)
     in if cl_initialized c then flush_all_batches e c else c)"

definition destroy_end :: "client \<Rightarrow> client" where
  "destroy_end c =
    (if cl_storage_available c then c\<lparr>wk_disk := marker_remove (cl_marker c) (wk_disk c)\<rparr> else c)"

definition client_destroy :: "env \<Rightarrow> (client \<Rightarrow> client) \<Rightarrow> (nat \<Rightarrow> string) \<Rightarrow> client \<Rightarrow> client" where
  "client_destroy e waited names c =
    (let c = destroy_begin e c
     in destroy_end (if cl_initialized c then worker_stop names (waited c) else c))"

record diagnostics =
  dg_initialized :: bool
  dg_consent_granted :: bool
  dg_queued_outbound :: nat
  dg_persisted_sidecar :: nat
  dg_last_flush_age :: "int option"
  dg_has_match_id :: bool
  dg_has_server_id :: bool

text \<open>The age of the last flush in nanoseconds; \<^const>\<open>None\<close> is the code's \<open>-1.0\<close>.\<close>

definition client_diagnostics :: "env \<Rightarrow> client \<Rightarrow> diagnostics" where
  "client_diagnostics e c =
    \<lparr>dg_initialized = cl_initialized c, dg_consent_granted = cl_consent c, dg_queued_outbound = queued_count c,
     dg_persisted_sidecar = pending_count (wk_sidecars c) (wk_disk c),
     dg_last_flush_age = (if cl_last_flush_ns c \<noteq> 0 then Some (en_now e - cl_last_flush_ns c) else None),
     dg_has_match_id = (ma_match_id (cl_match c) \<noteq> []), dg_has_server_id = (ma_server_id (cl_match c) \<noteq> [])\<rparr>"

end
