(* ===== verification/Preinit.thy ===== *)
theory Preinit
  imports Lifecycle
begin

text \<open>
  \<^verbatim>\<open>src/preinit.h\<close> and \<^verbatim>\<open>src/preinit.cpp\<close>: the bounded store of calls made before \<open>tombstone_init\<close>. The members
  with a \<open>has_\<close> flag are options; levels are the C integers.
\<close>

datatype track =
    Track_Event string "(string \<times> string) list"
  | Track_Metric string double string

record preinit =
  pi_breadcrumbs :: "(int \<times> string) list"
  pi_tracks :: "track list"
  pi_user :: "(string \<times> string) option"
  pi_environment :: "string option"
  pi_user_metadata :: "(string \<times> string) list option"
  pi_consent :: "bool option"
  pi_start_session :: bool

definition max_breadcrumbs :: nat where "max_breadcrumbs = 64"
definition max_tracks :: nat where "max_tracks = 128"

text \<open>\<open>clear\<close> leaves the store as constructed.\<close>

definition empty_preinit :: preinit where
  "empty_preinit =
    \<lparr>pi_breadcrumbs = [], pi_tracks = [], pi_user = None, pi_environment = None, pi_user_metadata = None,
     pi_consent = None, pi_start_session = False\<rparr>"

definition preinit_clear :: "preinit \<Rightarrow> preinit" where
  "preinit_clear s =
    s\<lparr>pi_breadcrumbs := [], pi_tracks := [], pi_user := None, pi_environment := None, pi_user_metadata := None,
      pi_consent := None, pi_start_session := False\<rparr>"

definition preinit_add_breadcrumb :: "int \<times> string \<Rightarrow> preinit \<Rightarrow> preinit" where
  "preinit_add_breadcrumb crumb s =
    s\<lparr>pi_breadcrumbs :=
        (if max_breadcrumbs \<le> length (pi_breadcrumbs s) then tl (pi_breadcrumbs s) else pi_breadcrumbs s) @ [crumb]\<rparr>"

definition preinit_add_event :: "string \<Rightarrow> (string \<times> string) list \<Rightarrow> preinit \<Rightarrow> bool \<times> preinit" where
  "preinit_add_event name attributes s =
    (if max_tracks \<le> length (pi_tracks s) then (False, s)
     else (True, s\<lparr>pi_tracks := pi_tracks s @ [Track_Event name attributes]\<rparr>))"

definition preinit_add_metric :: "string \<Rightarrow> double \<Rightarrow> string \<Rightarrow> preinit \<Rightarrow> bool \<times> preinit" where
  "preinit_add_metric name v unit s =
    (if max_tracks \<le> length (pi_tracks s) then (False, s)
     else (True, s\<lparr>pi_tracks := pi_tracks s @ [Track_Metric name v unit]\<rparr>))"

definition preinit_set_user :: "string \<Rightarrow> string \<Rightarrow> preinit \<Rightarrow> preinit" where
  "preinit_set_user user_id steam_id s = s\<lparr>pi_user := Some (user_id, steam_id)\<rparr>"

definition preinit_set_environment :: "string \<Rightarrow> preinit \<Rightarrow> preinit" where
  "preinit_set_environment environment s = s\<lparr>pi_environment := Some environment\<rparr>"

definition preinit_set_user_metadata :: "(string \<times> string) list \<Rightarrow> preinit \<Rightarrow> preinit" where
  "preinit_set_user_metadata entries s = s\<lparr>pi_user_metadata := Some entries\<rparr>"

definition preinit_set_consent :: "bool \<Rightarrow> preinit \<Rightarrow> preinit" where
  "preinit_set_consent granted s = s\<lparr>pi_consent := Some granted\<rparr>"

definition request_start_session :: "preinit \<Rightarrow> preinit" where
  "request_start_session s = s\<lparr>pi_start_session := True\<rparr>"

section \<open>Bounds\<close>

definition preinit_ok :: "preinit \<Rightarrow> bool" where
  "preinit_ok s \<longleftrightarrow> length (pi_breadcrumbs s) \<le> max_breadcrumbs \<and> length (pi_tracks s) \<le> max_tracks"

lemma preinit_crumbs: "preinit_ok s \<Longrightarrow> pi_breadcrumbs (preinit_add_breadcrumb x s) = last_n max_breadcrumbs (pi_breadcrumbs s @ [x])"
proof -
  assume ok: "preinit_ok s"
  show ?thesis
  proof (cases "length (pi_breadcrumbs s) < max_breadcrumbs")
    case False
    with ok have "length (pi_breadcrumbs s) = max_breadcrumbs" by (simp add: preinit_ok_def)
    with last_n_snoc_full [OF this] show ?thesis by (simp add: preinit_add_breadcrumb_def max_breadcrumbs_def)
  qed (simp add: preinit_add_breadcrumb_def)
qed

interpretation preinit_trail: drop_oldest pi_breadcrumbs preinit_add_breadcrumb max_breadcrumbs preinit_ok
proof
  fix s x
  assume ok: "preinit_ok s"
  show "pi_breadcrumbs (preinit_add_breadcrumb x s) = last_n max_breadcrumbs (pi_breadcrumbs s @ [x])"
    by (rule preinit_crumbs [OF ok])
  then show "preinit_ok (preinit_add_breadcrumb x s)"
    using ok by (simp add: preinit_ok_def) (simp add: preinit_add_breadcrumb_def)
  show "length (pi_breadcrumbs s) \<le> max_breadcrumbs" using ok by (simp add: preinit_ok_def)
qed

lemma preinit_track_ok:
  "preinit_ok s \<Longrightarrow> preinit_ok (snd (preinit_add_event n a s))"
  "preinit_ok s \<Longrightarrow> preinit_ok (snd (preinit_add_metric n v u s))"
  by (auto simp: preinit_ok_def preinit_add_event_def preinit_add_metric_def)

end
