(* ===== verification/Tombstone_Api.thy ===== *)
theory Tombstone_Api
  imports Preinit
begin

text \<open>
  \<^verbatim>\<open>src/tombstone_api.cpp\<close>: the C interface. The process state is the optional client, the pre-init
  store and the native handler's state; \<open>with_client\<close> and \<open>with_client_or_buffer\<close> are combinators over
  it. A call is one step here; \<open>Shared_Client\<close> is about calls that overlap.
\<close>

record process =
  ps_client :: "client option"
  ps_preinit :: preinit
  ps_handler :: handler_state
  ps_disk :: file_system

text \<open>The disk is the client's while there is one.\<close>

definition with_client :: "(client \<Rightarrow> result \<times> client) \<Rightarrow> process \<Rightarrow> result \<times> process" where
  "with_client action p =
    (case ps_client p of
       None \<Rightarrow> (Not_Initialized, p)
     | Some c \<Rightarrow> let (r, c) = action c in (r, p\<lparr>ps_client := Some c\<rparr>))"

definition with_client_or_buffer ::
    "(client \<Rightarrow> result \<times> client) \<Rightarrow> (preinit \<Rightarrow> result \<times> preinit) \<Rightarrow> process \<Rightarrow> result \<times> process" where
  "with_client_or_buffer action buffer p =
    (case ps_client p of
       None \<Rightarrow> let (r, s) = buffer (ps_preinit p) in (r, p\<lparr>ps_preinit := s\<rparr>)
     | Some c \<Rightarrow> let (r, c) = action c in (r, p\<lparr>ps_client := Some c\<rparr>))"

text \<open>A C level outside the enumeration is an information message.\<close>

definition to_level :: "int \<Rightarrow> level" where
  "to_level n = (if n = 0 then Debug else if n = 2 then Warn else if n = 3 then Error else Info)"

section \<open>Replay\<close>

fun replay_track :: "env \<Rightarrow> track \<Rightarrow> client \<Rightarrow> client" where
  "replay_track e (Track_Metric name v unit) c = snd (track_metric e (Some name) v (Some unit) c)"
| "replay_track e (Track_Event name attributes) c =
    snd (track_event e (Some name) (Some (map (Some \<circ> fst) attributes)) (Some (map (Some \<circ> snd) attributes))
           (length attributes) c)"

definition replay_preinit :: "env \<Rightarrow> preinit \<Rightarrow> client \<Rightarrow> client" where
  "replay_preinit e s c =
    (let c = (case pi_consent s of None \<Rightarrow> c | Some granted \<Rightarrow> snd (set_consent e granted c));
         c = (case pi_user s of None \<Rightarrow> c
              | Some (user_id, steam_id) \<Rightarrow> snd (client_set_user (Some user_id) (Some steam_id) c));
         c = (case pi_environment s of None \<Rightarrow> c | Some environment \<Rightarrow> snd (set_environment (Some environment) c));
         c = (case pi_user_metadata s of None \<Rightarrow> c
              | Some entries \<Rightarrow>
                  snd (client_set_user_metadata (Some (map (Some \<circ> fst) entries)) (Some (map (Some \<circ> snd) entries))
                         (length entries) c));
         c = fold (\<lambda>(lvl, message) c. snd (add_breadcrumb e (to_level lvl) (Some message) c)) (pi_breadcrumbs s) c;
         c = fold (replay_track e) (pi_tracks s) c
     in if pi_start_session s then snd (start_session c) else c)"

section \<open>Entry points\<close>

definition default_options :: options where
  "default_options =
    \<lparr>op_endpoint = None, op_token = None, op_build_version = None, op_data_dir = None, op_environment = None,
     op_heartbeat_interval_s = 0, op_enable_heartbeats = True, op_enable_session_log = True,
     op_enable_unclean_detection = True, op_consent_granted = True, op_auto_start_session = True,
     op_enable_rtt_metric = True, op_enable_native_crash = False\<rparr>"

definition tombstone_options_init :: "options option \<Rightarrow> result \<times> options option" where
  "tombstone_options_init options =
    (case options of None \<Rightarrow> (Invalid_Argument, None) | Some _ \<Rightarrow> (OK, Some default_options))"

definition tombstone_init :: "env \<Rightarrow> machine \<Rightarrow> options option \<Rightarrow> process \<Rightarrow> (result \<times> process) option" where
  "tombstone_init e mc options p =
    (case options of
       None \<Rightarrow> Some (Invalid_Argument, p)
     | Some op \<Rightarrow>
         if ps_client p \<noteq> None then Some (Already_Initialized, p)
         else
           case client_init e mc op (ps_handler p) (new_client (ps_disk p)) of
             None \<Rightarrow> None
           | Some (r, g, c) \<Rightarrow>
               if r \<noteq> OK then Some (r, p\<lparr>ps_handler := g\<rparr>)
               else Some (OK, p\<lparr>ps_client := Some (replay_preinit e (ps_preinit p) c), ps_handler := g,
                              ps_preinit := preinit_clear (ps_preinit p)\<rparr>))"

definition tombstone_shutdown :: "env \<Rightarrow> (client \<Rightarrow> client) \<Rightarrow> (nat \<Rightarrow> string) \<Rightarrow> process \<Rightarrow> result \<times> process" where
  "tombstone_shutdown e waited names p =
    (case ps_client p of
       None \<Rightarrow> (OK, p)
     | Some c \<Rightarrow> (OK, p\<lparr>ps_client := None, ps_disk := wk_disk (client_destroy e waited names c)\<rparr>))"

definition tombstone_set_user :: "cstr \<Rightarrow> cstr \<Rightarrow> process \<Rightarrow> result \<times> process" where
  "tombstone_set_user user_id steam_id =
    with_client_or_buffer (client_set_user user_id steam_id)
      (\<lambda>s. (OK, preinit_set_user (cstr_or_empty user_id) (cstr_or_empty steam_id) s))"

definition tombstone_set_consent :: "env \<Rightarrow> int \<Rightarrow> process \<Rightarrow> result \<times> process" where
  "tombstone_set_consent e granted =
    with_client_or_buffer (set_consent e (granted \<noteq> 0)) (\<lambda>s. (OK, preinit_set_consent (granted \<noteq> 0) s))"

definition tombstone_start_session :: "process \<Rightarrow> result \<times> process" where
  "tombstone_start_session = with_client_or_buffer start_session (\<lambda>s. (OK, request_start_session s))"

definition tombstone_set_environment :: "cstr \<Rightarrow> process \<Rightarrow> result \<times> process" where
  "tombstone_set_environment environment =
    with_client_or_buffer (set_environment environment)
      (\<lambda>s. if cstr_blank environment then (Invalid_Argument, s)
           else (OK, preinit_set_environment (cstr_or_empty environment) s))"

definition tombstone_set_user_metadata ::
    "cstr list option \<Rightarrow> cstr list option \<Rightarrow> nat \<Rightarrow> process \<Rightarrow> result \<times> process" where
  "tombstone_set_user_metadata keys vals count =
    with_client_or_buffer (client_set_user_metadata keys vals count)
      (\<lambda>s. if arrays_missing keys vals count then (Invalid_Argument, s)
           else (OK, preinit_set_user_metadata
                  (clamp_user_metadata (map_option (take count) keys) (map_option (take count) vals)) s))"

definition tombstone_set_server_info :: "cstr \<Rightarrow> cstr \<Rightarrow> process \<Rightarrow> result \<times> process" where
  "tombstone_set_server_info region hostname = with_client (set_server_info region hostname)"

definition tombstone_mark_dedicated_server :: "cstr \<Rightarrow> cstr \<Rightarrow> cstr \<Rightarrow> process \<Rightarrow> result \<times> process" where
  "tombstone_mark_dedicated_server server_id region hostname =
    with_client (mark_dedicated_server server_id region hostname)"

definition tombstone_set_device :: "device_options option \<Rightarrow> process \<Rightarrow> result \<times> process" where
  "tombstone_set_device device = with_client (set_device device)"

definition tombstone_set_match_context :: "cstr \<Rightarrow> cstr \<Rightarrow> process \<Rightarrow> process" where
  "tombstone_set_match_context server_id match_id p = snd (with_client (set_match_context server_id match_id) p)"

text \<open>The text written to the caller's buffer is part of the result.\<close>

definition tombstone_start_match :: "env \<Rightarrow> bool \<Rightarrow> nat \<Rightarrow> process \<Rightarrow> result \<times> cstr \<times> process" where
  "tombstone_start_match e writable out_cap p =
    (case ps_client p of
       None \<Rightarrow> (Not_Initialized, None, p)
     | Some c \<Rightarrow> let (r, out, c) = start_match e writable out_cap c in (r, out, p\<lparr>ps_client := Some c\<rparr>))"

definition tombstone_end_match :: "process \<Rightarrow> process" where
  "tombstone_end_match p = snd (with_client end_match p)"

definition tombstone_add_breadcrumb :: "env \<Rightarrow> int \<Rightarrow> cstr \<Rightarrow> process \<Rightarrow> result \<times> process" where
  "tombstone_add_breadcrumb e lvl message =
    with_client_or_buffer (add_breadcrumb e (to_level lvl) message)
      (\<lambda>s. if cstr_blank message then (Invalid_Argument, s)
           else (OK, preinit_add_breadcrumb (lvl, cstr_or_empty message) s))"

definition tombstone_track_event ::
    "env \<Rightarrow> cstr \<Rightarrow> cstr list option \<Rightarrow> cstr list option \<Rightarrow> nat \<Rightarrow> process \<Rightarrow> result \<times> process" where
  "tombstone_track_event e name keys vals count =
    with_client_or_buffer (track_event e name keys vals count)
      (\<lambda>s. if cstr_blank name then (Invalid_Argument, s)
           else if arrays_missing keys vals count then (Invalid_Argument, s)
           else (OK, snd (preinit_add_event (cstr_or_empty name)
                            (usable_attributes (the_array keys count) (the_array vals count)) s)))"

definition tombstone_track_metric :: "env \<Rightarrow> cstr \<Rightarrow> double \<Rightarrow> cstr \<Rightarrow> process \<Rightarrow> process" where
  "tombstone_track_metric e name v unit p =
    snd (with_client_or_buffer (track_metric e name v unit)
      (\<lambda>s. if cstr_blank name \<or> \<not> isfinite v then (Invalid_Argument, s)
           else (OK, snd (preinit_add_metric (cstr_or_empty name) v (cstr_or_empty unit) s))) p)"

definition tombstone_report_frame :: "double \<Rightarrow> process \<Rightarrow> process" where
  "tombstone_report_frame frame_ms p = snd (with_client (\<lambda>c. (OK, report_frame frame_ms c)) p)"

definition tombstone_report_crash :: "env \<Rightarrow> cstr \<Rightarrow> cstr \<Rightarrow> cstr \<Rightarrow> int \<Rightarrow> process \<Rightarrow> result \<times> process" where
  "tombstone_report_crash e signature stack_hint stack_trace attach_log =
    with_client (report_crash e signature stack_hint stack_trace (attach_log \<noteq> 0))"

definition tombstone_report_bug :: "env \<Rightarrow> cstr \<Rightarrow> cstr \<Rightarrow> int \<Rightarrow> process \<Rightarrow> result \<times> process" where
  "tombstone_report_bug e category message attach_log =
    with_client (report_bug e category message (attach_log \<noteq> 0))"

definition tombstone_log_line :: "env \<Rightarrow> int \<Rightarrow> cstr \<Rightarrow> process \<Rightarrow> result \<times> process" where
  "tombstone_log_line e lvl line = with_client (log_line e (to_level lvl) line)"

definition tombstone_request_player_logs :: "cstr \<Rightarrow> cstr \<Rightarrow> cstr \<Rightarrow> process \<Rightarrow> process" where
  "tombstone_request_player_logs target_type target_value reason p =
    snd (with_client (request_player_logs target_type target_value reason) p)"

definition tombstone_on_anomalous_disconnect :: "cstr \<Rightarrow> cstr \<Rightarrow> process \<Rightarrow> process" where
  "tombstone_on_anomalous_disconnect user_id reason p =
    snd (with_client (request_player_logs (Some ''userId'') user_id
           (if \<not> cstr_blank reason then reason else Some ''anomalous disconnect'')) p)"

definition tombstone_set_sample_rate :: "cstr \<Rightarrow> double \<Rightarrow> process \<Rightarrow> process" where
  "tombstone_set_sample_rate name rate p = snd (with_client (\<lambda>c. (OK, set_sample_rate name rate c)) p)"

definition tombstone_set_level :: "env \<Rightarrow> cstr \<Rightarrow> process \<Rightarrow> process" where
  "tombstone_set_level e level_name p = snd (with_client (set_level e level_name) p)"

text \<open>The snapshot is zeroed first; \<open>writable\<close> is whether \<open>out\<close> is not null.\<close>

definition tombstone_diagnostics :: "env \<Rightarrow> bool \<Rightarrow> process \<Rightarrow> result \<times> diagnostics option" where
  "tombstone_diagnostics e writable p =
    (if \<not> writable then (Invalid_Argument, None)
     else case ps_client p of
            None \<Rightarrow> (Not_Initialized,
              Some \<lparr>dg_initialized = False, dg_consent_granted = False, dg_queued_outbound = 0,
                    dg_persisted_sidecar = 0, dg_last_flush_age = None, dg_has_match_id = False,
                    dg_has_server_id = False\<rparr>)
          | Some c \<Rightarrow> (OK, Some (client_diagnostics e c)))"

definition tombstone_flush :: "env \<Rightarrow> (client \<Rightarrow> client) \<Rightarrow> process \<Rightarrow> result \<times> process" where
  "tombstone_flush e waited = with_client (client_flush e waited)"

definition sdk_version :: string where "sdk_version = ''0.9.4''"

end
