(* ===== verification/Heartbeat.thy ===== *)
theory Heartbeat
  imports Lifecycle
begin

text \<open>
  The heartbeat thread section by section (\<^verbatim>\<open>src/client.cpp\<close>, \<open>heartbeat_loop\<close>). A pass reads the client
  under one lock after the other, so calls of the game and steps of the worker may come between any
  two sections; \<open>heartbeat_pass\<close> is the pass that nothing interrupts.
\<close>

section \<open>The sections of a pass\<close>

datatype beat_section =
    Read_User | Read_Match | Read_Server | Read_Device | Read_Metadata | Drain_Frames | Mark_Device | Queue_Beat

text \<open>
  Where the thread stands: at the check of the loop, in a pass with its local payload and
  \<open>carrying_device\<close>, or in the wait.
\<close>

datatype beat_phase = Loop_Top | Building beat_section heartbeat_payload bool | In_Wait

definition new_heartbeat :: heartbeat_payload where
  "new_heartbeat =
    \<lparr>hb_session_id = [], hb_occurred_at_iso = [], hb_build_version = [], hb_os = [], hb_arch = [], hb_user_id = [],
     hb_prior_user_id = [], hb_metadata_json = [], hb_has_frame_stats = False, hb_fps_avg = d_zero,
     hb_slow_frame_pct = d_zero, hb_hitch_count = 0, hb_worst_frame_ms = 0, hb_role = [], hb_server_id = [],
     hb_match_id = [], hb_region = [], hb_hostname = [], hb_environment = [], hb_device = no_device\<rparr>"

definition first_fields :: "env \<Rightarrow> client \<Rightarrow> heartbeat_payload" where
  "first_fields e c =
    (let co = cl_config c in
     new_heartbeat\<lparr>hb_session_id := co_session_id co, hb_occurred_at_iso := en_iso e,
       hb_build_version := co_build_version co, hb_os := co_os co, hb_arch := co_arch co\<rparr>)"

definition match_fields :: "match_state \<Rightarrow> heartbeat_payload \<Rightarrow> heartbeat_payload" where
  "match_fields ctx p =
    p\<lparr>hb_role := (if ma_role ctx = [] then ''client'' else ma_role ctx), hb_server_id := ma_server_id ctx,
      hb_match_id := ma_match_id ctx, hb_environment := ma_environment ctx\<rparr>"

definition frame_fields :: "frame_snapshot \<Rightarrow> heartbeat_payload \<Rightarrow> heartbeat_payload" where
  "frame_fields frames p =
    (if fs_valid frames
     then p\<lparr>hb_has_frame_stats := True, hb_fps_avg := fs_fps_avg frames, hb_slow_frame_pct := fs_slow_frame_pct frames,
            hb_hitch_count := fs_hitch_count frames, hb_worst_frame_ms := fs_worst_frame_ms frames\<rparr>
     else p)"

fun run_section ::
    "env \<Rightarrow> beat_section \<Rightarrow> heartbeat_payload \<Rightarrow> bool \<Rightarrow> client \<Rightarrow> beat_phase \<times> client" where
  "run_section e Read_User p carrying c =
    (let (prior, i) = beat_prior (cl_identity c)
     in (Building Read_Match (p\<lparr>hb_user_id := current_user_id (cl_identity c), hb_prior_user_id := prior\<rparr>) carrying,
         c\<lparr>cl_identity := i\<rparr>))"
| "run_section e Read_Match p carrying c = (Building Read_Server (match_fields (cl_match c) p) carrying, c)"
| "run_section e Read_Server p carrying c =
    (Building Read_Device (p\<lparr>hb_region := ma_region (cl_match c), hb_hostname := ma_hostname (cl_match c)\<rparr>) carrying, c)"
| "run_section e Read_Device p carrying c =
    (let d = cl_device c in
     if \<not> ds_sent d \<and> device_has_content (ds_device d)
     then (Building Read_Metadata (p\<lparr>hb_device := ds_device d\<rparr>) True, c)
     else (Building Read_Metadata p carrying, c))"
| "run_section e Read_Metadata p carrying c =
    (let (metadata, m) = beat_metadata (cl_user_data c)
     in (Building Drain_Frames (p\<lparr>hb_metadata_json := metadata\<rparr>) carrying, c\<lparr>cl_user_data := m\<rparr>))"
| "run_section e Drain_Frames p carrying c =
    (let (frames, a) = frame_consume (cl_frames c)
     in (Building Mark_Device (frame_fields frames p) carrying, c\<lparr>cl_frames := a\<rparr>))"
| "run_section e Mark_Device p carrying c =
    (Building Queue_Beat p carrying,
     if carrying then c\<lparr>cl_device := (cl_device c)\<lparr>ds_in_flight := True\<rparr>\<rparr> else c)"
| "run_section e Queue_Beat p carrying c =
    (In_Wait, enqueue (heartbeat_job (co_endpoint (cl_config c) @ heartbeats_path)
                        (build_heartbeat_json (en_separator e) p)) c)"

fun beat_step :: "env \<Rightarrow> beat_phase \<Rightarrow> client \<Rightarrow> beat_phase \<times> client" where
  "beat_step e Loop_Top c =
    (if cl_heartbeat_stop c then (Loop_Top, c)
     else if capture_allowed c \<and> gate_is_set (cl_gate c) then (Building Read_User (first_fields e c) False, c)
     else (In_Wait, c))"
| "beat_step e (Building sec p carrying) c = run_section e sec p carrying c"
| "beat_step e In_Wait c = (Loop_Top, c\<lparr>cl_heartbeat_kick := False\<rparr>)"

definition building :: "beat_phase \<Rightarrow> bool" where
  "building b \<longleftrightarrow> (case b of Building sec p carrying \<Rightarrow> True | _ \<Rightarrow> False)"

lemma building_simps [simp]: "building (Building sec p carrying)" "\<not> building Loop_Top" "\<not> building In_Wait"
  by (simp_all add: building_def)

text \<open>A pass begins only past the check of consent and gate.\<close>

lemma building_step: "building (fst (beat_step e b c)) \<Longrightarrow> building b \<or> capture_allowed c \<and> gate_is_set (cl_gate c)"
  by (cases b) (auto split: if_splits)

definition beat_steps :: "env \<Rightarrow> nat \<Rightarrow> beat_phase \<times> client \<Rightarrow> beat_phase \<times> client" where
  "beat_steps e n = ((\<lambda>(b, c). beat_step e b c) ^^ n)"

lemma beat_steps_simps [simp]:
  "beat_steps e 0 s = s" "beat_steps e (Suc n) (b, c) = beat_steps e n (beat_step e b c)"
  by (simp_all add: beat_steps_def funpow_swap1)

lemma beat_steps_numeral [simp]:
  "beat_steps e (numeral k) (b, c) = beat_steps e (pred_numeral k) (beat_step e b c)"
  by (simp add: numeral_eq_Suc)

section \<open>The uninterrupted pass\<close>

lemma sections_compose:
  assumes "\<not> cl_heartbeat_stop c"
  shows "beat_steps e (if capture_allowed c \<and> gate_is_set (cl_gate c) then 10 else 2) (Loop_Top, c) =
    (Loop_Top, heartbeat_pass e c)"
proof (cases "capture_allowed c \<and> gate_is_set (cl_gate c)")
  case False
  with assms show ?thesis by (auto simp: heartbeat_pass_def Let_def)
next
  case True
  let ?i = "snd (beat_prior (cl_identity c))" and ?m = "snd (beat_metadata (cl_user_data c))"
    and ?a = "snd (frame_consume (cl_frames c))" and ?d = "snd (beat_device (cl_device c))"
  have [simp]: "enqueue job (c\<lparr>cl_identity := i, cl_device := d, cl_user_data := m, cl_frames := a\<rparr>) =
      enqueue job (c\<lparr>cl_identity := i, cl_user_data := m, cl_frames := a, cl_device := d\<rparr>)" for job i m a d
    by (cases c) simp
  show ?thesis
    using True assms
    by (simp add: heartbeat_pass_def heartbeat_body_def Let_def case_prod_unfold first_fields_def new_heartbeat_def
        match_fields_def frame_fields_def beat_device_def)
qed

definition first_player :: client where
  "first_player = (new_client (open_store []))\<lparr>cl_initialized := True,
     cl_gate := gate_arm True new_gate, cl_identity := new_identity\<lparr>id_user := ''a''\<rparr>\<rparr>"

definition now_env :: env where
  "now_env = \<lparr>en_iso = ''t'', en_now = 0, en_name = ''n'', en_draw = d_zero, en_random = (0, 0), en_separator = ''.''\<rparr>"

section \<open>A change of user in the middle of a pass\<close>

lemma beat_metadata_user_only [simp]: "fst (beat_metadata m) = [] \<longleftrightarrow> build_user_metadata_json (ud_entries m) = ud_acked m"
  by (simp add: beat_metadata_def Let_def)

text \<open>C36. The locks are taken one by one, and a login may fall between two of them: when the game changes the
  user and sets the new player's metadata after the pass has read the user id, the heartbeat goes
  out under the previous user's id with the new player's metadata; its acknowledgement counts as
  the delivery, so that no later heartbeat carries the map under the new id.\<close>

theorem beat_mixes_users:
  fixes c :: client and e :: env and y z :: cstr and p :: heartbeat_payload and carrying :: bool
    and keys vals :: "cstr list option" and n :: nat and es :: user_metadata
  assumes "clamped y limit_user_id \<noteq> []" "clamped y limit_user_id \<noteq> id_user (cl_identity c)"
    and "\<not> arrays_missing keys vals n"
    and "clamp_user_metadata (map_option (take n) keys) (map_option (take n) vals) = es" "es \<noteq> []"
  defines "read \<equiv> beat_step e (Building Read_User p carrying) c"
  defines "switched \<equiv> snd (client_set_user_metadata keys vals n (snd (client_set_user y z (snd read))))"
  defines "late \<equiv> beat_steps e 4 (fst read, switched)"
  shows "\<exists>q carrying'. fst late = Building Drain_Frames q carrying' \<and>
    hb_user_id q = current_user_id (cl_identity c) \<and> hb_metadata_json q = build_user_metadata_json es \<and>
    current_user_id (cl_identity (snd late)) = clamped y limit_user_id \<and>
    ud_entries (cl_user_data (snd late)) = es \<and>
    (\<forall>k. fst (beat_metadata (((\<lambda>m. snd (beat_metadata m)) ^^ k) (ack_metadata (cl_user_data (snd late))))) = [])"
proof -
  have json: "build_user_metadata_json es \<noteq> ''{}''"
    using assms(5) by (cases es) (auto simp: user_metadata_render build_user_metadata_json_def)
  define m where "m = cl_user_data switched"
  have m: "ud_entries m = es" "ud_acked m = ''{}''"
    using assms(2-4) by (simp_all add: m_def switched_def read_def client_set_user_metadata_def set_user_metadata_def
        client_set_user_def set_user_def switch_user_data_def Let_def case_prod_unfold beat_prior_def)
  have user: "id_user (cl_identity switched) = clamped y limit_user_id"
    using assms(3) by (simp add: switched_def read_def client_set_user_metadata_def client_set_user_def set_user_def
        Let_def case_prod_unfold)
  have carried: "beat_metadata m = (build_user_metadata_json es, m\<lparr>ud_in_flight := build_user_metadata_json es, ud_in_flight_epoch := ud_epoch m\<rparr>)"
    using json by (simp add: beat_metadata_def Let_def m)
  have "ud_acked (ack_metadata (snd (beat_metadata m))) = build_user_metadata_json es"
    "ud_entries (ack_metadata (snd (beat_metadata m))) = es"
    by (simp_all add: carried ack_metadata_def Let_def m)
  then have "metadata_todo (ack_metadata (snd (beat_metadata m))) = None" by (simp add: metadata_todo_def)
  from metadata.settled_stays_silent [OF this]
  have silent: "fst (beat_metadata (((\<lambda>m. snd (beat_metadata m)) ^^ k) (ack_metadata (snd (beat_metadata m))))) = []" for k
    by (simp add: metadata_beat_def)
  have client: "snd late = switched\<lparr>cl_user_data := snd (beat_metadata m)\<rparr>"
    by (simp add: late_def read_def m_def case_prod_unfold Let_def)
  show ?thesis
    using assms(1) user silent carried
    by (auto simp: client late_def read_def m_def [symmetric] case_prod_unfold Let_def match_fields_def m current_user_id_def)
qed

theorem beat_mixes_users_witness:
  "let read = beat_step now_env (Building Read_User new_heartbeat False) first_player;
       switched = snd (client_set_user_metadata (Some [Some ''k'']) (Some [Some ''v'']) 1
                         (snd (client_set_user (Some ''b'') None (snd read))))
   in \<exists>q k. fst (beat_steps now_env 4 (fst read, switched)) = Building Drain_Frames q k \<and> hb_user_id q = ''a'' \<and>
     hb_metadata_json q = build_user_metadata_json [(''k'', ''v'')]"
proof -
  have "clamp_user_metadata (map_option (take 1) (Some [Some ''k''])) (map_option (take 1) (Some [Some ''v''])) = [(''k'', ''v'')]"
    by code_simp
  moreover have "clamped (Some ''b'') limit_user_id = ''b''" "current_user_id (cl_identity first_player) = ''a''"
    "id_user (cl_identity first_player) = ''a''"
    by (simp_all add: clamped_def limit_defs first_player_def new_client_def current_user_id_def new_identity_def)
  ultimately show ?thesis
    using beat_mixes_users [of "Some ''b''" first_player "Some [Some ''k'']" "Some [Some ''v'']" 1 "[(''k'', ''v'')]" now_env
        new_heartbeat False None]
    unfolding Let_def by (simp add: arrays_missing_def del: beat_steps_numeral) blast
qed

end
