(* ===== verification/Sdk.thy ===== *)
theory Sdk
  imports Tombstone_Api Heartbeat
begin

text \<open>
  Every operation of the client, the heartbeat and the acknowledgement, seen from the delivery
  machine of \<open>Delivery\<close>: what each may do to the queue, the log and the disk.
\<close>

section \<open>The delivery state inside a client\<close>

definition core :: "client \<Rightarrow> worker" where
  "core c = worker.truncate c"

lemma core_select [simp]:
  "wk_session_log (core c) = wk_session_log c" "wk_sidecars (core c) = wk_sidecars c"
  "wk_disk (core c) = wk_disk c" "wk_queue (core c) = wk_queue c" "wk_running (core c) = wk_running c"
  "wk_in_flight (core c) = wk_in_flight c" "wk_previous_log_claimed (core c) = wk_previous_log_claimed c"
  "wk_wake_requested (core c) = wk_wake_requested c" "wk_next_log_flush (core c) = wk_next_log_flush c"
  by (simp_all add: core_def worker.defs)

lemma core_worker_update [simp]:
  "core (wk_session_log_update f c) = wk_session_log_update f (core c)"
  "core (wk_disk_update g c) = wk_disk_update g (core c)" "core (wk_queue_update q c) = wk_queue_update q (core c)"
  "core (wk_running_update b c) = wk_running_update b (core c)"
  "core (wk_in_flight_update b c) = wk_in_flight_update b (core c)"
  "core (wk_previous_log_claimed_update b c) = wk_previous_log_claimed_update b (core c)"
  "core (wk_wake_requested_update b c) = wk_wake_requested_update b (core c)"
  "core (wk_next_log_flush_update t c) = wk_next_log_flush_update t (core c)"
  by (simp_all add: core_def worker.defs)

lemma core_client_update [simp]:
  "core (cl_marker_update f1 c) = core c" "core (cl_breadcrumbs_update f2 c) = core c"
  "core (cl_dedupe_update f3 c) = core c" "core (cl_sampler_update f4 c) = core c"
  "core (cl_event_batch_update f5 c) = core c" "core (cl_metric_batch_update f5 c) = core c"
  "core (cl_last_flush_ns_update f6 c) = core c" "core (cl_consent_update f7 c) = core c"
  "core (cl_gate_update f8 c) = core c" "core (cl_tracking_started_update f7 c) = core c"
  "core (cl_previous_marker_update f9 c) = core c" "core (cl_native_dump_update f10 c) = core c"
  "core (cl_identity_update f11 c) = core c" "core (cl_user_data_update f12 c) = core c"
  "core (cl_device_update f13 c) = core c" "core (cl_match_update f14 c) = core c"
  "core (cl_frames_update f15 c) = core c" "core (cl_heartbeat_stop_update f7 c) = core c"
  "core (cl_heartbeat_kick_update f7 c) = core c"
  by (simp_all add: core_def worker.defs)

text \<open>The worker's operations commute with the abstraction.\<close>

lemma core_enqueue: "core (enqueue job c) = enqueue job (core c)"
  by (simp add: enqueue_def)

lemma core_write_sidecar:
  "core (snd (write_sidecar kind body name c)) = snd (write_sidecar kind body name (core c))"
  by (simp add: write_sidecar_def case_prod_unfold Let_def)

lemma core_append_line: "core (append_line ts lvl m c) = append_line ts lvl m (core c)"
  by (simp add: append_line_def)

lemma core_flush_log: "core (flush_log c) = flush_log (core c)"
  by (simp add: flush_log_def case_prod_unfold Let_def)

lemma core_wake: "core (worker_wake c) = worker_wake (core c)"
  by (simp add: worker_wake_def)

lemma core_round_wake: "core (round_wake now c) = round_wake now (core c)"
  by (simp add: round_wake_def Let_def case_prod_unfold)

lemma core_take: "take_ready_job now c = Some (job, c') \<Longrightarrow> take_ready_job now (core c) = Some (job, core c')"
  by (auto simp: take_ready_job_def)

lemma core_persist_job: "core (persist_job name job c) = persist_job name job (core c)"
  by (simp add: persist_job_def)

lemma core_retry: "core (retry_or_give_up now name job ra c) = retry_or_give_up now name job ra (core c)"
  by (simp add: retry_or_give_up_def core_enqueue core_persist_job Let_def)

lemma core_remove: "core (remove_sidecar p c) = remove_sidecar p (core c)"
  by (simp add: remove_sidecar_def)

lemma core_schedule: "core (schedule_log_upload job body c) = schedule_log_upload job body (core c)"
  by (simp add: schedule_log_upload_def core_enqueue Let_def case_prod_unfold split: option.split)

lemma core_process: "core (process no_handlers later name ms r job c) = process no_handlers later name ms r job (core c)"
  by (simp add: process_def no_handlers_def handle_post_result_def core_retry core_remove core_schedule Let_def
      split: outcome.split)

lemma core_stop: "core (worker_stop names c) = worker_stop names (core c)"
proof -
  have "core (fold (\<lambda>(i, job). persist_job (names i) job) js v) =
      fold (\<lambda>(i, job). persist_job (names i) job) js (core v)" for js v
    by (induction js arbitrary: v) (simp_all add: core_persist_job case_prod_unfold)
  then show ?thesis by (simp add: worker_stop_def persist_leftovers_def)
qed

section \<open>What a part of the SDK may cause\<close>

text \<open>Heartbeats and batch envelopes, the payloads the session gate holds back.\<close>

definition gated :: "upload_job \<Rightarrow> bool" where
  "gated job \<longleftrightarrow> uj_parse_ack job \<or> (uj_no_persist job \<and> uj_sign_body job)"

text \<open>
  The events a call may cause: sidecars named from \<open>N\<close>, a change of the marker file \<open>m\<close>, and gated
  jobs only when \<open>g\<close> holds. \<open>moves\<close>: the second client is reached from the first by such events, on
  the same marker, and its gate is the same unless \<open>g\<close> holds.
\<close>

fun caused :: "string set \<Rightarrow> session_marker \<Rightarrow> bool \<Rightarrow> worker_event \<Rightarrow> bool" where
  "caused N m g (EvEnqueue job) \<longleftrightarrow> (gated job \<longrightarrow> g)"
| "caused N m g (EvPersist kind body name) \<longleftrightarrow> name \<in> N"
| "caused N m g (EvLog ts lvl line) \<longleftrightarrow> True"
| "caused N m g EvFlush \<longleftrightarrow> True"
| "caused N m g EvWake \<longleftrightarrow> True"
| "caused N m g (EvFile p) \<longleftrightarrow> m = Some p"
| "caused N m g _ \<longleftrightarrow> False"

definition frame :: "bool \<Rightarrow> client \<Rightarrow> client \<Rightarrow> bool" where
  [simp]: "frame g c c' \<longleftrightarrow> cl_marker c' = cl_marker c \<and> (cl_gate c' = cl_gate c \<or> g)"

definition moves :: "string set \<Rightarrow> bool \<Rightarrow> client \<Rightarrow> client \<Rightarrow> bool" where
  "moves N g c c' \<longleftrightarrow> frame g c c' \<and>
    (\<forall>h. \<exists>es. worker_run (core c) h es (core c') h \<and> (\<forall>e \<in> set es. caused N (cl_marker c) g e))"

lemma moves_quiet: "core c' = core c \<Longrightarrow> frame g c c' \<Longrightarrow> moves N g c c'"
  by (auto simp: moves_def intro: worker_run.intros exI [of _ "[]"])

lemma moves_trans:
  assumes "moves N g c c1" "moves N g c1 c2"
  shows "moves N g c c2"
proof -
  have "\<exists>es. worker_run (core c) h es (core c2) h \<and> (\<forall>e \<in> set es. caused N (cl_marker c) g e)" for h
  proof -
    from assms obtain es fs where "worker_run (core c) h es (core c1) h" "worker_run (core c1) h fs (core c2) h"
      "\<forall>e \<in> set es. caused N (cl_marker c) g e" "\<forall>e \<in> set fs. caused N (cl_marker c1) g e"
      unfolding moves_def by blast
    moreover have "cl_marker c1 = cl_marker c" using assms(1) by (simp add: moves_def frame_def)
    ultimately show ?thesis by (intro exI [of _ "es @ fs"]) (auto intro: run_append)
  qed
  with assms show ?thesis by (auto simp: moves_def frame_def)
qed

lemma moves_by:
  assumes "\<And>h. worker_step (core c) h e (core c') h" "caused N (cl_marker c) g e" "frame g c c'"
  shows "moves N g c c'"
proof -
  have "\<exists>es. worker_run (core c) h es (core c') h \<and> (\<forall>e \<in> set es. caused N (cl_marker c) g e)" for h
    using run_single [OF assms(1)] assms(2) by (intro exI [of _ "[e]"]) simp
  with assms(3) show ?thesis by (simp add: moves_def)
qed

text \<open>What the delivery operations leave alone in the client.\<close>

lemma delivery_frame [simp]:
  "cl_gate (enqueue j c) = cl_gate c" "cl_marker (enqueue j c) = cl_marker c" "cl_config (enqueue j c) = cl_config c"
  "cl_gate (append_line ts lvl l c) = cl_gate c" "cl_marker (append_line ts lvl l c) = cl_marker c"
  "cl_gate (snd (write_sidecar k b n c)) = cl_gate c" "cl_marker (snd (write_sidecar k b n c)) = cl_marker c"
  "cl_gate (flush_log c) = cl_gate c" "cl_marker (flush_log c) = cl_marker c"
  "cl_gate (worker_wake c) = cl_gate c" "cl_marker (worker_wake c) = cl_marker c"
  by (simp_all add: enqueue_def append_line_def write_sidecar_def flush_log_def worker_wake_def case_prod_unfold Let_def)

text \<open>The primitive moves.\<close>

lemma moves_enqueue:
  "core c1 = core c \<Longrightarrow> frame g c c1 \<Longrightarrow> uj_attempt job = 0 \<Longrightarrow> (gated job \<Longrightarrow> g) \<Longrightarrow> moves N g c (enqueue job c1)"
  by (rule moves_by [where e = "EvEnqueue job"]) (auto simp: core_enqueue frame_def intro: step_enqueue)

lemma moves_persist: "name \<in> N \<Longrightarrow> moves N g c (snd (write_sidecar kind body name c))"
  by (rule moves_by [where e = "EvPersist kind body name"]) (auto simp: core_write_sidecar frame_def intro: step_persist)

lemma moves_append_line: "moves N g c (append_line ts lvl line c)"
  by (rule moves_by [where e = "EvLog ts lvl line"]) (auto simp: core_append_line frame_def intro: step_log)

lemma moves_flush_log: "moves N g c (flush_log c)"
  by (rule moves_by [where e = EvFlush]) (auto simp: core_flush_log frame_def intro: step_flush)

lemma moves_wake: "moves N g c (worker_wake c)"
  by (rule moves_by [where e = EvWake]) (auto simp: core_wake frame_def intro: step_wake)

lemma moves_file:
  assumes "cl_marker c = Some p" "\<And>q. q \<noteq> p \<Longrightarrow> fs_lookup fs q = fs_lookup (wk_disk c) q"
  shows "moves N g c (c\<lparr>wk_disk := fs\<rparr>)"
proof (rule moves_by [where e = "EvFile p"])
  fix h
  have "worker_step (core c) h (EvFile p) ((core c)\<lparr>wk_disk := fs\<rparr>) h"
    by (rule step_file) (simp add: assms(2))
  then show "worker_step (core c) h (EvFile p) (core (c\<lparr>wk_disk := fs\<rparr>)) h" by simp
qed (simp_all add: assms(1) frame_def)

lemma still: "moves N g c c"
  by (simp add: moves_quiet frame_def)

lemma moves_then_quiet: "moves N g c c1 \<Longrightarrow> core c2 = core c1 \<Longrightarrow> frame g c1 c2 \<Longrightarrow> moves N g c c2"
  by (rule moves_trans [OF _ moves_quiet])

lemma moves_fold:
  "(\<And>x c. x \<in> set xs \<Longrightarrow> moves N g c (f x c)) \<Longrightarrow> moves N g c (fold f xs c)"
proof (induction xs arbitrary: c)
  case (Cons x xs)
  have "moves N g c (f x c)" by (rule Cons.prems) simp
  moreover have "moves N g (f x c) (fold f xs (f x c))" by (rule Cons.IH) (simp add: Cons.prems)
  ultimately show ?case using moves_trans by simp
qed (simp add: still)

section \<open>Every operation moves this way\<close>

lemma enqueue_ingest_moves:
  assumes "en_name e \<in> N"
  shows "moves N g c (enqueue_ingest e path body dur kind rl prev c)"
proof -
  let ?c = "if dur = WriteAhead \<and> cl_storage_available c then write_sidecar kind body (en_name e) c else ([], c)"
  have "moves N g c (snd ?c)" using moves_persist [OF assms] by (simp add: moves_quiet)
  moreover have "moves N g (snd ?c) (enqueue_ingest e path body dur kind rl prev c)"
    unfolding enqueue_ingest_def Let_def case_prod_unfold
    by (rule moves_enqueue) (simp_all add: new_job_def gated_def)
  ultimately show ?thesis by (rule moves_trans)
qed

lemma queue_envelopes_moves: "g \<Longrightarrow> moves N g c (queue_envelopes e path s envelopes c)"
  unfolding queue_envelopes_def by (rule moves_fold, rule moves_enqueue) (simp_all add: batch_job_def new_job_def)

lemma queue_envelopes_gate [simp]:
  "cl_gate (queue_envelopes e path s envelopes c) = cl_gate c" "cl_marker (queue_envelopes e path s envelopes c) = cl_marker c"
  unfolding queue_envelopes_def by (induction envelopes arbitrary: c) simp_all

lemma flush_event_gate [simp]: "cl_gate (flush_event_batch e force c) = cl_gate c"
  by (simp add: flush_event_batch_def case_prod_unfold Let_def)

lemma flush_metric_gate [simp]: "cl_gate (flush_metric_batch e force c) = cl_gate c"
  by (simp add: flush_metric_batch_def case_prod_unfold Let_def)

lemma flush_event_moves: "g \<Longrightarrow> moves N g c (flush_event_batch e force c)"
  unfolding flush_event_batch_def Let_def case_prod_unfold
  by (auto intro: moves_trans [OF moves_quiet queue_envelopes_moves] moves_quiet)

lemma flush_metric_moves: "g \<Longrightarrow> moves N g c (flush_metric_batch e force c)"
  unfolding flush_metric_batch_def Let_def case_prod_unfold
  by (auto intro: moves_trans [OF moves_quiet queue_envelopes_moves] moves_quiet)

lemma drain_ready_moves:
  assumes "gate_is_set (cl_gate c) \<Longrightarrow> g"
  shows "moves N g c (drain_ready_batches e c)"
  using assms moves_trans [OF flush_event_moves flush_metric_moves]
  by (simp add: drain_ready_batches_def moves_quiet)

lemma flush_all_moves:
  assumes "gate_is_set (cl_gate c) \<Longrightarrow> g"
  shows "moves N g c (flush_all_batches e c)"
  using assms moves_trans [OF flush_event_moves flush_metric_moves]
  by (simp add: flush_all_batches_def moves_quiet)

lemma breadcrumb_frame [simp]:
  "core (record_breadcrumb e lvl msg c) = core c" "cl_gate (record_breadcrumb e lvl msg c) = cl_gate c"
  "cl_marker (record_breadcrumb e lvl msg c) = cl_marker c"
  by (simp_all add: record_breadcrumb_def)

lemma add_breadcrumb_moves: "moves N g c (snd (add_breadcrumb e lvl msg c))"
  by (simp add: add_breadcrumb_def moves_quiet)

lemma wake_after: "core c1 = core c \<Longrightarrow> frame g c c1 \<Longrightarrow> moves N g c (worker_wake c1)"
  by (rule moves_trans [OF moves_quiet moves_wake])

lemma log_line_moves: "moves N g c (snd (log_line e lvl line c))"
  by (auto simp: log_line_def Let_def intro: moves_quiet moves_then_quiet [OF moves_append_line])

lemma track_event_moves: "moves N g c (snd (track_event e name ks vs n c))"
  by (auto simp: track_event_def Let_def case_prod_unfold intro: wake_after moves_quiet)

lemma track_metric_moves: "moves N g c (snd (track_metric e name v u c))"
  by (auto simp: track_metric_def Let_def case_prod_unfold intro: wake_after moves_quiet)

lemma moves_if: "(b \<Longrightarrow> moves N g c x) \<Longrightarrow> (\<not> b \<Longrightarrow> moves N g c y) \<Longrightarrow> moves N g c (if b then x else y)"
  by simp

lemma report_crash_moves:
  assumes "gate_is_set (cl_gate c) \<Longrightarrow> g" "en_name e \<in> N"
  shows "moves N g c (snd (report_crash e sig hint trace al c))"
proof -
  have ingest: "moves N g c (enqueue_ingest e path body dur kind rl prev (flush_all_batches e c1))"
    if "moves N g c c1" "cl_gate c1 = cl_gate c" for c1 path body dur kind rl prev
  proof -
    have "moves N g c (flush_all_batches e c1)"
      by (rule moves_trans [OF that(1) flush_all_moves]) (use assms(1) that(2) in simp)
    then show ?thesis by (rule moves_trans [OF _ enqueue_ingest_moves [OF assms(2)]])
  qed
  have line: "moves N g c (if b then append_line ts lvl l c1 else c1)" if "core c1 = core c" "frame g c c1" for b ts lvl l c1
    using moves_trans [OF moves_quiet [OF that] moves_append_line] moves_quiet [OF that] by simp
  show ?thesis
    unfolding report_crash_def Let_def case_prod_unfold if_distrib [of snd] snd_conv
    by (intro moves_if moves_trans [OF _ moves_flush_log] ingest line) (simp_all add: moves_quiet)
qed

lemma report_bug_moves:
  "en_name e \<in> N \<Longrightarrow> moves N g c (snd (report_bug e category msg al c))"
  by (simp add: report_bug_def Let_def moves_quiet enqueue_ingest_moves)

lemma set_level_moves: "moves N g c (snd (set_level e lvl c))"
  by (simp add: set_level_def Let_def moves_quiet)

lemma request_player_logs_moves: "moves N g c (snd (request_player_logs tt tv rs c))"
  by (auto simp: request_player_logs_def new_job_def gated_def intro: moves_quiet moves_enqueue)

lemma setters_moves:
  "moves N g c (set_sample_rate name rate c)" "moves N g c (report_frame ms c)"
  "moves N g c (snd (client_set_user u s c))" "moves N g c (snd (client_set_user_metadata ks vs n c))"
  "moves N g c (snd (set_environment env c))" "moves N g c (snd (set_server_info r ho c))"
  "moves N g c (snd (mark_dedicated_server si r ho c))" "moves N g c (snd (set_match_context si mi c))"
  "moves N g c (snd (snd (start_match e wr cap c)))" "moves N g c (snd (end_match c))"
  "moves N g c (snd (set_device d c))"
  by (simp_all add: set_sample_rate_def report_frame_def client_set_user_def client_set_user_metadata_def
      set_environment_def set_server_info_def mark_dedicated_server_def set_match_context_def start_match_def
      end_match_def set_device_def Let_def case_prod_unfold moves_quiet)

lemma start_session_moves: "g \<Longrightarrow> moves N g c (snd (start_session c))"
  by (auto simp: start_session_def Let_def case_prod_unfold intro: wake_after moves_quiet)

lemma report_unclean_moves: "en_name e \<in> N \<Longrightarrow> moves N g c (report_unclean_shutdown e previous c)"
  using moves_trans [OF moves_quiet enqueue_ingest_moves]
  by (auto simp: report_unclean_shutdown_def report_native_crash_def Let_def moves_quiet split: option.split)

lemma marker_write_moves: "moves N g c (c\<lparr>wk_disk := marker_write d (cl_marker c) (wk_disk c)\<rparr>)"
  by (cases "cl_marker c") (auto simp: marker_write_def moves_quiet fs_write_lookup intro: moves_file)

lemma marker_remove_moves: "moves N g c (c\<lparr>wk_disk := marker_remove (cl_marker c) (wk_disk c)\<rparr>)"
  by (cases "cl_marker c") (auto simp: marker_remove_def moves_quiet disk.other_paths intro: moves_file)

lemma start_tracking_moves:
  assumes "en_name e \<in> N"
  shows "moves N g c (start_session_tracking e c)"
proof -
  let ?d = "\<lparr>md_session_id = co_session_id (cl_config c), md_started_at_iso = en_iso e,
    md_build_version = co_build_version (cl_config c), md_os = co_os (cl_config c), md_arch = co_arch (cl_config c)\<rparr>"
  let ?c = "(c\<lparr>cl_tracking_started := True\<rparr>)\<lparr>wk_disk := marker_write ?d (cl_marker c) (wk_disk c)\<rparr>"
  have "moves N g c ?c"
    using moves_trans [OF moves_quiet marker_write_moves, of "c\<lparr>cl_tracking_started := True\<rparr>" c g N ?d] by simp
  moreover have "moves N g ?c (report_unclean_shutdown e previous (?c\<lparr>cl_previous_marker := None\<rparr>))" for previous
    by (rule moves_trans [OF moves_quiet report_unclean_moves [OF assms(1)]]) simp_all
  ultimately show ?thesis
    using moves_trans
    by (auto simp: start_session_tracking_def Let_def moves_quiet split: option.split)
qed

lemma set_consent_moves:
  assumes "en_name e \<in> N"
  shows "moves N g c (snd (set_consent e granted c))"
proof -
  have "moves N g c (start_session_tracking e (c\<lparr>cl_consent := granted\<rparr>))"
    by (rule moves_trans [OF moves_quiet start_tracking_moves [OF assms(1)]]) simp_all
  then show ?thesis by (auto simp: set_consent_def Let_def intro: moves_quiet)
qed

text \<open>Only the last section of a beat touches the queue.\<close>

lemma run_section_moves:
  assumes g
  shows "moves N g c (snd (run_section e sec p carrying c))"
proof (cases "sec = Queue_Beat")
  case True
  with assms show ?thesis
    by (simp, intro moves_enqueue) (simp_all add: heartbeat_job_def new_job_def)
qed (cases sec; simp add: Let_def case_prod_unfold moves_quiet)

lemma beat_step_moves:
  assumes "building b \<Longrightarrow> g"
  shows "moves N g c (snd (beat_step e b c))"
  using assms by (cases b) (simp_all add: moves_quiet run_section_moves)

lemma ack_moves: "moves N g c (handle_heartbeat_ack body c)"
proof -
  have "moves N g c (fold (\<lambda>r. enqueue (fulfil_job c1 r)) rs c1)" if "core c1 = core c" "frame g c c1" for c1 rs
    by (rule moves_trans [OF moves_quiet [OF that]], rule moves_fold, rule moves_enqueue)
      (simp_all add: fulfil_job_def new_job_def gated_def)
  then show ?thesis by (simp add: handle_heartbeat_ack_def Let_def moves_quiet)
qed

lemma flush_begin_moves:
  assumes "gate_is_set (cl_gate c) \<Longrightarrow> g"
  shows "moves N g c (flush_begin e c)"
proof -
  have "moves N g c (flush_all_batches e (flush_log c))"
    by (rule moves_trans [OF moves_flush_log flush_all_moves]) (simp add: assms)
  with flush_all_moves [OF assms] show ?thesis by (simp add: flush_begin_def)
qed

lemma destroy_begin_moves:
  assumes "gate_is_set (cl_gate c) \<Longrightarrow> g"
  shows "moves N g c (destroy_begin e c)"
proof -
  let ?c = "c\<lparr>cl_heartbeat_stop := True\<rparr>"
  have "moves N g c ?c" by (simp add: moves_quiet)
  moreover have "moves N g ?c (flush_log ?c)" by (rule moves_flush_log)
  moreover have "moves N g c1 (flush_all_batches e c1)" if "cl_gate c1 = cl_gate c" for c1
    using assms that by (intro flush_all_moves) simp
  ultimately show ?thesis
    by (auto simp: destroy_begin_def Let_def intro: moves_trans)
qed

lemma destroy_end_moves: "moves N g c (destroy_end c)"
  using marker_remove_moves by (simp add: destroy_end_def moves_quiet)


section \<open>The worker's client\<close>

lemma worker_frame:
  "cl_marker (retry_or_give_up now name job ra c) = cl_marker c" "cl_gate (retry_or_give_up now name job ra c) = cl_gate c"
  "cl_marker (schedule_log_upload job body c) = cl_marker c" "cl_gate (schedule_log_upload job body c) = cl_gate c"
  "cl_marker (remove_sidecar p c) = cl_marker c" "cl_gate (remove_sidecar p c) = cl_gate c"
  by (simp_all add: retry_or_give_up_def persist_job_def schedule_log_upload_def remove_sidecar_def Let_def
      case_prod_unfold split: option.split)

lemma process_frame:
  "cl_marker (process no_handlers later name ms r job c) = cl_marker c"
  "cl_gate (process no_handlers later name ms r job c) = cl_gate c"
  by (simp_all add: process_def no_handlers_def handle_post_result_def worker_frame Let_def split: outcome.split)


text \<open>
  What the delivery thread relies on: the callbacks installed on it move only as the SDK may. The
  lemma replays an answered request with its callbacks on the delivery machine.
\<close>

locale delivery_client =
  fixes hs :: "client handlers"
  assumes drain_ok: "hd_drain hs = Some d \<Longrightarrow> (gate_is_set (cl_gate c) \<Longrightarrow> g) \<Longrightarrow> moves {} g c (d c)"
    and ack_ok: "hd_ack hs = Some f \<Longrightarrow> moves {} g c (f body c)"
    and rtt_ok: "hd_rtt hs = Some h \<Longrightarrow> moves {} g c (h ms c)"
begin

lemma callbacks_move:
  "moves {} g (process no_handlers later name ms r job c) (process hs later name ms r job c)"
proof -
  have after: "moves {} g c1 (case hd_rtt hs of None \<Rightarrow> c2 | Some rtt \<Rightarrow> if b then rtt ms c2 else c2)"
    if "moves {} g c1 c2" for b c1 c2
    using that moves_trans [OF that rtt_ok] by (simp split: option.split)
  have ack: "moves {} g c1 (case hd_ack hs of None \<Rightarrow> c1 | Some ack \<Rightarrow> if b then ack body c1 else c1)" for b body c1
    using ack_ok by (simp add: still split: option.split)
  show ?thesis
    using still [of "{}" g]
    by (cases "response_outcome r")
      (auto simp: process_def no_handlers_def handle_post_result_def Let_def intro!: after ack)
qed

lemma answered:
  obtains es where
    "worker_run (core c) (Some job) (EvAnswer job r name # es) (core (process hs later name ms r job c)) None"
    "\<forall>e \<in> set es. caused {} (cl_marker c) g e" "frame g c (process hs later name ms r job c)"
proof -
  let ?c = "process no_handlers later name ms r job c"
  have "worker_step (core c) (Some job) (EvAnswer job r name) (core ?c) None"
    unfolding core_process by (rule step_answer)
  moreover obtain es where "worker_run (core ?c) None es (core (process hs later name ms r job c)) None"
    "\<forall>e \<in> set es. caused {} (cl_marker ?c) g e"
    using callbacks_move [of g later name ms r job c] unfolding moves_def by blast
  moreover have "cl_marker ?c = cl_marker c" "cl_gate ?c = cl_gate c"
    by (simp_all add: process_frame)
  moreover have "frame g ?c (process hs later name ms r job c)"
    using callbacks_move unfolding moves_def by blast
  ultimately show ?thesis by (intro that [of es]) (auto intro: run_Cons)
qed

end

interpretation client_worker: delivery_client "client_handlers e rtt" for e rtt
  by unfold_locales
    (auto simp: client_handlers_def record_rtt_metric_def ack_moves track_metric_moves drain_ready_moves split: if_splits)

end
