(* ===== verification/Resend_Bound.thy ===== *)
theory Resend_Bound
  imports Delivery
begin

text \<open>
  How often the delivery machine sends one job: a job keeps what it carries from its first attempt
  to its last, and every attempt takes one of the five it may have.
\<close>

section \<open>Attempts left\<close>

text \<open>
  \<open>job_id\<close> is the job without its attempt number and time. The attempts left are its budget; a step that
  sends it takes one away, and only a new job brings five.
\<close>

definition job_id :: "upload_job \<Rightarrow> upload_job" where
  "job_id job = job\<lparr>uj_attempt := 0, uj_not_before := 0\<rparr>"

lemma job_id_again [simp]:
  "job_id (job\<lparr>uj_attempt := n, uj_not_before := t\<rparr>) = job_id job" "uj_is_log_upload (job_id job) = uj_is_log_upload job"
  by (simp_all add: job_id_def)

definition job_budget :: "(upload_job \<Rightarrow> bool) \<Rightarrow> upload_job \<Rightarrow> nat" where
  "job_budget P job = (if P (job_id job) then nat (5 - uj_attempt job) else 0)"

definition budget :: "(upload_job \<Rightarrow> bool) \<Rightarrow> 'a worker_scheme \<Rightarrow> nat" where
  "budget P w = sum_list (map (job_budget P) (wk_queue w))"

text \<open>The jobs an event sends and the new ones it may bring; \<open>uploads\<close> says whether \<open>P\<close> is about log uploads at all.\<close>

fun sent :: "(upload_job \<Rightarrow> bool) \<Rightarrow> worker_event \<Rightarrow> nat" where
  "sent P (EvAnswer job r name) = (if P (job_id job) then 1 else 0)"
| "sent P _ = 0"

definition asks_for_log :: "upload_job \<Rightarrow> http_response \<Rightarrow> bool" where
  "asks_for_log job r \<longleftrightarrow> \<not> uj_is_log_upload job \<and> uj_request_log job \<and> response_outcome r = Delivered"

fun brought :: "(upload_job \<Rightarrow> bool) \<Rightarrow> bool \<Rightarrow> worker_event \<Rightarrow> nat" where
  "brought P uploads (EvEnqueue job) = (if P (job_id job) then 1 else 0)"
| "brought P uploads (EvAnswer job r name) = (if uploads \<and> asks_for_log job r then 1 else 0)"
| "brought P uploads _ = 0"

lemma enqueue_budget: "budget P (enqueue job w) \<le> budget P w + job_budget P job"
  by (cases "wk_queue w") (auto simp: budget_def enqueue_def)

lemma budget_queue: "wk_queue w' = wk_queue w \<Longrightarrow> budget P w' = budget P w"
  by (simp add: budget_def)

lemma retry_budget:
  assumes "job_ok job"
  shows "(if P (job_id job) then 1 else 0) + budget P (retry_or_give_up now name job ra w) \<le> budget P w + job_budget P job"
proof (cases "uj_attempt job + 1 < max_attempts")
  case True
  define job' where "job' = job\<lparr>uj_attempt := uj_attempt job + 1,
    uj_not_before := now + seconds (retry_delay (uj_attempt job + 1) ra)\<rparr>"
  have "retry_or_give_up now name job ra w = enqueue job' w"
    using True by (simp add: retry_or_give_up_def job'_def)
  moreover have "(if P (job_id job) then 1 else 0) + job_budget P job' \<le> job_budget P job"
    using True by (auto simp: job_budget_def job'_def max_attempts_def Suc_nat_eq_nat_zadd1)
  ultimately show ?thesis using enqueue_budget [of P job' w] by simp
next
  case False
  with assms show ?thesis by (simp add: retry_or_give_up_def budget_def job_budget_def job_ok_def max_attempts_def le_nat_iff)
qed

lemma schedule_budget:
  assumes "\<forall>job. P job \<and> uj_is_log_upload job \<longrightarrow> uploads"
  shows "budget P (schedule_log_upload job body w) \<le> budget P w + (if uploads then 5 else 0)"
proof -
  have "budget P (enqueue (new_job\<lparr>uj_is_log_upload := True, uj_url := u, uj_form_fields := f, uj_raw := b,
      uj_durability := PersistOnFailure\<rparr>) v) \<le> budget P v + (if uploads then 5 else 0)" for u f b and v :: "'a worker_scheme"
    using enqueue_budget [of P "new_job\<lparr>uj_is_log_upload := True, uj_url := u, uj_form_fields := f, uj_raw := b,
      uj_durability := PersistOnFailure\<rparr>" v] assms
    by (fastforce simp: job_budget_def job_id_def new_job_def split: if_splits)
  note this [THEN order_trans]
  then show ?thesis
    by (auto simp: schedule_log_upload_def Let_def case_prod_unfold budget_def split: option.split)
qed

lemma process_budget:
  assumes "job_ok job" "\<forall>job. P job \<and> uj_is_log_upload job \<longrightarrow> uploads"
  shows "(if P (job_id job) then 1 else 0) + budget P (process no_handlers later name ms r job w) \<le>
    budget P w + job_budget P job + (if uploads \<and> asks_for_log job r then 5 else 0)"
proof -
  have one: "(if P (job_id job) then 1 else 0) \<le> job_budget P job"
    using assms(1) by (simp add: job_budget_def job_ok_def max_attempts_def le_nat_iff)
  have remove: "budget P (remove_sidecar p v) = budget P v" for p and v :: "'a worker_scheme" by (simp add: budget_def)
  have schedule: "budget P (schedule_log_upload job body (remove_sidecar p w)) \<le> budget P w + (if uploads then 5 else 0)" for body p
    using schedule_budget [OF assms(2), of job body "remove_sidecar p w"] by (simp add: remove)
  show ?thesis
    using one schedule [of "hr_body r" "uj_sidecar_path job"]
      retry_budget [OF assms(1), of P later name "retry_after_hint (hr_status r) (hr_retry_after r)" w]
    by (cases "response_outcome r")
      (auto simp: process_def no_handlers_def handle_post_result_def asks_for_log_def remove Let_def split: if_splits)
qed

lemma taken_budget: "take_ready_job now w = Some (job, w') \<Longrightarrow> budget P w = budget P w' + job_budget P job"
  by (auto elim!: take_ready_job_Some simp: budget_def)

definition hand :: "(upload_job \<Rightarrow> bool) \<Rightarrow> upload_job option \<Rightarrow> nat" where
  "hand P h = (case h of None \<Rightarrow> 0 | Some job \<Rightarrow> job_budget P job)"

lemma step_budget:
  assumes "worker_step w h e w' h'" "thread_ok w h" "\<forall>job. P job \<and> uj_is_log_upload job \<longrightarrow> uploads"
  shows "sent P e + (budget P w' + hand P h') \<le> budget P w + hand P h + 5 * brought P uploads e"
  using assms(1,2)
proof (induction rule: worker_step.induct)
  case (step_enqueue job w h)
  have "job_budget P job \<le> 5 * brought P uploads (EvEnqueue job)" using step_enqueue by (simp add: job_budget_def)
  with enqueue_budget [of P job w] show ?case by simp
next
  case (step_take now w job w')
  from taken_budget [OF this(1), of P] show ?case by (simp add: hand_def budget_def)
next
  case (step_answer w job r name later ms)
  then have "job_ok job" by (simp add: thread_ok_def)
  from process_budget [OF this assms(3), where later = later and name = name and ms = ms and r = r and w = w] show ?case by (auto simp: hand_def split: if_splits)
next
  case (step_stop w names)
  have "budget P (persist_leftovers names v) = 0" for v :: worker by (simp add: budget_def persist_leftovers_queue)
  then show ?case by (simp add: worker_stop_def budget_def)
qed (auto simp: budget_def write_sidecar_def append_line_def flush_log_def round_wake_def case_prod_unfold Let_def)

lemma run_budget:
  assumes "worker_run w h es w' h'" "thread_ok w h" "\<forall>job. P job \<and> uj_is_log_upload job \<longrightarrow> uploads"
  shows "sum_list (map (sent P) es) + (budget P w' + hand P h') \<le>
    budget P w + hand P h + 5 * sum_list (map (brought P uploads) es)"
  using assms(1,2)
proof (induction rule: worker_run.induct)
  case (run_Cons w h e w1 h1 es w2 h2)
  have "thread_ok w1 h1" using run_Cons by (blast intro: thread_ok_step)
  from run_Cons.IH [OF this] step_budget [OF run_Cons.hyps(1) run_Cons.prems assms(3)] show ?case by simp
qed simp

text \<open>What the server sees: the sequence of answered requests.\<close>

fun exchange :: "worker_event \<Rightarrow> (upload_job \<times> http_response) list" where
  "exchange (EvAnswer job response name) = [(job, response)]"
| "exchange _ = []"

abbreviation exchanges :: "worker_event list \<Rightarrow> (upload_job \<times> http_response) list" where
  "exchanges es \<equiv> concat (map exchange es)"

text \<open>How often something is sent, waits, and comes in.\<close>

definition times_sent :: "(upload_job \<Rightarrow> bool) \<Rightarrow> (upload_job \<times> http_response) list \<Rightarrow> nat" where
  "times_sent P answers = length (filter (\<lambda>(job, r). P (job_id job)) answers)"

definition waiting :: "(upload_job \<Rightarrow> bool) \<Rightarrow> 'a worker_scheme \<Rightarrow> upload_job option \<Rightarrow> nat" where
  "waiting P w h = length (filter (\<lambda>job. P (job_id job)) (wk_queue w @ (case h of None \<Rightarrow> [] | Some job \<Rightarrow> [job])))"

definition times_enqueued :: "(upload_job \<Rightarrow> bool) \<Rightarrow> worker_event list \<Rightarrow> nat" where
  "times_enqueued P es = length (filter (\<lambda>ev. case ev of EvEnqueue job \<Rightarrow> P (job_id job) | _ \<Rightarrow> False) es)"

definition logs_asked :: "(upload_job \<times> http_response) list \<Rightarrow> nat" where
  "logs_asked answers = length (filter (\<lambda>(job, r). asks_for_log job r) answers)"

lemma budget_waiting:
  assumes "thread_ok w h"
  shows "budget P w + hand P h \<le> 5 * waiting P w h"
proof -
  have job: "job_budget P job \<le> (if P (job_id job) then 5 else 0)" if "job_ok job" for job
    using that by (auto simp: job_budget_def job_ok_def)
  have "sum_list (map (job_budget P) js) \<le> 5 * length (filter (\<lambda>job. P (job_id job)) js)" if "\<forall>job \<in> set js. job_ok job" for js
    using that
  proof (induction js)
    case (Cons j js)
    with job [of j] show ?case by (auto split: if_splits)
  qed simp
  moreover have "\<forall>job \<in> set (wk_queue w). job_ok job" "\<And>job. h = Some job \<Longrightarrow> job_ok job"
    using assms by (auto simp: thread_ok_def delivery_ok_def)
  ultimately show ?thesis
    using job by (cases h) (force simp: budget_def hand_def waiting_def)+
qed

lemma run_sends:
  assumes "worker_run w h es w' h'" "thread_ok w h"
  shows "times_sent P (exchanges es) + (budget P w' + hand P h') \<le> 5 * (waiting P w h + times_enqueued P es +
    (if \<exists>job. P job \<and> uj_is_log_upload job then logs_asked (exchanges es) else 0))"
proof -
  have "sum_list (map (sent P) es) = times_sent P (exchanges es)"
  proof (induction es)
    case (Cons ev es)
    then show ?case by (cases ev) (simp_all add: times_sent_def)
  qed (simp add: times_sent_def)
  moreover have "sum_list (map (brought P uploads) es) = times_enqueued P es + (if uploads then logs_asked (exchanges es) else 0)" for uploads
  proof (induction es)
    case (Cons ev es)
    then show ?case by (cases ev) (simp_all add: times_enqueued_def logs_asked_def)
  qed (simp add: times_enqueued_def logs_asked_def)
  ultimately show ?thesis
    using run_budget [OF assms, of P "\<exists>job. P job \<and> uj_is_log_upload job"] budget_waiting [OF assms(2), of P]
    by (auto simp: algebra_simps split: if_splits)
qed

end
