(* ===== verification/Sdk_Run.thy ===== *)
theory Sdk_Run
  imports Sdk Resend_Bound
begin

text \<open>
  Runs of the SDK: any interleaving of calls from the game, heartbeats and the worker's steps. Every
  run is a run of the delivery machine, so its guarantees hold of the whole SDK.
\<close>

section \<open>Calls and steps\<close>

text \<open>The calls of a live client, and the parts of \<open>flush\<close> and of the destructor around the wait.\<close>

datatype client_op =
    Op_Breadcrumb level cstr
  | Op_Log level cstr
  | Op_Event cstr "cstr list option" "cstr list option" nat
  | Op_Metric cstr double cstr
  | Op_Crash cstr cstr cstr bool
  | Op_Bug cstr cstr bool
  | Op_Level cstr
  | Op_Frame double
  | Op_Sample_Rate cstr double
  | Op_Request_Logs cstr cstr cstr
  | Op_User cstr cstr
  | Op_User_Metadata "cstr list option" "cstr list option" nat
  | Op_Environment cstr
  | Op_Server_Info cstr cstr
  | Op_Dedicated_Server cstr cstr cstr
  | Op_Match_Context cstr cstr
  | Op_Start_Match bool nat
  | Op_End_Match
  | Op_Device "device_options option"
  | Op_Consent bool
  | Op_Start_Session
  | Op_Flush_Begin
  | Op_Destroy_Begin
  | Op_Destroy_End

fun client_call :: "env \<Rightarrow> client_op \<Rightarrow> client \<Rightarrow> result \<times> client" where
  "client_call e (Op_Breadcrumb lvl msg) c = add_breadcrumb e lvl msg c"
| "client_call e (Op_Log lvl line) c = log_line e lvl line c"
| "client_call e (Op_Event name keys vals n) c = track_event e name keys vals n c"
| "client_call e (Op_Metric name v unit) c = track_metric e name v unit c"
| "client_call e (Op_Crash sig hint trace al) c = report_crash e sig hint trace al c"
| "client_call e (Op_Bug category msg al) c = report_bug e category msg al c"
| "client_call e (Op_Level lvl) c = set_level e lvl c"
| "client_call e (Op_Frame ms) c = (OK, report_frame ms c)"
| "client_call e (Op_Sample_Rate name rate) c = (OK, set_sample_rate name rate c)"
| "client_call e (Op_Request_Logs tt tv reason) c = request_player_logs tt tv reason c"
| "client_call e (Op_User user_id steam_id) c = client_set_user user_id steam_id c"
| "client_call e (Op_User_Metadata keys vals n) c = client_set_user_metadata keys vals n c"
| "client_call e (Op_Environment v) c = set_environment v c"
| "client_call e (Op_Server_Info region hostname) c = set_server_info region hostname c"
| "client_call e (Op_Dedicated_Server sid region hostname) c = mark_dedicated_server sid region hostname c"
| "client_call e (Op_Match_Context sid mid) c = set_match_context sid mid c"
| "client_call e (Op_Start_Match writable cap) c = (let (r, out, c) = start_match e writable cap c in (r, c))"
| "client_call e Op_End_Match c = end_match c"
| "client_call e (Op_Device d) c = set_device d c"
| "client_call e (Op_Consent granted) c = set_consent e granted c"
| "client_call e Op_Start_Session c = start_session c"
| "client_call e Op_Flush_Begin c = (OK, flush_begin e c)"
| "client_call e Op_Destroy_Begin c = (OK, destroy_begin e c)"
| "client_call e Op_Destroy_End c = (OK, destroy_end c)"

lemma call_moves:
  assumes "gate_is_set (cl_gate c) \<Longrightarrow> g" "op = Op_Start_Session \<Longrightarrow> g" "en_name e \<in> N"
  shows "moves N g c (snd (client_call e op c))"
proof (cases op)
  case (Op_Start_Match w n)
  then show ?thesis using setters_moves(9) [of N g c e w n] by (simp add: case_prod_unfold Let_def)
qed (use assms in \<open>simp_all add: add_breadcrumb_moves log_line_moves track_event_moves track_metric_moves
    report_crash_moves report_bug_moves set_level_moves request_player_logs_moves setters_moves
    set_consent_moves start_session_moves flush_begin_moves destroy_begin_moves destroy_end_moves\<close>)

text \<open>
  One step of the SDK: a call from the game, a section of the heartbeat thread, or a step of the worker
  thread. The threads' own state is the job the worker holds and where the heartbeat stands. The
  worker runs with the client's handlers.
\<close>

type_synonym threads = "upload_job option \<times> beat_phase"

datatype sdk_event =
    Call env client_op
  | Beat env beat_phase
  | Drain env
  | Woken int
  | Take upload_job
  | Answer env upload_job http_response string
  | Done
  | Stop "nat \<Rightarrow> string"

inductive sdk_step :: "client \<Rightarrow> threads \<Rightarrow> sdk_event \<Rightarrow> client \<Rightarrow> threads \<Rightarrow> bool" where
  sdk_call: "sdk_step c t (Call e op) (snd (client_call e op c)) t"
| sdk_beat: "sdk_step c (h, b) (Beat e b) (snd (beat_step e b c)) (h, fst (beat_step e b c))"
| sdk_drain: "sdk_step c (None, b) (Drain e) (drain_ready_batches e c) (None, b)"
| sdk_woken: "sdk_step c (None, b) (Woken now) (round_wake now c) (None, b)"
| sdk_take:
    "take_ready_job now c = Some (job, c') \<Longrightarrow> sdk_step c (None, b) (Take job) (c'\<lparr>wk_in_flight := True\<rparr>) (Some job, b)"
| sdk_answer:
    "sdk_step c (Some job, b) (Answer e job response name)
       (process (client_handlers e (co_rtt_metric (cl_config c))) later name ms response job c) (None, b)"
| sdk_done: "sdk_step c (None, b) Done (c\<lparr>wk_in_flight := False\<rparr>) (None, b)"
| sdk_stop: "sdk_step c (None, b) (Stop names) (worker_stop names c) (None, b)"

inductive sdk_run :: "client \<Rightarrow> threads \<Rightarrow> sdk_event list \<Rightarrow> client \<Rightarrow> threads \<Rightarrow> bool" where
  sdk_Nil: "sdk_run c t [] c t"
| sdk_Cons: "sdk_step c t e c1 t1 \<Longrightarrow> sdk_run c1 t1 es c2 t2 \<Longrightarrow> sdk_run c t (e # es) c2 t2"

lemma sdk_run_append: "sdk_run c t evs c1 t1 \<Longrightarrow> sdk_run c1 t1 fvs c2 t2 \<Longrightarrow> sdk_run c t (evs @ fvs) c2 t2"
  by (induction rule: sdk_run.induct) (auto intro: sdk_run.intros)

text \<open>A whole round of the worker, an uninterrupted heartbeat and the destructor are such runs.\<close>

lemma config_frame [simp]:
  "cl_config (drain_ready_batches e c) = cl_config c" "cl_config (round_wake now c) = cl_config c"
  "take_ready_job now c = Some (job, c') \<Longrightarrow> cl_config c' = cl_config c"
proof -
  have "cl_config (queue_envelopes e path s envelopes c) = cl_config c" for path s envelopes c
    unfolding queue_envelopes_def by (induction envelopes arbitrary: c) simp_all
  then show "cl_config (drain_ready_batches e c) = cl_config c" for c
    by (simp add: drain_ready_batches_def flush_event_batch_def flush_metric_batch_def case_prod_unfold Let_def)
qed (auto simp: round_wake_def Let_def case_prod_unfold take_ready_job_def)

lemma worker_round_runs:
  "\<exists>evs. sdk_run c (None, b) evs
     (snd (worker_round (client_handlers e (co_rtt_metric (cl_config c))) now later name ms r c)) (None, b)"
proof -
  let ?hs = "client_handlers e (co_rtt_metric (cl_config c))" and ?d = "drain_ready_batches e c"
  let ?v = "round_wake now ?d"
  note start = sdk_Cons [OF sdk_drain [of c b e]]
  consider "\<not> wk_running ?d" | "wk_running ?d" "take_ready_job now ?v = None"
    | job c' where "wk_running ?d" "take_ready_job now ?v = Some (job, c')"
    by (cases "take_ready_job now ?v") auto
  then show ?thesis
  proof cases
    case 1
    then show ?thesis
      by (auto simp: worker_round_def client_handlers_def Let_def intro: start sdk_Nil)
  next
    case 2
    then have "snd (worker_round ?hs now later name ms r c) = ?v"
      by (simp add: worker_round_def client_handlers_def Let_def)
    then show ?thesis by (auto intro: start sdk_Cons [OF sdk_woken] sdk_Nil)
  next
    case 3
    let ?c = "c'\<lparr>wk_in_flight := True\<rparr>"
    have "snd (worker_round ?hs now later name ms r c) = (process ?hs later name ms r job ?c)\<lparr>wk_in_flight := False\<rparr>"
      using 3 by (simp add: worker_round_def client_handlers_def Let_def)
    moreover have "sdk_step ?c (Some job, b) (Answer e job r name) (process ?hs later name ms r job ?c) (None, b)"
      using sdk_answer [of ?c job b e r name later ms] 3(2) by simp
    ultimately have "sdk_run c (None, b) [Drain e, Woken now, Take job, Answer e job r name, Done]
        (snd (worker_round ?hs now later name ms r c)) (None, b)"
      using sdk_done by (metis start sdk_Cons [OF sdk_woken] sdk_Cons [OF sdk_take [OF 3(2)]] sdk_Cons sdk_Nil)
    then show ?thesis by blast
  qed
qed

lemma sections_run:
  "\<exists>evs. sdk_run c (h, b) evs (snd (beat_steps e n (b, c))) (h, fst (beat_steps e n (b, c))) \<and> (\<forall>ev \<in> set evs. \<exists>b. ev = Beat e b)"
proof (induction n arbitrary: b c)
  case 0
  show ?case by (auto intro: sdk_Nil exI [of _ "[]"])
next
  case (Suc n)
  obtain b1 c1 where step: "beat_step e b c = (b1, c1)" by force
  from Suc.IH [of c1 b1] obtain evs where
    "sdk_run c1 (h, b1) evs (snd (beat_steps e n (b1, c1))) (h, fst (beat_steps e n (b1, c1)))" "\<forall>ev \<in> set evs. \<exists>b. ev = Beat e b"
    by blast
  with sdk_Cons [OF sdk_beat [of c h b e]] step show ?case
    by (auto intro!: exI [of _ "Beat e b # evs"])
qed

lemma pass_run:
  assumes "\<not> cl_heartbeat_stop c"
  obtains evs where "sdk_run c (h, Loop_Top) evs (heartbeat_pass e c) (h, Loop_Top)" "\<forall>ev \<in> set evs. \<exists>b. ev = Beat e b"
  using sections_run [of c h Loop_Top e "if capture_allowed c \<and> gate_is_set (cl_gate c) then 10 else 2"]
  unfolding sections_compose [OF assms] by auto

lemma destroy_runs:
  assumes "cl_initialized (destroy_begin e c)" "sdk_run (destroy_begin e c) t evs (waited (destroy_begin e c)) (None, b)"
  shows "sdk_run c t (Call e Op_Destroy_Begin # evs @ [Stop names, Call e Op_Destroy_End])
    (client_destroy e waited names c) (None, b)"
proof -
  let ?w = "waited (destroy_begin e c)"
  have "sdk_run ?w (None, b) [Stop names, Call e Op_Destroy_End] (destroy_end (worker_stop names ?w)) (None, b)"
    using sdk_call [of "worker_stop names ?w" "(None, b)" e Op_Destroy_End]
    by (auto intro!: sdk_Cons [OF sdk_stop] intro: sdk_run.intros)
  from sdk_run_append [OF assms(2) this] sdk_call [of c t e Op_Destroy_Begin] assms(1) show ?thesis
    by (auto simp: client_destroy_def Let_def intro: sdk_Cons)
qed

section \<open>Refinement\<close>

text \<open>What the server sees of a run of the SDK, as \<open>exchange\<close> says it of the delivery machine.\<close>

fun sdk_exchange :: "sdk_event \<Rightarrow> (upload_job \<times> http_response) list" where
  "sdk_exchange (Answer e job response name) = [(job, response)]"
| "sdk_exchange _ = []"

abbreviation sdk_exchanges :: "sdk_event list \<Rightarrow> (upload_job \<times> http_response) list" where
  "sdk_exchanges evs \<equiv> concat (map sdk_exchange evs)"

text \<open>The delivery events one step of the SDK stands for.\<close>

fun allowed :: "session_marker \<Rightarrow> bool \<Rightarrow> sdk_event \<Rightarrow> worker_event \<Rightarrow> bool" where
  "allowed m g (Call e op) x \<longleftrightarrow> caused {en_name e} m g x"
| "allowed m g (Answer e job response name) x \<longleftrightarrow> x = EvAnswer job response name \<or> caused {} m g x"
| "allowed m g (Woken now) x \<longleftrightarrow> x = EvWoken now"
| "allowed m g (Take job) x \<longleftrightarrow> x = EvTake job"
| "allowed m g Done x \<longleftrightarrow> x = EvDone"
| "allowed m g (Stop names) x \<longleftrightarrow> x = EvStop names"
| "allowed m g _ x \<longleftrightarrow> caused {} m g x"

definition opens_session :: "sdk_event \<Rightarrow> bool" where
  "opens_session ev \<longleftrightarrow> (\<exists>e. ev = Call e Op_Start_Session)"

definition simulates :: "bool \<Rightarrow> client \<Rightarrow> threads \<Rightarrow> sdk_event \<Rightarrow> client \<Rightarrow> threads \<Rightarrow> bool" where
  "simulates g c t ev c' t' \<longleftrightarrow> frame g c c' \<and>
    (\<exists>es. worker_run (core c) (fst t) es (core c') (fst t') \<and> exchanges es = sdk_exchange ev \<and>
      (\<forall>x \<in> set es. allowed (cl_marker c) g ev x))"

lemma caused_no_exchange: "\<forall>x \<in> set es. caused N m g x \<Longrightarrow> exchanges es = []"
  by (induction es) (auto elim: caused.elims)

lemma simulates_moves:
  assumes "moves N g c c'" "sdk_exchange ev = []" "\<And>x. caused N (cl_marker c) g x \<Longrightarrow> allowed (cl_marker c) g ev x"
    and "fst t' = fst t"
  shows "simulates g c t ev c' t'"
proof -
  from assms(1) obtain es where "worker_run (core c) (fst t) es (core c') (fst t)"
    "\<forall>x \<in> set es. caused N (cl_marker c) g x" and f: "frame g c c'" unfolding moves_def by blast
  with caused_no_exchange [OF this(2)] assms(2-4) show ?thesis
    unfolding simulates_def by auto
qed

lemma simulates_one:
  "worker_step (core c) (fst t) x (core c') (fst t') \<Longrightarrow> frame g c c' \<Longrightarrow> exchange x = sdk_exchange ev \<Longrightarrow>
    allowed (cl_marker c) g ev x \<Longrightarrow> simulates g c t ev c' t'"
  unfolding simulates_def by (auto intro!: exI [of _ "[x]"] run_single)

lemma thread_frame:
  "cl_marker (round_wake now c) = cl_marker c" "cl_gate (round_wake now c) = cl_gate c"
  "take_ready_job now c = Some (job, c') \<Longrightarrow> cl_marker c' = cl_marker c \<and> cl_gate c' = cl_gate c"
  by (auto simp: round_wake_def Let_def case_prod_unfold take_ready_job_def)

lemma persist_fold_frame:
  "cl_marker (fold (\<lambda>(i, job). persist_job (names i) job) js c) = cl_marker c"
  "cl_gate (fold (\<lambda>(i, job). persist_job (names i) job) js c) = cl_gate c"
  by (induction js arbitrary: c) (simp_all add: persist_job_def case_prod_unfold)

lemma stop_frame: "cl_marker (worker_stop names c) = cl_marker c" "cl_gate (worker_stop names c) = cl_gate c"
  by (simp_all add: worker_stop_def persist_leftovers_def persist_fold_frame)

text \<open>What may let a heartbeat or a batch out: an open gate, or a beat that has passed the check.\<close>

definition released :: "client \<Rightarrow> threads \<Rightarrow> bool" where
  "released c t \<longleftrightarrow> gate_is_set (cl_gate c) \<or> building (snd t)"

lemma sdk_step_simulates:
  assumes "sdk_step c t ev c' t'" "released c t \<Longrightarrow> g" "opens_session ev \<Longrightarrow> g"
  shows "simulates g c t ev c' t'"
  using assms
proof (induction rule: sdk_step.induct)
  case (sdk_call c t e op)
  then show ?case
    by (intro simulates_moves [OF call_moves [where N = "{en_name e}"]]) (auto simp: opens_session_def released_def)
next
  case (sdk_beat c h b e)
  then show ?case by (intro simulates_moves [OF beat_step_moves [where N = "{}"]]) (auto simp: released_def)
next
  case (sdk_drain c b e)
  then show ?case by (intro simulates_moves [OF drain_ready_moves [where N = "{}"]]) (auto simp: released_def)
next
  case (sdk_woken c b now)
  show ?case
    by (rule simulates_one [where x = "EvWoken now"])
      (simp_all add: core_round_wake step_woken thread_frame)
next
  case (sdk_take now c job c' b)
  then show ?case
    by (intro simulates_one [where x = "EvTake job"])
      (auto simp: thread_frame dest: core_take intro: step_take)
next
  case (sdk_answer c job b e response name later ms)
  let ?hs = "client_handlers e (co_rtt_metric (cl_config c))"
  obtain es where "worker_run (core c) (Some job) (EvAnswer job response name # es)
      (core (process ?hs later name ms response job c)) None"
    and es: "\<forall>x \<in> set es. caused {} (cl_marker c) g x" "frame g c (process ?hs later name ms response job c)"
    by (rule client_worker.answered)
  moreover have "exchanges (EvAnswer job response name # es) = [(job, response)]"
    using caused_no_exchange [OF es(1)] by simp
  moreover have "\<forall>x \<in> set (EvAnswer job response name # es). allowed (cl_marker c) g (Answer e job response name) x"
    using es(1) by auto
  ultimately show ?case unfolding simulates_def sdk_exchange.simps fst_conv by blast
next
  case (sdk_done c b)
  show ?case by (rule simulates_one [where x = EvDone]) (simp_all add: step_done)
next
  case (sdk_stop c b names)
  show ?case by (rule simulates_one [where x = "EvStop names"]) (simp_all add: core_stop step_stop stop_frame)
qed

lemma released_step:
  assumes "sdk_step c t ev c' t'" "frame g c c'" "released c t \<Longrightarrow> g"
  shows "released c' t' \<Longrightarrow> g"
  using assms by (cases rule: sdk_step.cases) (auto simp: released_def dest: building_step)

lemma sdk_run_simulates:
  "sdk_run c t evs c' t' \<Longrightarrow> (released c t \<Longrightarrow> g) \<Longrightarrow> (\<forall>ev \<in> set evs. opens_session ev \<longrightarrow> g) \<Longrightarrow>
    frame g c c' \<and> (released c' t' \<longrightarrow> g) \<and>
    (\<exists>es. worker_run (core c) (fst t) es (core c') (fst t') \<and> exchanges es = sdk_exchanges evs \<and>
      (\<forall>x \<in> set es. \<exists>ev \<in> set evs. allowed (cl_marker c) g ev x))"
proof (induction rule: sdk_run.induct)
  case (sdk_Nil c t)
  then show ?case by (auto intro: run_Nil exI [of _ "[]"])
next
  case (sdk_Cons c t ev c1 t1 evs c2 t2)
  have sim: "simulates g c t ev c1 t1"
    using sdk_step_simulates [OF sdk_Cons.hyps(1)] sdk_Cons.prems by simp
  then obtain es where es: "worker_run (core c) (fst t) es (core c1) (fst t1)" "exchanges es = sdk_exchange ev"
    "\<forall>x \<in> set es. allowed (cl_marker c) g ev x" and f: "frame g c c1"
    unfolding simulates_def by blast
  note next_ok = released_step [OF sdk_Cons.hyps(1) f sdk_Cons.prems(1)]
  have later: "\<forall>ev \<in> set evs. opens_session ev \<longrightarrow> g" using sdk_Cons.prems(2) by simp
  from sdk_Cons.IH [OF next_ok later] obtain fs where fs: "frame g c1 c2" "worker_run (core c1) (fst t1) fs (core c2) (fst t2)"
    "exchanges fs = sdk_exchanges evs" "\<forall>x \<in> set fs. \<exists>ev \<in> set evs. allowed (cl_marker c1) g ev x"
    "released c2 t2 \<longrightarrow> g"
    by blast
  show ?case
    using f fs(1) run_append [OF es(1) fs(2)] es(2,3) fs(3-5) by (auto intro!: exI [of _ "es @ fs"])
qed


text \<open>The events of the SDK that write to a sidecar \<open>p\<close>: a call or an answer that drew its name.\<close>

fun sdk_touches :: "path \<Rightarrow> sdk_event \<Rightarrow> bool" where
  "sdk_touches p (Call e op) \<longleftrightarrow> last p = en_name e"
| "sdk_touches p (Answer e job response name) \<longleftrightarrow> last p = name"
| "sdk_touches p (Stop names) \<longleftrightarrow> last p \<in> range names"
| "sdk_touches p _ \<longleftrightarrow> False"

lemma allowed_touches:
  assumes "allowed m g ev x" "touches p x" "m \<noteq> Some p"
  shows "sdk_touches p ev"
proof -
  have "last p \<in> N" if "caused N m g x" for N
    using that assms(2,3) by (cases x) auto
  with assms show ?thesis by (cases ev) auto
qed

lemma sdk_run_refines:
  assumes "sdk_run c t evs c' t'"
  obtains es where "worker_run (core c) (fst t) es (core c') (fst t')" "exchanges es = sdk_exchanges evs"
    "\<And>p x. x \<in> set es \<Longrightarrow> touches p x \<Longrightarrow> cl_marker c = Some p \<or> (\<exists>ev \<in> set evs. sdk_touches p ev)"
  using sdk_run_simulates [OF assms, of True] allowed_touches by simp metis

lemma exchange_one: "(job, r) \<in> set (exchange x) \<longleftrightarrow> (\<exists>name. x = EvAnswer job r name)"
  by (cases x) auto

lemma exchange_in: "(job, r) \<in> set (exchanges es) \<longleftrightarrow> (\<exists>name. EvAnswer job r name \<in> set es)"
  by (auto simp: exchange_one simp del: exchange.simps)

lemma sdk_backed:
  assumes "sdk_run c t evs c' t'" "fs_lookup (wk_disk c) p = Some body" "off_log p (wk_session_log c)"
    and "cl_marker c \<noteq> Some p" "\<forall>ev \<in> set evs. \<not> sdk_touches p ev"
  shows "fs_lookup (wk_disk c') p = Some body \<or>
    (\<exists>job r. (job, r) \<in> set (sdk_exchanges evs) \<and> \<not> uj_is_log_upload job \<and> uj_sidecar_path job = p \<and>
       response_outcome r \<noteq> Transient)"
proof -
  obtain es where es: "worker_run (core c) (fst t) es (core c') (fst t')" "exchanges es = sdk_exchanges evs"
    and named: "\<And>p x. x \<in> set es \<Longrightarrow> touches p x \<Longrightarrow> cl_marker c = Some p \<or> (\<exists>ev \<in> set evs. sdk_touches p ev)"
    using sdk_run_refines [OF assms(1)] by blast
  have "\<forall>x \<in> set es. \<not> touches p x" using named assms(4,5) by blast
  then have "backed p body (core c') \<or> (\<exists>x \<in> set es. settles p x)"
    using backed_run [OF es(1)] assms(2,3) by (simp add: backed_def)
  moreover have "\<exists>job r name. x = EvAnswer job r name \<and> \<not> uj_is_log_upload job \<and> uj_sidecar_path job = p \<and>
      response_outcome r \<noteq> Transient" if "settles p x" for x
    using that by (cases x) auto
  ultimately show ?thesis unfolding es(2) [symmetric] exchange_in by (auto simp: backed_def)
qed

section \<open>Write-ahead\<close>

lemma flush_all_frame [simp]:
  "wk_disk (flush_all_batches e c) = wk_disk c" "wk_sidecars (flush_all_batches e c) = wk_sidecars c"
  "wk_session_log (flush_all_batches e c) = wk_session_log c"
  "cl_storage_available (flush_all_batches e c) = cl_storage_available c"
  "cl_config (flush_all_batches e c) = cl_config c" "cl_heartbeat_stop (flush_all_batches e c) = cl_heartbeat_stop c"
  "cl_consent (flush_all_batches e c) = cl_consent c"
proof -
  let ?same = "\<lambda>c' c. wk_disk c' = wk_disk c \<and> wk_sidecars c' = wk_sidecars c \<and> wk_session_log c' = wk_session_log c \<and>
    cl_storage_available c' = cl_storage_available c \<and> cl_config c' = cl_config c \<and>
    cl_heartbeat_stop c' = cl_heartbeat_stop c \<and> cl_consent c' = cl_consent c"
  have "?same (queue_envelopes e path s es c) c" for path s es c
    unfolding queue_envelopes_def by (induction es arbitrary: c) (simp_all add: enqueue_def)
  then have "?same (flush_all_batches e c) c"
    by (simp add: flush_all_batches_def flush_event_batch_def flush_metric_batch_def case_prod_unfold Let_def)
  then show "wk_disk (flush_all_batches e c) = wk_disk c" "wk_sidecars (flush_all_batches e c) = wk_sidecars c"
    "wk_session_log (flush_all_batches e c) = wk_session_log c"
    "cl_storage_available (flush_all_batches e c) = cl_storage_available c"
    "cl_config (flush_all_batches e c) = cl_config c" "cl_heartbeat_stop (flush_all_batches e c) = cl_heartbeat_stop c"
    "cl_consent (flush_all_batches e c) = cl_consent c"
    by auto
qed

lemma flush_all_marker [simp]: "cl_marker (flush_all_batches e c) = cl_marker c"
  by (simp add: flush_all_batches_def flush_event_batch_def flush_metric_batch_def case_prod_unfold Let_def)

lemma ingest_written:
  fixes e body rl prev path kind
  assumes "cl_storage_available c" "wk_sidecars c = Some pending" "count_files (wk_disk c) (kind_dir pending kind) < 64"
    and "\<forall>p. fl_writable (wk_disk c) p"
  defines "p \<equiv> kind_dir pending kind @ [en_name e]" and "c' \<equiv> enqueue_ingest e path body WriteAhead kind rl prev c"
  shows "fs_lookup (wk_disk c') p = Some body \<and> wk_session_log c' = wk_session_log c \<and>
    cl_marker c' = cl_marker c \<and> uj_body (last (wk_queue c')) = body \<and>
    uj_sidecar_path (last (wk_queue c')) = p \<and> uj_url (last (wk_queue c')) = co_endpoint (cl_config c) @ path"
proof -
  have "sidecar_write kind body (en_name e) (Some pending) (wk_disk c) = (p, fs_put p body (wk_disk c))"
    using assms(3,4) by (simp add: sidecar_write_def Let_def fs_write_def max_files_per_kind_def p_def)
  then show ?thesis
    using assms(1,2)
    by (simp add: c'_def enqueue_ingest_def Let_def write_sidecar_def enqueue_def new_job_def disk.lookup_put)
qed

lemma flush_log_keeps:
  "off_log p (wk_session_log c) \<Longrightarrow> fs_lookup (wk_disk (flush_log c)) p = fs_lookup (wk_disk c) p \<and>
    off_log p (wk_session_log (flush_log c)) \<and> wk_queue (flush_log c) = wk_queue c"
  using flush_now_lookup [of p "wk_session_log c" "wk_disk c"] flush_now_paths [of "wk_session_log c" "wk_disk c"]
  by (simp add: flush_log_def case_prod_unfold Let_def off_log_def)


lemma past_refusal: "(if b then (x, y) else z) = (OK, c') \<Longrightarrow> x \<noteq> OK \<Longrightarrow> z = (OK, c')"
  by (simp split: if_splits)

lemma crash_written:
  assumes "report_crash e sig hint trace al c = (OK, c')" "cl_storage_available c" "wk_sidecars c = Some pending"
    and "count_files (wk_disk c) (kind_dir pending Crash) < 64" "\<forall>p. fl_writable (wk_disk c) p"
    and "off_log (kind_dir pending Crash @ [en_name e]) (wk_session_log c)"
  defines "p \<equiv> kind_dir pending Crash @ [en_name e]"
  shows "\<exists>body. fs_lookup (wk_disk c') p = Some body \<and> off_log p (wk_session_log c') \<and> cl_marker c' = cl_marker c \<and>
    uj_body (last (wk_queue c')) = body \<and> uj_sidecar_path (last (wk_queue c')) = p \<and>
    uj_url (last (wk_queue c')) = co_endpoint (cl_config c) @ crashes_path"
proof -
  have final: "\<exists>body. fs_lookup (wk_disk c2) p = Some body \<and> off_log p (wk_session_log c2) \<and> cl_marker c2 = cl_marker c \<and>
      uj_body (last (wk_queue c2)) = body \<and> uj_sidecar_path (last (wk_queue c2)) = p \<and>
      uj_url (last (wk_queue c2)) = co_endpoint (cl_config c) @ crashes_path"
    if "c2 = (if w then flush_log (enqueue_ingest e crashes_path body WriteAhead Crash rl False c1)
              else enqueue_ingest e crashes_path body WriteAhead Crash rl False c1)"
      "cl_storage_available c1" "wk_sidecars c1 = Some pending" "wk_disk c1 = wk_disk c"
      "sl_paths (wk_session_log c1) = sl_paths (wk_session_log c)" "cl_marker c1 = cl_marker c" "cl_config c1 = cl_config c"
    for c1 c2 w body rl
  proof -
    have off: "off_log p (wk_session_log c1)" using assms(6) that(5) by (simp add: off_log_def p_def)
    note written = ingest_written [OF that(2,3), of Crash e crashes_path body rl False, folded p_def, unfolded that(4),
        OF assms(4,5)]
    show ?thesis
      using written flush_log_keeps [of p "enqueue_ingest e crashes_path body WriteAhead Crash rl False c1"] off that(1,6,7)
      by (cases w) auto
  qed
  note sent = assms(1) [unfolded report_crash_def Let_def case_prod_unfold, THEN past_refusal, OF result.distinct(2),
      THEN past_refusal, OF result.distinct(4)]
  show ?thesis
    by (rule final [OF sent [THEN prod.inject [THEN iffD1], THEN conjunct2, symmetric]])
      (use assms(2,3) in \<open>simp_all add: append_line_def\<close>)
qed


section \<open>Jobs in the queue\<close>

text \<open>
  A set of jobs closed under retrying and containing log uploads: when every job the events enqueue
  belongs to it, so does every job of the queue and the one in flight.
\<close>

definition only_jobs :: "(upload_job \<Rightarrow> bool) \<Rightarrow> worker \<Rightarrow> upload_job option \<Rightarrow> bool" where
  "only_jobs P w h \<longleftrightarrow> (\<forall>job \<in> set (wk_queue w). P job) \<and> (\<forall>job. h = Some job \<longrightarrow> P job)"

lemma not_gated_retry: "gated (job\<lparr>uj_attempt := a, uj_not_before := t\<rparr>) = gated job"
  by (simp add: gated_def)

lemma in_enqueue: "j \<in> set (wk_queue (enqueue job w)) \<Longrightarrow> j = job \<or> j \<in> set (wk_queue w)"
  using set_enqueue [of job w] by auto

lemma ungated_retry:
  "\<forall>j \<in> set (wk_queue w). \<not> gated j \<Longrightarrow> \<not> gated job \<Longrightarrow>
    \<forall>j \<in> set (wk_queue (retry_or_give_up now name job ra w)). \<not> gated j"
  by (auto simp: retry_or_give_up_def Let_def not_gated_retry dest!: in_enqueue)

lemma ungated_schedule:
  "\<forall>j \<in> set (wk_queue w). \<not> gated j \<Longrightarrow> \<forall>j \<in> set (wk_queue (schedule_log_upload job body w)). \<not> gated j"
  by (auto simp: schedule_log_upload_def Let_def case_prod_unfold gated_def new_job_def
      split: option.split dest!: in_enqueue)

lemma ungated_process:
  assumes "\<forall>j \<in> set (wk_queue w). \<not> gated j" "\<not> gated job"
  shows "\<forall>j \<in> set (wk_queue (process no_handlers later name ms r job w)). \<not> gated j"
proof -
  have "\<forall>j \<in> set (wk_queue (schedule_log_upload job body (remove_sidecar p w))). \<not> gated j" for body p
    by (rule ungated_schedule) (simp add: assms(1))
  with assms ungated_retry [OF assms] show ?thesis
    by (cases "response_outcome r") (simp_all add: process_def no_handlers_def handle_post_result_def Let_def)
qed

lemma ungated_step:
  "worker_step w h e w' h' \<Longrightarrow> only_jobs (\<lambda>j. \<not> gated j) w h \<Longrightarrow> \<forall>job. e = EvEnqueue job \<longrightarrow> \<not> gated job \<Longrightarrow>
    only_jobs (\<lambda>j. \<not> gated j) w' h'"
proof (induction rule: worker_step.induct)
  case (step_enqueue job w h)
  then show ?case by (auto simp: only_jobs_def dest!: in_enqueue)
next
  case (step_take now w job w')
  then show ?case by (auto simp: only_jobs_def elim!: take_ready_job_Some)
next
  case (step_answer w job r name later ms)
  then show ?case unfolding only_jobs_def by (intro conjI ungated_process) auto
qed (auto simp: only_jobs_def write_sidecar_def append_line_def flush_log_def worker_wake_def
    worker_stop_def case_prod_unfold Let_def)

lemma ungated_run:
  "worker_run w h es w' h' \<Longrightarrow> only_jobs (\<lambda>j. \<not> gated j) w h \<Longrightarrow> \<forall>job. EvEnqueue job \<in> set es \<longrightarrow> \<not> gated job \<Longrightarrow>
    only_jobs (\<lambda>j. \<not> gated j) w' h'"
proof (induction rule: worker_run.induct)
  case (run_Cons w h e w1 h1 es w2 h2)
  then have "only_jobs (\<lambda>j. \<not> gated j) w1 h1" by (intro ungated_step [OF run_Cons.hyps(1)]) auto
  then show ?case by (rule run_Cons.IH) (use run_Cons.prems in auto)
qed

section \<open>Properties\<close>

definition live_client :: client where
  "live_client = (new_client (open_store []))\<lparr>wk_sidecars := Some [''pending''], wk_running := True,
     cl_storage_available := True, cl_initialized := True\<rparr>"

lemma live_client_simps [simp]:
  "wk_queue live_client = []" "wk_disk live_client = open_store []" "wk_sidecars live_client = Some [''pending'']"
  "cl_storage_available live_client" "wk_session_log live_client = new_session_log" "cl_marker live_client = None"
  "cl_initialized live_client" "cl_consent live_client" "cl_gate live_client = new_gate"
  "cl_dedupe live_client = new_dedupe (seconds 60)" "\<not> cl_heartbeat_stop live_client"
  by (simp_all add: live_client_def new_client_def)

text \<open>C2. Every run of the SDK (calls from the game, heartbeats, acknowledgements, the worker's steps, all
  interleaved) is a run of the delivery machine that exchanges the same requests and answers with
  the server, and writes to a sidecar only under a name that a call or an answer drew.\<close>

theorem sdk_refines_delivery:
  assumes "sdk_run c t evs c' t'"
  shows "\<exists>es. worker_run (core c) (fst t) es (core c') (fst t') \<and> exchanges es = sdk_exchanges evs \<and>
    (\<forall>p. cl_marker c \<noteq> Some p \<longrightarrow> (\<forall>ev \<in> set evs. \<not> sdk_touches p ev) \<longrightarrow> (\<forall>x \<in> set es. \<not> touches p x))"
  by (rule sdk_run_refines [OF assms]) blast

theorem sdk_refines_delivery_witness:
  "\<exists>es. worker_run (core live_client) None es (core (heartbeat_pass now_env live_client)) None \<and> exchanges es = []"
proof -
  obtain evs where run: "sdk_run live_client (None, Loop_Top) evs (heartbeat_pass now_env live_client) (None, Loop_Top)"
    and beats: "\<forall>ev \<in> set evs. \<exists>b. ev = Beat now_env b"
    by (rule pass_run [of live_client None now_env]) simp
  from beats have "sdk_exchanges evs = []" by (induction evs) auto
  with sdk_refines_delivery [OF run] show ?thesis by auto
qed

text \<open>C1. A reported crash is never lost: when \<open>report_crash\<close> returns OK on usable storage, the report is
  on disk before the call returns, under the path of the job that was queued last, and it stays
  there, byte for byte, through every later call, heartbeat, failure, retry and stop, until the
  server has accepted or finally rejected a job with that very sidecar.\<close>

theorem crash_kept_until_answered:
  assumes "report_crash e sig hint trace al c = (OK, c1)" "cl_storage_available c" "wk_sidecars c = Some pending"
    and "count_files (wk_disk c) (kind_dir pending Crash) < 64" "\<forall>p. fl_writable (wk_disk c) p"
    and "off_log (kind_dir pending Crash @ [en_name e]) (wk_session_log c)"
    and "cl_marker c \<noteq> Some (kind_dir pending Crash @ [en_name e])"
    and "sdk_run c1 t evs c' t'" "\<forall>ev \<in> set evs. \<not> sdk_touches (kind_dir pending Crash @ [en_name e]) ev"
  shows "uj_sidecar_path (last (wk_queue c1)) = kind_dir pending Crash @ [en_name e] \<and>
    uj_url (last (wk_queue c1)) = co_endpoint (cl_config c) @ crashes_path \<and>
    fs_lookup (wk_disk c1) (kind_dir pending Crash @ [en_name e]) = Some (uj_body (last (wk_queue c1))) \<and>
    (fs_lookup (wk_disk c') (kind_dir pending Crash @ [en_name e]) = Some (uj_body (last (wk_queue c1))) \<or>
     (\<exists>job r. (job, r) \<in> set (sdk_exchanges evs) \<and> \<not> uj_is_log_upload job \<and>
        uj_sidecar_path job = kind_dir pending Crash @ [en_name e] \<and> response_outcome r \<noteq> Transient))"
proof -
  from crash_written [OF assms(1-6)] obtain body where
    "fs_lookup (wk_disk c1) (kind_dir pending Crash @ [en_name e]) = Some body"
    "off_log (kind_dir pending Crash @ [en_name e]) (wk_session_log c1)" "cl_marker c1 = cl_marker c"
    "uj_body (last (wk_queue c1)) = body" "uj_sidecar_path (last (wk_queue c1)) = kind_dir pending Crash @ [en_name e]"
    "uj_url (last (wk_queue c1)) = co_endpoint (cl_config c) @ crashes_path" by blast
  with sdk_backed [OF assms(8) this(1,2) _ assms(9)] assms(7) show ?thesis by simp
qed

theorem crash_kept_until_answered_witness:
  "let c1 = snd (report_crash now_env None None None False live_client)
   in fs_lookup (wk_disk (snd (beat_steps now_env 10 (Loop_Top, c1)))) [''pending'', ''crashes'', ''n''] =
        Some (uj_body (last (wk_queue c1)))"
proof -
  let ?c1 = "snd (report_crash now_env None None None False live_client)"
  have ok: "report_crash now_env None None None False live_client = (OK, ?c1)"
    by (simp add: report_crash_def capture_allowed_def dedupe_check_def new_dedupe_def Let_def case_prod_unfold)
  obtain evs t where run: "sdk_run ?c1 (None, Loop_Top) evs (snd (beat_steps now_env 10 (Loop_Top, ?c1))) t"
    and beats: "\<forall>ev \<in> set evs. \<exists>b. ev = Beat now_env b"
    using sections_run [of ?c1 None Loop_Top now_env 10] by blast
  from beats have "sdk_exchanges evs = []" by (induction evs) auto
  moreover have "\<forall>ev \<in> set evs. \<not> sdk_touches ([''pending'', ''crashes''] @ [en_name now_env]) ev"
    using beats by auto
  ultimately show ?thesis
    using crash_kept_until_answered [OF ok _ _ _ _ _ _ run, of "[''pending'']"]
    by (simp add: count_files_def fs_list_def open_store_def off_log_def new_session_log_def kind_dir_def now_env_def
        del: beat_steps_numeral)
qed

text \<open>C17. No job is sent without bound. Whatever the game, the timers and the server do, the queue never
  exceeds 256 jobs, attempt numbers stay from 0 to 4, and however the run is explained as one of the
  delivery machine (which it can be, with no more new jobs than its calls, beats, drains and answers caused)
  the answers to jobs of any kind \<open>P\<close> are at most five for each such job that waited or was in
  hand at the start or was newly enqueued; log uploads are enqueued by the answers that ask for
  a log. \<open>P\<close> sees all of a job but its attempt number and its time, so it can pick out a single one.\<close>

theorem sdk_bounded:
  assumes "sdk_run c t evs c' t'" "thread_ok (core c) (fst t)"
  shows "length (wk_queue c') \<le> 256 \<and> (\<forall>job \<in> set (wk_queue c'). 0 \<le> uj_attempt job \<and> uj_attempt job \<le> 4) \<and>
    (\<forall>job r. (job, r) \<in> set (sdk_exchanges evs) \<longrightarrow> 0 \<le> uj_attempt job \<and> uj_attempt job \<le> 4) \<and>
    (\<exists>es. worker_run (core c) (fst t) es (core c') (fst t') \<and> exchanges es = sdk_exchanges evs \<and>
       (\<forall>x \<in> set es. \<exists>ev \<in> set evs. allowed (cl_marker c) True ev x)) \<and>
    (\<forall>es P. worker_run (core c) (fst t) es (core c') (fst t') \<longrightarrow> exchanges es = sdk_exchanges evs \<longrightarrow>
       times_sent P (sdk_exchanges evs) \<le> 5 * (waiting P (core c) (fst t) + times_enqueued P es +
         (if \<exists>job. P job \<and> uj_is_log_upload job then logs_asked (sdk_exchanges evs) else 0)))"
proof -
  have run: "\<exists>es. worker_run (core c) (fst t) es (core c') (fst t') \<and> exchanges es = sdk_exchanges evs \<and>
      (\<forall>x \<in> set es. \<exists>ev \<in> set evs. allowed (cl_marker c) True ev x)"
    using sdk_run_simulates [OF assms(1), of True] by simp
  then obtain es where es: "worker_run (core c) (fst t) es (core c') (fst t')" "exchanges es = sdk_exchanges evs"
    by blast
  have sends: "times_sent P (sdk_exchanges evs) \<le> 5 * (waiting P (core c) (fst t) + times_enqueued P fs +
      (if \<exists>job. P job \<and> uj_is_log_upload job then logs_asked (sdk_exchanges evs) else 0))"
    if "worker_run (core c) (fst t) fs (core c') (fst t')" "exchanges fs = sdk_exchanges evs" for fs P
    using run_sends [OF that(1) assms(2), of P] unfolding that(2) by linarith
  from delivery_run_bounded [OF es(1) assms(2)] have
    "length (wk_queue c') \<le> 256" "\<forall>job \<in> set (wk_queue c'). 0 \<le> uj_attempt job \<and> uj_attempt job \<le> 4"
    "\<forall>job r. (job, r) \<in> set (sdk_exchanges evs) \<longrightarrow> 0 \<le> uj_attempt job \<and> uj_attempt job \<le> 4"
    unfolding es(2) [symmetric] exchange_in by auto
  moreover have "\<forall>es P. worker_run (core c) (fst t) es (core c') (fst t') \<longrightarrow> exchanges es = sdk_exchanges evs \<longrightarrow>
      times_sent P (sdk_exchanges evs) \<le> 5 * (waiting P (core c) (fst t) + times_enqueued P es +
        (if \<exists>job. P job \<and> uj_is_log_upload job then logs_asked (sdk_exchanges evs) else 0))"
    by (intro allI impI sends)
  ultimately show ?thesis using run by (intro conjI)
qed

text \<open>A job that waited is taken and answered once: its sends are bounded by the one copy of it that there was.\<close>

theorem sdk_bounded_witness:
  "\<exists>c' es. sdk_run (live_client\<lparr>wk_queue := [new_job]\<rparr>) (None, Loop_Top)
       [Take new_job, Answer now_env new_job \<lparr>hr_transport_error = True, hr_status = 0, hr_body = [], hr_retry_after = []\<rparr> ''n'']
       c' (None, Loop_Top) \<and>
     length (wk_queue c') \<le> 256 \<and>
     exchanges es = [(new_job, \<lparr>hr_transport_error = True, hr_status = 0, hr_body = [], hr_retry_after = []\<rparr>)] \<and>
     times_sent (\<lambda>job. job = new_job) (exchanges es) \<le> 5 * (1 + times_enqueued (\<lambda>job. job = new_job) es)"
proof -
  let ?c = "live_client\<lparr>wk_queue := [new_job]\<rparr>" and ?r = "\<lparr>hr_transport_error = True, hr_status = 0, hr_body = [], hr_retry_after = []\<rparr>"
  let ?evs = "[Take new_job, Answer now_env new_job ?r ''n'']"
  have "take_ready_job 0 ?c = Some (new_job, ?c\<lparr>wk_queue := []\<rparr>)" by (simp add: take_ready_job_def new_job_def)
  note taken = sdk_take [OF this, of Loop_Top]
  obtain c' where run: "sdk_run ?c (None, Loop_Top) ?evs c' (None, Loop_Top)"
    using sdk_Cons [OF taken sdk_Cons [OF sdk_answer sdk_Nil]] by blast
  have ok: "thread_ok (core ?c) (fst (None, Loop_Top))"
    by (simp add: thread_ok_def delivery_ok_def queue_ok_def max_queue_size_def new_job_def)
  have job: "job_id new_job = new_job" "\<not> uj_is_log_upload new_job" by (simp_all add: job_id_def new_job_def)
  note bound = sdk_bounded [OF run ok]
  then obtain es where es: "worker_run (core ?c) (fst (None, Loop_Top)) es (core c') (fst (None, Loop_Top))"
    "exchanges es = sdk_exchanges ?evs" by blast
  from bound [THEN conjunct2, THEN conjunct2, THEN conjunct2, THEN conjunct2, rule_format, OF this, of "\<lambda>job. job = new_job"] job(2)
  have "times_sent (\<lambda>job. job = new_job) (sdk_exchanges ?evs) \<le>
      5 * (waiting (\<lambda>job. job = new_job) (core ?c) None + times_enqueued (\<lambda>job. job = new_job) es)" by simp
  moreover have "waiting (\<lambda>job. job = new_job) (core ?c) None = 1" using job(1) by (simp add: waiting_def)
  ultimately have "times_sent (\<lambda>job. job = new_job) (exchanges es) \<le> 5 * (1 + times_enqueued (\<lambda>job. job = new_job) es)"
    unfolding es(2) by simp
  moreover have "exchanges es = [(new_job, ?r)]" using es(2) by simp
  moreover have "length (wk_queue c') \<le> 256" using bound by (rule conjunct1)
  ultimately show ?thesis using run by blast
qed

text \<open>C6. The session gate holds: from a client with a closed gate, no beat under way and no heartbeat or
  batch envelope waiting, no run without a \<open>start_session\<close> call builds, queues or sends one, and the
  gate stays closed.\<close>

theorem gate_holds:
  assumes "sdk_run c t evs c' t'" "\<not> gate_is_set (cl_gate c)" "\<not> building (snd t)" "\<forall>e. Call e Op_Start_Session \<notin> set evs"
    and "\<forall>job \<in> set (wk_queue c). \<not> gated job" "\<forall>job. fst t = Some job \<longrightarrow> \<not> gated job"
  shows "\<not> gate_is_set (cl_gate c') \<and> \<not> building (snd t') \<and> (\<forall>job \<in> set (wk_queue c'). \<not> gated job) \<and>
    (\<forall>job. fst t' = Some job \<longrightarrow> \<not> gated job)"
proof -
  have calls: "\<forall>ev \<in> set evs. opens_session ev \<longrightarrow> False"
    using assms(4) by (auto simp: opens_session_def)
  have closed: "\<not> released c t" using assms(2,3) by (simp add: released_def)
  obtain es where gate: "\<not> released c' t'" and es: "worker_run (core c) (fst t) es (core c') (fst t')"
    and all: "\<forall>x \<in> set es. \<exists>ev \<in> set evs. allowed (cl_marker c) False ev x"
    using sdk_run_simulates [OF assms(1) _ calls] closed by auto
  have "\<not> gated job" if "allowed m False ev (EvEnqueue job)" for m ev job
    using that by (cases ev) auto
  with all have "\<forall>job. EvEnqueue job \<in> set es \<longrightarrow> \<not> gated job" by blast
  from ungated_run [OF es _ this] gate assms(5,6) show ?thesis by (simp add: only_jobs_def released_def)
qed

theorem gate_holds_witness:
  "filter gated (wk_queue (heartbeat_pass now_env (live_client\<lparr>cl_gate := gate_arm False new_gate\<rparr>))) = []"
proof -
  let ?c = "live_client\<lparr>cl_gate := gate_arm False new_gate\<rparr>"
  obtain evs where run: "sdk_run ?c (None, Loop_Top) evs (heartbeat_pass now_env ?c) (None, Loop_Top)"
    and "\<forall>ev \<in> set evs. \<exists>b. ev = Beat now_env b"
    by (rule pass_run [of ?c None now_env]) simp
  then have "\<forall>e. Call e Op_Start_Session \<notin> set evs" by auto
  from gate_holds [OF run _ _ this] show ?thesis
    by (simp add: gate_arm_def new_gate_def gate_is_set_def filter_empty_conv)
qed

end
