(* ===== verification/Sdk_Session.thy ===== *)
theory Sdk_Session
  imports Sdk_Run
begin

text \<open>
  Sessions: consent, the recovery of a session that died, and the identity that survives restarts.
\<close>

section \<open>Consent\<close>

fun capture_op :: "client_op \<Rightarrow> bool" where
  "capture_op (Op_Breadcrumb lvl msg) \<longleftrightarrow> True"
| "capture_op (Op_Log lvl line) \<longleftrightarrow> True"
| "capture_op (Op_Event name keys vals n) \<longleftrightarrow> True"
| "capture_op (Op_Metric name v unit) \<longleftrightarrow> True"
| "capture_op (Op_Crash sig hint trace al) \<longleftrightarrow> True"
| "capture_op (Op_Bug category msg al) \<longleftrightarrow> True"
| "capture_op (Op_Level lvl) \<longleftrightarrow> True"
| "capture_op (Op_Frame ms) \<longleftrightarrow> True"
| "capture_op _ \<longleftrightarrow> False"

lemma no_capture:
  assumes "\<not> capture_allowed c" "capture_op op"
  shows "snd (client_call e op c) = c \<and> fst (client_call e op c) \<in> {OK, Disabled, Invalid_Argument}"
  using assms
  by (cases op) (auto simp: add_breadcrumb_def log_line_def track_event_def track_metric_def report_crash_def
      report_bug_def set_level_def report_frame_def)

definition calls :: "(env \<times> client_op) list \<Rightarrow> client \<Rightarrow> client" where
  "calls xs c = fold (\<lambda>(e, op) c. snd (client_call e op c)) xs c"

text \<open>C7. Consent gates capture: after consent is withdrawn the trail of breadcrumbs is gone, and any
  number of capture calls (or further denials) leaves the client exactly as it is; a heartbeat and
  the answer to one queue nothing, and no round-trip metric is recorded.\<close>

theorem consent_gates_capture:
  fixes c :: client and e0 e :: env
  assumes "cl_consent c" "\<forall>(e, op) \<in> set xs. capture_op op \<or> op = Op_Consent False"
  defines "c0 \<equiv> snd (set_consent e0 False c)"
  shows "calls xs c0 = c0 \<and> ring_snapshot (cl_breadcrumbs c0) = [] \<and> wk_queue c0 = wk_queue c \<and>
    wk_queue (heartbeat_pass e c0) = wk_queue c \<and> wk_queue (handle_heartbeat_ack body c0) = wk_queue c \<and>
    record_rtt_metric e ms c0 = c0"
proof -
  have c0: "c0 = c\<lparr>cl_consent := False, cl_breadcrumbs := ring_clear (cl_breadcrumbs c)\<rparr>"
    using assms(1) by (simp add: c0_def set_consent_def)
  then have off: "\<not> capture_allowed c0" by (simp add: capture_allowed_def)
  have again: "snd (set_consent e False c0) = c0" for e by (simp add: c0 set_consent_def)
  have "calls xs c0 = c0"
    using assms(2)
  proof (induction xs)
    case (Cons x xs)
    obtain e op where x: "x = (e, op)" by force
    have "snd (client_call e op c0) = c0"
      using Cons.prems no_capture [OF off] again by (auto simp: x)
    with Cons show ?case by (simp add: calls_def x)
  qed (simp add: calls_def)
  moreover have "wk_queue (heartbeat_pass e c0) = wk_queue c" using off by (simp add: heartbeat_pass_def c0)
  moreover have "wk_queue (handle_heartbeat_ack body c0) = wk_queue c"
    by (simp add: handle_heartbeat_ack_def Let_def capture_allowed_def c0)
  moreover have "record_rtt_metric e ms c0 = c0"
    using off by (simp add: record_rtt_metric_def track_metric_def)
  ultimately show ?thesis by (simp add: c0)
qed

theorem consent_gates_capture_witness:
  "calls [(now_env, Op_Crash None None None False), (now_env, Op_Consent False)] (snd (set_consent now_env False live_client)) =
     snd (set_consent now_env False live_client)"
proof -
  have "cl_consent live_client" "\<forall>(e, op) \<in> set [(now_env, Op_Crash None None None False), (now_env, Op_Consent False)].
      capture_op op \<or> op = Op_Consent False" by simp_all
  from consent_gates_capture [OF this] show ?thesis by blast
qed

text \<open>Only a granting call turns the consent on; sections, rounds and answers leave it.\<close>

lemma consent_frame [simp]:
  "cl_consent (enqueue job c) = cl_consent c" "cl_consent (flush_log c) = cl_consent c"
  "cl_consent (fold (\<lambda>x. enqueue (f x)) xs c) = cl_consent c"
  "cl_consent (drain_ready_batches e c) = cl_consent c" "cl_consent (snd (beat_step e b c)) = cl_consent c"
  "cl_consent (handle_heartbeat_ack body c) = cl_consent c" "cl_consent (round_wake now c) = cl_consent c"
  "cl_consent (worker_stop names c) = cl_consent c"
proof -
  show enq: "cl_consent (enqueue job c) = cl_consent c" for job c by (simp add: enqueue_def)
  show many: "cl_consent (fold (\<lambda>x. enqueue (f x)) xs c) = cl_consent c" for f :: "'x \<Rightarrow> upload_job" and xs c
    by (induction xs arbitrary: c) (simp_all add: enq)
  show "cl_consent (flush_log c) = cl_consent c" by (simp add: flush_log_def case_prod_unfold Let_def)
  have "cl_consent (queue_envelopes e path s envelopes c) = cl_consent c" for path s envelopes c
    unfolding queue_envelopes_def by (induction envelopes arbitrary: c) (simp_all add: enq)
  then show "cl_consent (drain_ready_batches e c) = cl_consent c"
    by (simp add: drain_ready_batches_def flush_event_batch_def flush_metric_batch_def case_prod_unfold Let_def)
  have "cl_consent (snd (run_section e sec p k c)) = cl_consent c" for sec p k
    by (cases sec) (simp_all add: Let_def case_prod_unfold enq)
  then show "cl_consent (snd (beat_step e b c)) = cl_consent c" by (cases b) simp_all
  show "cl_consent (handle_heartbeat_ack body c) = cl_consent c"
    by (simp add: handle_heartbeat_ack_def Let_def many)
  show "cl_consent (round_wake now c) = cl_consent c" by (simp add: round_wake_def Let_def case_prod_unfold)
  have persisted: "cl_consent (fold (\<lambda>(i, job). persist_job (names i) job) js c) = cl_consent c" for js c
    by (induction js arbitrary: c) (simp_all add: persist_job_def case_prod_unfold)
  show "cl_consent (worker_stop names c) = cl_consent c"
    by (simp add: worker_stop_def persist_leftovers_def persisted)
qed

lemma denied_metric: "\<not> cl_consent c \<Longrightarrow> record_rtt_metric e ms c = c"
  by (simp add: record_rtt_metric_def track_metric_def capture_allowed_def)

lemma denied_process:
  "\<not> cl_consent c \<Longrightarrow> \<not> cl_consent (process (client_handlers e rtt) later name ms r job c)"
proof -
  assume off: "\<not> cl_consent c"
  have steps: "cl_consent (remove_sidecar p v) = cl_consent v" "cl_consent (schedule_log_upload job body v) = cl_consent v"
    "cl_consent (retry_or_give_up later name job ra v) = cl_consent v" for p body ra and v :: client
    by (simp_all add: remove_sidecar_def schedule_log_upload_def retry_or_give_up_def persist_job_def Let_def
        case_prod_unfold split: option.split)
  have "cl_consent (handle_post_result (client_handlers e rtt) later name job r c) = cl_consent c" for rtt
    by (cases "response_outcome r") (simp_all add: handle_post_result_def client_handlers_def Let_def steps)
  moreover have "hd_rtt (client_handlers e rtt) = (if rtt then Some (record_rtt_metric e) else None)"
    by (simp add: client_handlers_def)
  ultimately show ?thesis using off steps by (simp add: process_def Let_def denied_metric)
qed

lemma denied_call:
  assumes "\<not> cl_consent c" "op \<noteq> Op_Consent True"
  shows "\<not> cl_consent (snd (client_call e op c))"
proof (cases "capture_op op")
  case True
  with no_capture [of c op e] assms(1) show ?thesis by (simp add: capture_allowed_def)
next
  case False
  with assms show ?thesis
    by (cases op) (auto simp: request_player_logs_def client_set_user_def client_set_user_metadata_def set_environment_def
        set_server_info_def mark_dedicated_server_def set_match_context_def start_match_def end_match_def set_device_def
        set_consent_def start_session_def flush_begin_def destroy_begin_def destroy_end_def set_sample_rate_def
        worker_wake_def case_prod_unfold Let_def)
qed

text \<open>The section of a beat that queues it.\<close>

fun queues_beat :: "sdk_event \<Rightarrow> bool" where
  "queues_beat (Beat e b) \<longleftrightarrow> (\<exists>p carrying. b = Building Queue_Beat p carrying)"
| "queues_beat _ \<longleftrightarrow> False"

definition beats_due :: "threads \<Rightarrow> nat" where
  "beats_due t = (if building (snd t) then 1 else 0)"

lemma denied_step:
  assumes "sdk_step c t ev c' t'" "\<not> cl_consent c" "\<forall>e. ev \<noteq> Call e (Op_Consent True)"
  shows "\<not> cl_consent c' \<and> (if queues_beat ev then 1 else 0) + beats_due t' \<le> beats_due t"
  using assms
proof (induction rule: sdk_step.induct)
  case (sdk_call c t e op)
  then show ?case using denied_call [of c op e] by auto
next
  case (sdk_beat c h b e)
  have "(if queues_beat (Beat e b) then 1 else 0) + beats_due (h, fst (beat_step e b c)) \<le> beats_due (h, b)"
  proof (cases b)
    case (Building sec p k)
    then show ?thesis by (cases sec) (simp_all add: beats_due_def Let_def case_prod_unfold)
  qed (use sdk_beat.prems(1) in \<open>simp_all add: beats_due_def capture_allowed_def\<close>)
  with sdk_beat.prems(1) show ?case by simp
next
  case (sdk_take now c job c' b)
  then show ?case by (auto simp: beats_due_def take_ready_job_def)
next
  case (sdk_answer c job b e response name later ms)
  then show ?case using denied_process [of c e] by (simp add: beats_due_def)
qed (simp_all add: beats_due_def)

lemma denied_run:
  "sdk_run c t evs c' t' \<Longrightarrow> \<not> cl_consent c \<Longrightarrow> \<forall>e. Call e (Op_Consent True) \<notin> set evs \<Longrightarrow>
    \<not> cl_consent c' \<and> length (filter queues_beat evs) + beats_due t' \<le> beats_due t"
proof (induction rule: sdk_run.induct)
  case (sdk_Cons c t ev c1 t1 evs c2 t2)
  then have "\<not> cl_consent c1 \<and> (if queues_beat ev then 1 else 0) + beats_due t1 \<le> beats_due t"
    by (intro denied_step) auto
  with sdk_Cons.IH sdk_Cons.prems show ?case by (auto split: if_splits)
qed simp

text \<open>C8. A denial stops the heartbeats for good: in any interleaving of calls, threads and answers in which
  consent is not granted again it stays denied, no further beat is begun, and at most the one beat
  whose check had passed before the denial is still queued.\<close>

theorem denial_stops_beats:
  assumes "sdk_run c t evs c' t'" "\<not> cl_consent c" "\<forall>e. Call e (Op_Consent True) \<notin> set evs"
  shows "\<not> cl_consent c' \<and> length (filter queues_beat evs) \<le> (if building (snd t) then 1 else 0) \<and>
    (building (snd t') \<longrightarrow> building (snd t) \<and> filter queues_beat evs = [])"
  using denied_run [OF assms] by (auto simp: beats_due_def split: if_splits)

theorem denial_stops_beats_witness:
  "\<not> cl_consent (snd (beat_step now_env Loop_Top (first_player\<lparr>cl_consent := False\<rparr>))) \<and>
   \<not> building (fst (beat_step now_env Loop_Top (first_player\<lparr>cl_consent := False\<rparr>)))"
proof -
  let ?c = "first_player\<lparr>cl_consent := False\<rparr>"
  have "sdk_run ?c (None, Loop_Top) [Beat now_env Loop_Top] (snd (beat_step now_env Loop_Top ?c))
      (None, fst (beat_step now_env Loop_Top ?c))"
    by (intro sdk_Cons [OF sdk_beat] sdk_Nil)
  from denial_stops_beats [OF this] show ?thesis by auto
qed

lemma enqueue_consent:
  "enqueue j (c\<lparr>cl_consent := b, cl_breadcrumbs := r, cl_last_flush_ns := n\<rparr>) =
    (enqueue j (c\<lparr>cl_last_flush_ns := n\<rparr>))\<lparr>cl_consent := b, cl_breadcrumbs := r\<rparr>"
  by (simp add: enqueue_def)

lemma queue_envelopes_consent:
  "queue_envelopes e path s envelopes (c\<lparr>cl_consent := b, cl_breadcrumbs := r\<rparr>) =
    (queue_envelopes e path s envelopes c)\<lparr>cl_consent := b, cl_breadcrumbs := r\<rparr>"
  unfolding queue_envelopes_def by (induction envelopes arbitrary: c) (simp_all add: enqueue_consent)

lemma drain_consent:
  "wk_queue (drain_ready_batches e (c\<lparr>cl_consent := b, cl_breadcrumbs := r\<rparr>)) = wk_queue (drain_ready_batches e c)"
proof -
  have swap: "c\<lparr>cl_consent := b, cl_breadcrumbs := r, cl_event_batch := x\<rparr> = c\<lparr>cl_event_batch := x, cl_consent := b, cl_breadcrumbs := r\<rparr>"
    "c\<lparr>cl_consent := b, cl_breadcrumbs := r, cl_metric_batch := x\<rparr> = c\<lparr>cl_metric_batch := x, cl_consent := b, cl_breadcrumbs := r\<rparr>"
    for c x by simp_all
  have "flush_event_batch e False (c\<lparr>cl_consent := b, cl_breadcrumbs := r\<rparr>) =
      (flush_event_batch e False c)\<lparr>cl_consent := b, cl_breadcrumbs := r\<rparr>" for c
    by (simp add: flush_event_batch_def Let_def case_prod_unfold swap queue_envelopes_consent)
  moreover have "flush_metric_batch e False (c\<lparr>cl_consent := b, cl_breadcrumbs := r\<rparr>) =
      (flush_metric_batch e False c)\<lparr>cl_consent := b, cl_breadcrumbs := r\<rparr>" for c
    by (simp add: flush_metric_batch_def Let_def case_prod_unfold swap queue_envelopes_consent)
  ultimately show ?thesis by (simp add: drain_ready_batches_def)
qed

lemma restore_consent:
  "fold restore_sidecar rs (c\<lparr>cl_consent := b\<rparr>) = (fold restore_sidecar rs c)\<lparr>cl_consent := b\<rparr>"
proof (induction rs arbitrary: c)
  case (Cons r rs)
  have "restore_sidecar r (c\<lparr>cl_consent := b\<rparr>) = (restore_sidecar r c)\<lparr>cl_consent := b\<rparr>"
    by (simp add: restore_sidecar_def enqueue_def Let_def)
  with Cons show ?case by simp
qed simp

text \<open>Withdrawing consent stops capture, not delivery: the queue, the batches that are drained into it
  and the payloads restored from disk at a start are the same with consent off as with consent on,
  and a log pull can still be requested.\<close>

theorem consent_off_still_sends:
  "wk_queue (snd (set_consent e0 False c)) = wk_queue c \<and>
   wk_queue (drain_ready_batches e (snd (set_consent e0 False c))) = wk_queue (drain_ready_batches e c) \<and>
   wk_queue (drain_sidecars (c\<lparr>cl_consent := False\<rparr>)) = wk_queue (drain_sidecars c) \<and>
   wk_queue (snd (request_player_logs tt tv reason (c\<lparr>cl_consent := False\<rparr>))) =
     wk_queue (snd (request_player_logs tt tv reason c))"
proof -
  have off: "\<exists>r. snd (set_consent e0 False c) = c\<lparr>cl_consent := False, cl_breadcrumbs := r\<rparr>"
    by (cases "cl_consent c") (auto simp: set_consent_def Let_def intro: exI [of _ "cl_breadcrumbs c"])
  then obtain r where "snd (set_consent e0 False c) = c\<lparr>cl_consent := False, cl_breadcrumbs := r\<rparr>" by blast
  then show ?thesis
    by (simp add: drain_consent drain_sidecars_def restore_consent request_player_logs_def enqueue_def)
qed

section \<open>One report per dead session\<close>

definition due_report :: "client \<Rightarrow> bool" where
  "due_report c \<longleftrightarrow> \<not> cl_tracking_started c \<and> co_unclean_detection (cl_config c) \<and> cl_storage_available c \<and>
    cl_previous_marker c \<noteq> None \<and> \<not> cl_restored_crash c"

lemma ingest_queue: "wk_queue (enqueue_ingest e path body dur kind rl prev c) \<noteq> []"
  by (simp add: enqueue_ingest_def Let_def case_prod_unfold enqueue_def)

lemma ingest_length:
  "length (wk_queue c) < 256 \<Longrightarrow>
    length (wk_queue (enqueue_ingest e path body dur kind rl prev c)) = Suc (length (wk_queue c))"
  by (simp add: enqueue_ingest_def Let_def case_prod_unfold enqueue_def write_sidecar_def max_queue_size_def)

lemma unclean_length:
  "length (wk_queue c) < 256 \<Longrightarrow> length (wk_queue (report_unclean_shutdown e previous c)) =
    (if cl_restored_crash c then length (wk_queue c) else Suc (length (wk_queue c)))"
  by (simp add: report_unclean_shutdown_def report_native_crash_def ingest_length Let_def split: option.split)

lemma unclean_frame [simp]:
  "cl_tracking_started (report_unclean_shutdown e previous c) = cl_tracking_started c"
  "cl_initialized (report_unclean_shutdown e previous c) = cl_initialized c"
  by (simp_all add: report_unclean_shutdown_def report_native_crash_def enqueue_ingest_def enqueue_def
      write_sidecar_def Let_def case_prod_unfold split: option.split)

lemma tracking_length:
  "length (wk_queue c) < 256 \<Longrightarrow>
    length (wk_queue (start_session_tracking e c)) = length (wk_queue c) + (if due_report c then 1 else 0)"
  by (auto simp: start_session_tracking_def due_report_def Let_def unclean_length split: option.split)

lemma tracking_done: "\<not> due_report (start_session_tracking e c)"
  by (auto simp: start_session_tracking_def due_report_def Let_def split: option.split)

lemma tracking_init [simp]: "cl_initialized (start_session_tracking e c) = cl_initialized c"
  by (auto simp: start_session_tracking_def Let_def split: option.split)

lemma not_due_stays: "\<not> due_report c \<Longrightarrow> wk_queue (start_session_tracking e c) = wk_queue c"
  by (auto simp: start_session_tracking_def due_report_def Let_def report_unclean_shutdown_def split: option.split)

lemma due_consent [simp]: "due_report (c\<lparr>cl_consent := b\<rparr>) = due_report c"
  "due_report (c\<lparr>cl_breadcrumbs := r\<rparr>) = due_report c"
  by (simp_all add: due_report_def)

definition consents :: "(env \<times> bool) list \<Rightarrow> client \<Rightarrow> client" where
  "consents xs c = fold (\<lambda>(e, granted) c. snd (set_consent e granted c)) xs c"

lemma consent_step:
  fixes c :: client and e :: env and granted :: bool
  assumes "cl_initialized c"
  defines "c' \<equiv> snd (set_consent e granted c)"
  shows "cl_initialized c' \<and> due_report c' = (due_report c \<and> \<not> granted) \<and>
    (\<not> granted \<or> \<not> due_report c \<longrightarrow> wk_queue c' = wk_queue c) \<and>
    (length (wk_queue c) < 256 \<longrightarrow>
      length (wk_queue c') = length (wk_queue c) + (if granted \<and> due_report c then 1 else 0))"
  using assms(1) tracking_done [of e "c\<lparr>cl_consent := True\<rparr>"] tracking_length [of "c\<lparr>cl_consent := True\<rparr>" e]
    not_due_stays [of "c\<lparr>cl_consent := True\<rparr>" e]
  by (cases granted) (auto simp: c'_def set_consent_def Let_def)

lemma consents_settled:
  "cl_initialized c \<Longrightarrow> \<not> due_report c \<Longrightarrow> wk_queue (consents xs c) = wk_queue c"
proof (induction xs arbitrary: c)
  case (Cons x xs)
  obtain e g where x: "x = (e, g)" by force
  from consent_step [OF Cons.prems(1), of e g] Cons.prems(2) Cons.IH [of "snd (set_consent e g c)"] show ?case
    by (simp add: consents_def x)
qed (simp add: consents_def)

text \<open>C5. A session that died is reported exactly once: however often consent is granted and withdrawn,
  the first grant queues one report if a previous marker was found, detection and storage are on,
  and no crash report of that session was restored from disk; nothing else ever queues one.\<close>

theorem unclean_reported_once:
  assumes "cl_initialized c" "length (wk_queue c) < 256"
  shows "length (wk_queue (consents xs c)) =
    length (wk_queue c) + (if due_report c \<and> True \<in> snd ` set xs then 1 else 0)"
  using assms
proof (induction xs arbitrary: c)
  case (Cons x xs)
  obtain e g where x: "x = (e, g)" by force
  let ?c = "snd (set_consent e g c)"
  have step: "consents ((e, g) # xs) c = consents xs ?c" by (simp add: consents_def)
  note one = consent_step [OF Cons.prems(1), of e g]
  show ?case
  proof (cases "g \<and> due_report c")
    case True
    with one Cons.prems(2) consents_settled [of ?c xs] show ?thesis unfolding x step by simp
  next
    case False
    with one Cons.prems(2) Cons.IH [of ?c] show ?thesis unfolding x step by auto
  qed
qed (simp add: consents_def)

theorem unclean_reported_once_witness:
  "length (wk_queue (consents [(now_env, True), (now_env, False), (now_env, True)]
     (live_client\<lparr>cl_previous_marker := Some \<lparr>md_session_id = ''s'', md_started_at_iso = [], md_build_version = [],
        md_os = [], md_arch = []\<rparr>\<rparr>))) = 1"
proof -
  let ?c = "live_client\<lparr>cl_previous_marker := Some \<lparr>md_session_id = ''s'', md_started_at_iso = [], md_build_version = [],
        md_os = [], md_arch = []\<rparr>\<rparr>"
  have "cl_initialized ?c" "length (wk_queue ?c) < 256" "due_report ?c"
    by (simp_all add: due_report_def live_client_def new_client_def)
  with unclean_reported_once [OF this(1,2), of "[(now_env, True), (now_env, False), (now_env, True)]"] show ?thesis
    by simp
qed


section \<open>Start-up\<close>

lemma rotate_lookup:
  assumes "sl_paths l = Some (current, previous)" "p \<noteq> current" "p \<noteq> previous"
  shows "fs_lookup (snd (snd (log_rotate l fs))) p = fs_lookup fs p"
proof -
  have rename: "fs_lookup (fs_rename current previous fs') p = fs_lookup fs' p" for fs'
  proof (cases "fs_lookup fs' current")
    case (Some s)
    have "fs_rename current previous fs' =
        (if fl_removable fs' current \<and> fl_writable fs' previous then fs_put previous s (fs_remove current fs') else fs')"
      using Some by (simp add: fs_rename_def fs_remove_def)
    with assms(2,3) show ?thesis by (simp add: disk.other_paths)
  qed (simp add: fs_rename_def)
  show ?thesis
    using assms by (simp add: log_rotate_def Let_def rename disk.other_paths)
qed

lemma rename_flags [simp]: "fl_readable (fs_rename p q fs) = fl_readable fs"
  by (simp add: fs_rename_def fs_put_def split: option.split)

lemma rotate_readable [simp]: "fl_readable (snd (snd (log_rotate l fs))) = fl_readable fs"
  by (simp add: log_rotate_def Let_def split: option.split)

lemma take_previous_of:
  "fs_lookup fs p = Some (marker_text d) \<Longrightarrow> fl_readable fs p \<Longrightarrow> md_session_id d \<noteq> [] \<Longrightarrow>
    fst (marker_take_previous (Some p) fs) = Some d"
  by (simp add: marker_take_previous_def fs_exists_def fs_read_def Let_def marker_field marker_fields_def)

lemma take_previous_none: "fs_lookup fs p = None \<Longrightarrow> fst (marker_take_previous (Some p) fs) = None"
  by (simp add: marker_take_previous_def fs_exists_def)

lemma take_previous_lookup: "q \<noteq> p \<Longrightarrow> fs_lookup (snd (marker_take_previous (Some p) fs)) q = fs_lookup fs q"
  by (simp add: marker_take_previous_def disk.other_paths Let_def split: option.split)

text \<open>The disk changes only inside the data directory itself.\<close>

definition same_outside :: "path \<Rightarrow> file_system \<Rightarrow> file_system \<Rightarrow> bool" where
  "same_outside dir fs fs' \<longleftrightarrow> (\<forall>p. p = [] \<or> butlast p \<noteq> dir \<longrightarrow> fs_lookup fs' p = fs_lookup fs p)"

lemma configured:
  fixes c :: client and mc :: machine
  assumes "mc_dir_ok mc" "co_unclean_detection (cl_config c)" "\<not> co_native_crash (cl_config c)"
  defines "c' \<equiv> configure_storage mc c" and "dir \<equiv> co_data_dir (cl_config c)"
  shows "cl_storage_available c' \<and> cl_config c' = cl_config c \<and> cl_tracking_started c' = cl_tracking_started c \<and>
    cl_restored_crash c' = cl_restored_crash c \<and> cl_native_dump c' = cl_native_dump c \<and> wk_queue c' = wk_queue c \<and>
    cl_consent c' = cl_consent c \<and> wk_sidecars c' = sidecar_configure dir (mc_sidecar_dirs_ok mc) \<and>
    same_outside dir (wk_disk c) (wk_disk c') \<and>
    (fs_lookup (wk_disk c) (dir @ [marker_name]) = None \<longrightarrow> cl_previous_marker c' = None) \<and>
    (\<forall>d. fs_lookup (wk_disk c) (dir @ [marker_name]) = Some (marker_text d) \<longrightarrow>
       fl_readable (wk_disk c) (dir @ [marker_name]) \<longrightarrow> md_session_id d \<noteq> [] \<longrightarrow> cl_previous_marker c' = Some d)"
proof -
  let ?l = "log_configure dir (wk_session_log c)"
  define fs where "fs = (if co_session_log_enabled (cl_config c) then snd (snd (log_rotate ?l (wk_disk c))) else wk_disk c)"
  have paths: "sl_paths ?l = Some (dir @ [''session.log''], dir @ [''previous-session.log''])"
    by (simp add: log_configure_def)
  have look: "fs_lookup fs p = fs_lookup (wk_disk c) p"
    if "p \<noteq> dir @ [''session.log'']" "p \<noteq> dir @ [''previous-session.log'']" for p
    using rotate_lookup [OF paths that] by (simp add: fs_def)
  have marker: "fs_lookup fs (dir @ [marker_name]) = fs_lookup (wk_disk c) (dir @ [marker_name])"
    by (rule look) (simp_all add: marker_name_def)
  have readable: "fl_readable fs = fl_readable (wk_disk c)" by (simp add: fs_def)
  have disk: "wk_disk c' = snd (marker_take_previous (marker_configure dir) fs)"
    and previous: "cl_previous_marker c' = fst (marker_take_previous (marker_configure dir) fs)"
    using assms(1-3) by (simp_all add: c'_def configure_storage_def Let_def case_prod_unfold fs_def dir_def)
  have "same_outside dir (wk_disk c) (wk_disk c')"
  proof -
    have "p \<noteq> dir @ [x]" if "p = [] \<or> butlast p \<noteq> dir" for p x using that by auto
    then show ?thesis
      by (simp add: same_outside_def disk marker_configure_def take_previous_lookup look)
  qed
  moreover have "cl_previous_marker c' = None" if "fs_lookup (wk_disk c) (dir @ [marker_name]) = None"
    using that marker by (simp add: previous marker_configure_def take_previous_none)
  moreover have "cl_previous_marker c' = Some d"
    if "fs_lookup (wk_disk c) (dir @ [marker_name]) = Some (marker_text d)"
      "fl_readable (wk_disk c) (dir @ [marker_name])" "md_session_id d \<noteq> []" for d
    using that marker readable by (simp add: previous marker_configure_def take_previous_of)
  ultimately show ?thesis
    using assms(1-3) by (simp add: c'_def configure_storage_def Let_def case_prod_unfold dir_def)
qed


lemma restored_frame:
  "cl_storage_available (fold restore_sidecar rs c) = cl_storage_available c \<and>
   cl_config (fold restore_sidecar rs c) = cl_config c \<and>
   cl_tracking_started (fold restore_sidecar rs c) = cl_tracking_started c \<and>
   cl_previous_marker (fold restore_sidecar rs c) = cl_previous_marker c \<and>
   cl_native_dump (fold restore_sidecar rs c) = cl_native_dump c \<and>
   cl_consent (fold restore_sidecar rs c) = cl_consent c \<and>
   (cl_restored_crash (fold restore_sidecar rs c) \<longleftrightarrow> cl_restored_crash c \<or> (\<exists>r \<in> set rs. sr_kind r = Crash))"
  by (induction rs arbitrary: c) (auto simp: restore_sidecar_def Let_def enqueue_def)

lemma scan_no_crash:
  assumes "\<forall>p. p \<noteq> [] \<and> butlast p = kind_dir pending Crash \<longrightarrow> fs_lookup fs p = None"
  shows "\<forall>r \<in> set (sidecar_scan (Some pending) fs). sr_kind r \<noteq> Crash"
proof -
  have "fs_list fs (kind_dir pending Crash) = []"
  proof -
    have "fs_lookup fs p \<noteq> None" if "(p, s) \<in> set (fl_files fs)" for p s
      using that by (auto simp: fs_lookup_def map_of_eq_None_iff image_iff intro!: bexI [of _ "(p, s)"])
    with assms have "\<not> (p \<noteq> [] \<and> butlast p = kind_dir pending Crash)" if "(p, s) \<in> set (fl_files fs)" for p s
      using that by blast
    then show ?thesis by (auto simp: fs_list_def filter_empty_conv)
  qed
  then have "scan_kind pending fs Crash = []" by (simp add: scan_kind_def)
  moreover have "sr_kind r = k" if "r \<in> set (scan_kind pending fs k)" for r k
    using that by (auto simp: scan_kind_def split: if_splits option.splits)
  ultimately have "sr_kind r \<noteq> Crash" if "r \<in> set (scan_kind pending fs k)" for r k
    using that by (cases "k = Crash") auto
  then show ?thesis by (auto simp: sidecar_scan_def)
qed

lemma acquire_frame:
  fixes e mc c
  defines "c' \<equiv> acquire_device_identity e mc c"
  shows "cl_storage_available c' = cl_storage_available c \<and> cl_config c' = cl_config c \<and>
    cl_tracking_started c' = cl_tracking_started c \<and> cl_previous_marker c' = cl_previous_marker c \<and>
    cl_native_dump c' = cl_native_dump c \<and> cl_consent c' = cl_consent c \<and> wk_queue c' = wk_queue c \<and>
    cl_restored_crash c' = cl_restored_crash c \<and> wk_sidecars c' = wk_sidecars c \<and>
    same_outside (co_data_dir (cl_config c)) (wk_disk c) (wk_disk c')"
proof -
  have "p \<noteq> co_data_dir (cl_config c) @ [identity_file_name]"
    if "p = [] \<or> butlast p \<noteq> co_data_dir (cl_config c)" for p using that by auto
  then show ?thesis
    by (simp add: c'_def acquire_device_identity_def persist_identity_def Let_def case_prod_unfold same_outside_def
        fs_write_lookup)
qed

text \<open>The client just before \<open>init\<close> starts session tracking, with the native handler off.\<close>

definition started_client :: "env \<Rightarrow> machine \<Rightarrow> options \<Rightarrow> file_system \<Rightarrow> client" where
  "started_client e mc op fs =
    (let c = (new_client fs)\<lparr>cl_config := client_config e mc op\<rparr>;
         c = (if \<not> cstr_blank (op_environment op)
              then c\<lparr>cl_match := (cl_match c)\<lparr>ma_environment := clamped (op_environment op) limit_environment\<rparr>\<rparr> else c);
         c = configure_storage mc (c\<lparr>cl_consent := op_consent_granted op, cl_gate := gate_arm (op_auto_start_session op) (cl_gate c)\<rparr>)
     in drain_sidecars ((worker_start (en_now e) (acquire_device_identity e mc c))\<lparr>cl_initialized := True\<rparr>))"

lemma init_started:
  assumes "client_init e mc op g (new_client fs) = Some (OK, g', c)" "\<not> op_enable_native_crash op"
  shows "c = (if cl_consent (started_client e mc op fs) then start_session_tracking e (started_client e mc op fs)
              else started_client e mc op fs)"
proof -
  have "co_native_crash (client_config e mc op) = False" using assms(2) by (simp add: client_config_def)
  moreover have "cl_config (configure_storage mc c) = cl_config c" for c
    by (simp add: configure_storage_def Let_def case_prod_unfold)
  ultimately show ?thesis
    using assms(1)
    by (auto simp: client_init_def install_native_def started_client_def Let_def split: if_splits)
qed


lemma worker_start_frame [simp]:
  "cl_storage_available (worker_start t c) = cl_storage_available c" "cl_config (worker_start t c) = cl_config c"
  "cl_tracking_started (worker_start t c) = cl_tracking_started c" "wk_queue (worker_start t c) = wk_queue c"
  "cl_previous_marker (worker_start t c) = cl_previous_marker c" "cl_native_dump (worker_start t c) = cl_native_dump c"
  "cl_consent (worker_start t c) = cl_consent c" "cl_restored_crash (worker_start t c) = cl_restored_crash c"
  "wk_sidecars (worker_start t c) = wk_sidecars c" "wk_disk (worker_start t c) = wk_disk c"
  by (simp_all add: worker_start_def)

lemma restored_jobs:
  "job \<in> set (wk_queue (fold restore_sidecar rs c)) \<Longrightarrow>
    job \<in> set (wk_queue c) \<or> (\<exists>r. job = restored_job (co_endpoint (cl_config c)) r)"
proof (induction rs arbitrary: c)
  case (Cons r rs)
  from Cons.IH [of "restore_sidecar r c"] Cons.prems show ?case
    by (auto simp: restore_sidecar_def Let_def dest!: in_enqueue split: if_splits)
qed simp

lemma started_facts:
  fixes e :: env and fs :: file_system
  assumes "mc_dir_ok mc" "op_enable_unclean_detection op" "\<not> op_enable_native_crash op"
  defines "c \<equiv> started_client e mc op fs" and "dir \<equiv> co_data_dir (client_config e mc op)"
  shows "cl_storage_available c" "cl_config c = client_config e mc op" "\<not> cl_tracking_started c"
    "cl_native_dump c = None" "cl_consent c = op_consent_granted op"
    "fs_lookup fs (dir @ [marker_name]) = None \<Longrightarrow> cl_previous_marker c = None"
    "fs_lookup fs (dir @ [marker_name]) = Some (marker_text d) \<Longrightarrow> fl_readable fs (dir @ [marker_name]) \<Longrightarrow>
       md_session_id d \<noteq> [] \<Longrightarrow> cl_previous_marker c = Some d"
    "\<forall>p. p \<noteq> [] \<and> butlast p = kind_dir (dir @ [''pending'']) Crash \<longrightarrow> fs_lookup fs p = None \<Longrightarrow> \<not> cl_restored_crash c"
    "\<forall>job \<in> set (wk_queue c). \<exists>r. job = restored_job (co_endpoint (client_config e mc op)) r"
proof -
  define b where "b = (new_client fs)\<lparr>cl_config := client_config e mc op\<rparr>"
  define c0 where "c0 = (let c = (if \<not> cstr_blank (op_environment op)
      then b\<lparr>cl_match := (cl_match b)\<lparr>ma_environment := clamped (op_environment op) limit_environment\<rparr>\<rparr> else b)
    in c\<lparr>cl_consent := op_consent_granted op, cl_gate := gate_arm (op_auto_start_session op) (cl_gate c)\<rparr>)"
  have c0: "cl_config c0 = client_config e mc op" "wk_disk c0 = fs" "wk_queue c0 = []" "\<not> cl_tracking_started c0"
    "cl_native_dump c0 = None" "cl_consent c0 = op_consent_granted op" "\<not> cl_restored_crash c0"
    by (simp_all add: c0_def b_def new_client_def Let_def)
  define c1 where "c1 = configure_storage mc c0"
  define c2 where "c2 = acquire_device_identity e mc c1"
  define c3 where "c3 = (worker_start (en_now e) c2)\<lparr>cl_initialized := True\<rparr>"
  have c: "c = drain_sidecars c3"
    by (simp add: c_def started_client_def c3_def c2_def c1_def c0_def b_def Let_def)
  have "co_unclean_detection (cl_config c0)" "\<not> co_native_crash (cl_config c0)"
    using assms(2,3) c0(1) by (simp_all add: client_config_def)
  note one = configured [OF assms(1) this, folded c1_def, unfolded c0, folded dir_def]
  note two = acquire_frame [of e mc c1, folded c2_def]
  note rest = restored_frame [of "sidecar_scan (wk_sidecars c3) (wk_disk c3)" c3, folded drain_sidecars_def, folded c]
  show "cl_storage_available c" "cl_config c = client_config e mc op" "\<not> cl_tracking_started c"
    "cl_native_dump c = None" "cl_consent c = op_consent_granted op"
    using one two rest c0 by (simp_all add: c3_def)
  show "cl_previous_marker c = None" if "fs_lookup fs (dir @ [marker_name]) = None"
    using that one two rest by (simp add: c3_def)
  show "cl_previous_marker c = Some d"
    if "fs_lookup fs (dir @ [marker_name]) = Some (marker_text d)" "fl_readable fs (dir @ [marker_name])"
      "md_session_id d \<noteq> []"
    using that one two rest by (simp add: c3_def)
  show "\<not> cl_restored_crash c"
    if no: "\<forall>p. p \<noteq> [] \<and> butlast p = kind_dir (dir @ [''pending'']) Crash \<longrightarrow> fs_lookup fs p = None"
  proof -
    have disk: "fs_lookup (wk_disk c3) p = None" if "p \<noteq> []" "butlast p = kind_dir (dir @ [''pending'']) Crash" for p
    proof -
      have "butlast p \<noteq> dir" using that(2) by (simp add: kind_dir_def)
      with one two no that show ?thesis by (simp add: c3_def same_outside_def dir_def)
    qed
    have "\<forall>r \<in> set (sidecar_scan (wk_sidecars c3) (wk_disk c3)). sr_kind r \<noteq> Crash"
    proof (cases "mc_sidecar_dirs_ok mc")
      case True
      then have "wk_sidecars c3 = Some (dir @ [''pending''])" using one two by (simp add: c3_def sidecar_configure_def)
      with scan_no_crash [of "dir @ [''pending'']" "wk_disk c3"] disk show ?thesis by simp
    next
      case False
      then have "wk_sidecars c3 = None" using one two by (simp add: c3_def sidecar_configure_def)
      then show ?thesis by (simp add: sidecar_scan_def)
    qed
    with one two rest c0 show ?thesis by (auto simp: c3_def)
  qed
  show "\<forall>job \<in> set (wk_queue c). \<exists>r. job = restored_job (co_endpoint (client_config e mc op)) r"
    using restored_jobs [of _ "sidecar_scan (wk_sidecars c3) (wk_disk c3)" c3] one two
    by (simp add: c drain_sidecars_def c3_def)
qed

text \<open>What an ingest leaves in the queue and in the client.\<close>

lemma enqueue_last: "\<exists>rest. wk_queue (enqueue job c) = rest @ [job] \<and> set rest \<subseteq> set (wk_queue c)"
  by (cases "wk_queue c") (auto simp: enqueue_def)

lemma ingest_last:
  fixes path body dur kind rl prev and c :: client and e :: env
  defines "c' \<equiv> enqueue_ingest e path body dur kind rl prev c"
  obtains rest job where "wk_queue c' = rest @ [job]" "set rest \<subseteq> set (wk_queue c)" "uj_body job = body"
    "uj_url job = co_endpoint (cl_config c) @ path" "uj_log_from_previous job = prev" "uj_durability job = dur"
proof -
  let ?w = "if dur = WriteAhead \<and> cl_storage_available c then write_sidecar kind body (en_name e) c else ([], c)"
  let ?job = "new_job\<lparr>uj_url := co_endpoint (cl_config c) @ path, uj_body := body, uj_durability := dur, uj_kind := kind,
    uj_request_log := rl, uj_log_from_previous := prev, uj_sign_body := True, uj_sidecar_path := fst ?w\<rparr>"
  have c': "c' = enqueue ?job (snd ?w)" by (simp add: c'_def enqueue_ingest_def Let_def case_prod_unfold)
  obtain rest where "wk_queue c' = rest @ [?job]" "set rest \<subseteq> set (wk_queue (snd ?w))"
    unfolding c' using enqueue_last [of ?job "snd ?w"] by blast
  moreover have "wk_queue (snd ?w) = wk_queue c" by (simp add: write_sidecar_def case_prod_unfold Let_def)
  ultimately show ?thesis by (intro that [of rest ?job]) simp_all
qed

lemma ingest_frame:
  "cl_previous_marker (enqueue_ingest e path body dur kind rl prev c) = cl_previous_marker c"
  "cl_tracking_started (enqueue_ingest e path body dur kind rl prev c) = cl_tracking_started c"
  by (simp_all add: enqueue_ingest_def Let_def case_prod_unfold enqueue_def write_sidecar_def)

lemma dead_session:
  assumes "client_init e mc op g (new_client fs) = Some (OK, g', c)"
    and "mc_dir_ok mc" "op_enable_unclean_detection op" "\<not> op_enable_native_crash op" "op_consent_granted op"
    and "fs_lookup fs (co_data_dir (client_config e mc op) @ [marker_name]) = Some (marker_text d)"
    and "fl_readable fs (co_data_dir (client_config e mc op) @ [marker_name])" "md_session_id d \<noteq> []"
    and "\<forall>p. p \<noteq> [] \<and> butlast p = kind_dir (co_data_dir (client_config e mc op) @ [''pending'']) Crash \<longrightarrow> fs_lookup fs p = None"
  shows "cl_previous_marker c = None \<and> cl_tracking_started c \<and>
    (\<exists>payload. uj_body (last (wk_queue c)) = build_crash_json (en_separator e) payload \<and>
       uj_url (last (wk_queue c)) = co_endpoint (client_config e mc op) @ crashes_path \<and>
       uj_log_from_previous (last (wk_queue c)) \<and> uj_durability (last (wk_queue c)) = WriteAhead \<and>
       cp_signature payload = unclean_signature \<and>
       cp_build_version payload = or_else (md_build_version d) (co_build_version (client_config e mc op)) \<and>
       cp_os payload = or_else (md_os d) (os_name (mc_os mc)) \<and>
       cp_arch payload = or_else (md_arch d) (arch_name (mc_arch mc))) \<and>
    (\<forall>job \<in> set (butlast (wk_queue c)). \<exists>r. job = restored_job (co_endpoint (client_config e mc op)) r)"
proof -
  let ?s = "started_client e mc op fs"
  note facts = started_facts [OF assms(2-4), where e = e and fs = fs]
  have c: "c = start_session_tracking e ?s"
    using init_started [OF assms(1,4)] facts(5) assms(5) by simp
  have detection: "co_unclean_detection (client_config e mc op)" using assms(3) by (simp add: client_config_def)
  have names: "co_os (client_config e mc op) = os_name (mc_os mc)" "co_arch (client_config e mc op) = arch_name (mc_arch mc)"
    by (simp_all add: client_config_def)
  define v where "v = ?s\<lparr>cl_tracking_started := True, wk_disk := marker_write
     \<lparr>md_session_id = co_session_id (cl_config ?s), md_started_at_iso = en_iso e,
      md_build_version = co_build_version (cl_config ?s), md_os = co_os (cl_config ?s), md_arch = co_arch (cl_config ?s)\<rparr>
     (cl_marker ?s) (wk_disk ?s), cl_previous_marker := None\<rparr>"
  define payload where "payload = (recovery_payload e d v)\<lparr>cp_signature := unclean_signature, cp_stack_hint := unclean_stack_hint\<rparr>"
  have v: "cl_config v = client_config e mc op" "wk_queue v = wk_queue ?s" "cl_previous_marker v = None" "cl_tracking_started v"
    using facts(2) by (simp_all add: v_def)
  have c: "c = enqueue_ingest e crashes_path (build_crash_json (en_separator e) payload) WriteAhead Crash (cp_log payload) True v"
    using facts(1-4) facts(7) [OF assms(6-8)] facts(8) [OF assms(9)] detection
    by (simp add: c start_session_tracking_def Let_def report_unclean_shutdown_def v_def payload_def)
  obtain rest job where queue: "wk_queue c = rest @ [job]" "set rest \<subseteq> set (wk_queue v)"
    and job: "uj_body job = build_crash_json (en_separator e) payload"
      "uj_url job = co_endpoint (cl_config v) @ crashes_path" "uj_log_from_previous job = True" "uj_durability job = WriteAhead"
    unfolding c by (rule ingest_last)
  have rest: "cl_previous_marker c = None" "cl_tracking_started c"
    by (simp_all add: c ingest_frame v)
  have "\<forall>job \<in> set (butlast (wk_queue c)). \<exists>r. job = restored_job (co_endpoint (client_config e mc op)) r"
    using facts(9) queue(2) by (auto simp: queue(1) v(2))
  moreover have "cp_signature payload = unclean_signature"
      "cp_build_version payload = or_else (md_build_version d) (co_build_version (client_config e mc op))"
      "cp_os payload = or_else (md_os d) (os_name (mc_os mc))" "cp_arch payload = or_else (md_arch d) (arch_name (mc_arch mc))"
    by (simp_all add: payload_def recovery_payload_def v(1) names)
  ultimately show ?thesis
    using rest job by (auto simp: queue(1) v(1) intro!: exI [of _ payload])
qed


text \<open>C4. A session that died is recovered by the next launch: if the marker of session \<open>d\<close> is on disk
  and readable and no crash report of it waits there, a start with consent and detection queues,
  last, a crash report that carries the unclean-shutdown signature and the dead session's own
  build version, system and architecture, and that asks for the previous session's log; the
  marker is used up, and everything else in the queue was restored from disk.\<close>

theorem dead_session_recovered:
  assumes "client_init e mc op g (new_client fs) = Some (OK, g', c)"
    and "mc_dir_ok mc" "op_enable_unclean_detection op" "\<not> op_enable_native_crash op" "op_consent_granted op"
    and "fs_lookup fs (co_data_dir (client_config e mc op) @ [marker_name]) = Some (marker_text d)"
    and "fl_readable fs (co_data_dir (client_config e mc op) @ [marker_name])" "md_session_id d \<noteq> []"
    and "\<forall>p. p \<noteq> [] \<and> butlast p = kind_dir (co_data_dir (client_config e mc op) @ [''pending'']) Crash \<longrightarrow> fs_lookup fs p = None"
  shows "cl_previous_marker c = None \<and> cl_tracking_started c \<and>
    (\<exists>payload. uj_body (last (wk_queue c)) = build_crash_json (en_separator e) payload \<and>
       uj_url (last (wk_queue c)) = co_endpoint (client_config e mc op) @ crashes_path \<and>
       uj_log_from_previous (last (wk_queue c)) \<and> uj_durability (last (wk_queue c)) = WriteAhead \<and>
       cp_signature payload = unclean_signature \<and>
       cp_build_version payload = or_else (md_build_version d) (co_build_version (client_config e mc op)) \<and>
       cp_os payload = or_else (md_os d) (os_name (mc_os mc)) \<and>
       cp_arch payload = or_else (md_arch d) (arch_name (mc_arch mc))) \<and>
    (\<forall>job \<in> set (butlast (wk_queue c)). \<exists>r. job = restored_job (co_endpoint (client_config e mc op)) r)"
  using assms by (rule dead_session)

text \<open>A machine, options and a disk for the witnesses.\<close>

definition some_machine :: machine where
  "some_machine = \<lparr>mc_os = Linux, mc_arch = X64, mc_to_path = (\<lambda>s. [s]), mc_getenv = (\<lambda>_. None), mc_native_id = None,
     mc_dir_ok = True, mc_sidecar_dirs_ok = True, mc_loaded = [], mc_sigaction_ok = True\<rparr>"

definition some_options :: options where
  "some_options = default_options\<lparr>op_endpoint := Some ''e'', op_token := Some ''t'', op_build_version := Some ''2'',
     op_data_dir := Some ''d''\<rparr>"

definition old_marker :: marker_data where
  "old_marker = \<lparr>md_session_id = ''s'', md_started_at_iso = [], md_build_version = ''1'', md_os = [], md_arch = []\<rparr>"

definition crashed_disk :: file_system where
  "crashed_disk = open_store [([''d'', marker_name], marker_text old_marker)]"

definition idle_handler :: handler_state where
  "idle_handler = \<lparr>hs_modules = \<lparr>mt_slots = [], mt_count = 0\<rparr>, hs_dump_open = False, hs_installed = False\<rparr>"

lemma some_init:
  "client_init now_env some_machine some_options g (new_client fs) =
    Some (OK, g, snd (snd (the (client_init now_env some_machine some_options g (new_client fs)))))"
proof -
  have "cl_config (configure_storage mc c) = cl_config c" for mc c
    by (simp add: configure_storage_def Let_def case_prod_unfold)
  then show ?thesis
    by (simp add: client_init_def install_native_def some_options_def default_options_def client_config_def Let_def)
qed

lemma some_flags:
  "mc_dir_ok some_machine" "op_enable_unclean_detection some_options" "\<not> op_enable_native_crash some_options"
  "op_consent_granted some_options" "fl_removable crashed_disk p" "fl_readable crashed_disk p"
  by (simp_all add: some_machine_def some_options_def default_options_def crashed_disk_def open_store_def)

lemma some_dir: "co_data_dir (client_config now_env some_machine some_options) = [''d'']"
  by (simp add: client_config_def some_machine_def some_options_def)

theorem dead_session_recovered_witness:
  "let c = snd (snd (the (client_init now_env some_machine some_options idle_handler (new_client crashed_disk))))
   in \<exists>payload. uj_body (last (wk_queue c)) = build_crash_json ''.'' payload \<and> cp_build_version payload = ''1''"
proof -
  have "fs_lookup crashed_disk (co_data_dir (client_config now_env some_machine some_options) @ [marker_name]) =
      Some (marker_text old_marker)"
    "\<forall>p. p \<noteq> [] \<and> butlast p = kind_dir (co_data_dir (client_config now_env some_machine some_options) @ [''pending'']) Crash \<longrightarrow>
      fs_lookup crashed_disk p = None"
    by (auto simp: some_dir crashed_disk_def open_store_def fs_lookup_def kind_dir_def)
  from dead_session_recovered [OF some_init some_flags(1-4) this(1) some_flags(6) _ this(2), of idle_handler] show ?thesis
    unfolding Let_def by (auto simp: old_marker_def or_else_def now_env_def)
qed

section \<open>A start after a clean shutdown\<close>

text \<open>The start of a client changes files of the data directory itself only, so that the scan finds what it would have found before.\<close>

definition flags :: "file_system \<Rightarrow> (path \<Rightarrow> bool) \<times> (path \<Rightarrow> bool) \<times> (path \<Rightarrow> bool)" where
  "flags fs = (fl_readable fs, fl_writable fs, fl_removable fs)"

definition outside :: "path \<Rightarrow> file_system \<Rightarrow> (path \<times> string) list" where
  "outside dir fs = filter (\<lambda>(p, s). p = [] \<or> butlast p \<noteq> dir) (fl_files fs)"

lemma outside_ops:
  assumes "p \<noteq> []" "butlast p = dir"
  shows "outside dir (fs_put p s fs) = outside dir fs" "outside dir (fs_remove p fs) = outside dir fs"
proof -
  have "filter P (AList.update p s al) = filter P al" "filter P (AList.delete p al) = filter P al"
    if "\<And>t. \<not> P (p, t)" for P and al :: "(path \<times> string) list"
    using that by (induction al) auto
  then show "outside dir (fs_put p s fs) = outside dir fs" "outside dir (fs_remove p fs) = outside dir fs"
    using assms by (simp_all add: outside_def fs_put_def fs_remove_def)
qed

lemma flags_ops [simp]: "flags (fs_put p s fs) = flags fs" "flags (fs_remove p fs) = flags fs"
  "flags (snd (fs_write p s fs)) = flags fs" "flags (fs_rename p q fs) = flags fs"
  by (simp_all add: flags_def fs_put_def fs_remove_def fs_write_def fs_rename_def split: option.split)

lemma outside_write: "p \<noteq> [] \<Longrightarrow> butlast p = dir \<Longrightarrow> outside dir (snd (fs_write p s fs)) = outside dir fs"
  by (simp add: fs_write_def outside_ops)

lemma outside_rename:
  "p \<noteq> [] \<Longrightarrow> butlast p = dir \<Longrightarrow> q \<noteq> [] \<Longrightarrow> butlast q = dir \<Longrightarrow> outside dir (fs_rename p q fs) = outside dir fs"
proof -
  assume a: "p \<noteq> []" "butlast p = dir" "q \<noteq> []" "butlast q = dir"
  show ?thesis
  proof (cases "fs_lookup fs p")
    case (Some s)
    have "fs_rename p q fs = (if fl_removable fs p \<and> fl_writable fs q then fs_put q s (fs_remove p fs) else fs)"
      using Some by (simp add: fs_rename_def fs_remove_def)
    with a show ?thesis by (simp add: outside_ops)
  qed (simp add: fs_rename_def)
qed

text \<open>A scan of the sidecars sees nothing of the data directory itself.\<close>

lemma outside_seen:
  assumes "outside dir fs' = outside dir fs" "flags fs' = flags fs" "d \<noteq> dir"
  shows "fs_list fs' d = fs_list fs d" "p = [] \<or> butlast p \<noteq> dir \<Longrightarrow> fs_read fs' p = fs_read fs p"
proof -
  have map_of: "map_of (filter P al) p = map_of al p" if "\<And>t. P (p, t)" for P and al :: "(path \<times> string) list"
    using that by (induction al) auto
  have "fs_list g d = filter (\<lambda>(p, s). p \<noteq> [] \<and> butlast p = d) (outside dir g)" for g
    using assms(3) by (auto simp: fs_list_def outside_def intro!: filter_cong)
  then show "fs_list fs' d = fs_list fs d" using assms(1) by simp
  show "fs_read fs' p = fs_read fs p" if "p = [] \<or> butlast p \<noteq> dir"
  proof -
    have "fs_lookup g p = map_of (outside dir g) p" for g
      using map_of [of "\<lambda>(p, s). p = [] \<or> butlast p \<noteq> dir"] that by (simp add: outside_def fs_lookup_def)
    then have "fs_lookup fs' p = fs_lookup fs p" using assms(1) by simp
    moreover have "fl_readable fs' = fl_readable fs" using assms(2) by (simp add: flags_def)
    ultimately show ?thesis by (simp add: fs_read_def)
  qed
qed

lemma scan_outside:
  assumes "outside dir fs' = outside dir fs" "flags fs' = flags fs"
  shows "sidecar_scan (sidecar_configure dir ok) fs' = sidecar_scan (sidecar_configure dir ok) fs"
proof -
  let ?pending = "dir @ [''pending'']"
  have kind: "kind_dir ?pending k \<noteq> dir" for k by (simp add: kind_dir_def)
  have "scan_kind ?pending fs' k = scan_kind ?pending fs k" for k
  proof -
    have "fs_read fs' p = fs_read fs p" if "(p, s) \<in> set (fs_list fs (kind_dir ?pending k))" for p s
      using that kind [of k] outside_seen(2) [OF assms kind, of p] by (auto simp: fs_list_def)
    then show ?thesis
      unfolding scan_kind_def outside_seen(1) [OF assms kind]
      by (intro arg_cong [where f = concat] map_cong refl) auto
  qed
  then show ?thesis by (simp add: sidecar_scan_def sidecar_configure_def cong: map_cong)
qed

lemma configured_outside:
  assumes "\<not> co_native_crash (cl_config c)"
  shows "outside (co_data_dir (cl_config c)) (wk_disk (configure_storage mc c)) = outside (co_data_dir (cl_config c)) (wk_disk c)"
    "flags (wk_disk (configure_storage mc c)) = flags (wk_disk c)"
proof -
  let ?dir = "co_data_dir (cl_config c)"
  have rotate: "outside ?dir (snd (snd (log_rotate (log_configure ?dir l) fs))) = outside ?dir fs"
    "flags (snd (snd (log_rotate (log_configure ?dir l) fs))) = flags fs" for l fs
    by (simp_all add: log_rotate_def log_configure_def Let_def outside_ops outside_rename)
  have taken: "outside ?dir (snd (marker_take_previous (marker_configure ?dir) fs)) = outside ?dir fs"
    "flags (snd (marker_take_previous (marker_configure ?dir) fs)) = flags fs"
    "outside ?dir (marker_remove (marker_configure ?dir) fs) = outside ?dir fs"
    "flags (marker_remove (marker_configure ?dir) fs) = flags fs" for fs
    by (simp_all add: marker_take_previous_def marker_remove_def marker_configure_def Let_def outside_ops split: option.split)
  show "outside ?dir (wk_disk (configure_storage mc c)) = outside ?dir (wk_disk c)"
    "flags (wk_disk (configure_storage mc c)) = flags (wk_disk c)"
    using assms by (simp_all add: configure_storage_def Let_def case_prod_unfold rotate taken)
qed

lemma acquired_outside:
  "outside (co_data_dir (cl_config c)) (wk_disk (acquire_device_identity e mc c)) = outside (co_data_dir (cl_config c)) (wk_disk c)"
  "flags (wk_disk (acquire_device_identity e mc c)) = flags (wk_disk c)" "cl_marker (acquire_device_identity e mc c) = cl_marker c"
  by (simp_all add: acquire_device_identity_def persist_identity_def Let_def case_prod_unfold outside_write)

lemma restored_queue:
  fixes c :: client
  shows "wk_queue (fold restore_sidecar rs c) =
     wk_queue (fold enqueue (map (restored_job (co_endpoint (cl_config c))) rs) c)"
  "wk_disk (fold restore_sidecar rs c) = wk_disk c" "cl_marker (fold restore_sidecar rs c) = cl_marker c"
  "wk_sidecars (fold restore_sidecar rs c) = wk_sidecars c"
proof -
  have queue: "wk_queue (fold enqueue js v) = wk_queue (fold enqueue js v')" if "wk_queue v = wk_queue v'"
    for js and v v' :: client
    using that by (induction js arbitrary: v v') (simp_all add: enqueue_def)
  have one: "cl_config (restore_sidecar r c) = cl_config c" "wk_disk (restore_sidecar r c) = wk_disk c"
    "cl_marker (restore_sidecar r c) = cl_marker c" "wk_sidecars (restore_sidecar r c) = wk_sidecars c"
    "wk_queue (restore_sidecar r c) = wk_queue (enqueue (restored_job (co_endpoint (cl_config c)) r) c)" for r c
    by (simp_all add: restore_sidecar_def Let_def enqueue_def)
  show "wk_queue (fold restore_sidecar rs c) = wk_queue (fold enqueue (map (restored_job (co_endpoint (cl_config c))) rs) c)"
  proof (induction rs arbitrary: c)
    case (Cons r rs)
    show ?case using Cons.IH [of "restore_sidecar r c"] queue [OF one(5)] by (simp add: one)
  qed simp
  show "wk_disk (fold restore_sidecar rs c) = wk_disk c" "cl_marker (fold restore_sidecar rs c) = cl_marker c"
    "wk_sidecars (fold restore_sidecar rs c) = wk_sidecars c"
    by (induction rs arbitrary: c) (simp_all add: one)
qed

text \<open>What a start has in its queue before session tracking: what the scan of the old disk finds, the newest 256.\<close>

definition restored_jobs_of :: "env \<Rightarrow> machine \<Rightarrow> options \<Rightarrow> file_system \<Rightarrow> upload_job list" where
  "restored_jobs_of e mc op fs =
    (let co = client_config e mc op in
     last_n 256 (map (restored_job (co_endpoint co))
                  (sidecar_scan (sidecar_configure (co_data_dir co) (mc_sidecar_dirs_ok mc)) fs)))"

lemma started_exact:
  fixes e fs
  assumes "mc_dir_ok mc" "op_enable_unclean_detection op" "\<not> op_enable_native_crash op"
  defines "c \<equiv> started_client e mc op fs" and "dir \<equiv> co_data_dir (client_config e mc op)"
  shows "wk_queue c = restored_jobs_of e mc op fs" "cl_marker c = Some (dir @ [marker_name])"
    "wk_sidecars c = sidecar_configure dir (mc_sidecar_dirs_ok mc)" "flags (wk_disk c) = flags fs"
proof -
  define b where "b = (new_client fs)\<lparr>cl_config := client_config e mc op\<rparr>"
  define c0 where "c0 = (let c = (if \<not> cstr_blank (op_environment op)
      then b\<lparr>cl_match := (cl_match b)\<lparr>ma_environment := clamped (op_environment op) limit_environment\<rparr>\<rparr> else b)
    in c\<lparr>cl_consent := op_consent_granted op, cl_gate := gate_arm (op_auto_start_session op) (cl_gate c)\<rparr>)"
  have c0: "cl_config c0 = client_config e mc op" "wk_disk c0 = fs" "wk_queue c0 = []"
    by (simp_all add: c0_def b_def new_client_def Let_def)
  define c1 where "c1 = configure_storage mc c0"
  define c2 where "c2 = acquire_device_identity e mc c1"
  define c3 where "c3 = (worker_start (en_now e) c2)\<lparr>cl_initialized := True\<rparr>"
  have c: "c = drain_sidecars c3"
    by (simp add: c_def started_client_def c3_def c2_def c1_def c0_def b_def Let_def)
  have co: "co_unclean_detection (cl_config c0)" "\<not> co_native_crash (cl_config c0)"
    using assms(2,3) c0 by (simp_all add: client_config_def)
  note one = configured [OF assms(1) co, folded c1_def, unfolded c0] and two = configured_outside [OF co(2), of mc, folded c1_def, unfolded c0]
  have three: "cl_config c1 = client_config e mc op" "wk_sidecars c1 = sidecar_configure dir (mc_sidecar_dirs_ok mc)" "wk_queue c1 = []"
    using one c0 by (simp_all add: dir_def)
  have marker: "cl_marker c1 = Some (dir @ [marker_name])"
    using assms(1) c0 by (simp add: c1_def configure_storage_def Let_def case_prod_unfold marker_configure_def dir_def)
  have four: "cl_config c2 = cl_config c1" "wk_sidecars c2 = wk_sidecars c1" "wk_queue c2 = wk_queue c1"
    using acquire_frame [of e mc c1] by (simp_all add: c2_def)
  have scan: "sidecar_scan (wk_sidecars c3) (wk_disk c3) = sidecar_scan (sidecar_configure dir (mc_sidecar_dirs_ok mc)) fs"
    using scan_outside [of dir "wk_disk c2" fs "mc_sidecar_dirs_ok mc"] acquired_outside [where c = c1 and e = e and mc = mc] two three four
    by (simp add: c3_def c2_def dir_def)
  have jobs: "wk_queue (fold enqueue js c3) = last_n 256 js" for js
    using outbound.contents_fold [of c3 js] three four by (simp add: c3_def queue_ok_def max_queue_size_def)
  have "cl_config c3 = client_config e mc op" using three four by (simp add: c3_def)
  then have "wk_queue c = wk_queue (fold enqueue (map (restored_job (co_endpoint (client_config e mc op)))
      (sidecar_scan (sidecar_configure dir (mc_sidecar_dirs_ok mc)) fs)) c3)"
    by (simp only: c drain_sidecars_def restored_queue(1) scan)
  then show "wk_queue c = restored_jobs_of e mc op fs"
    by (simp only: jobs restored_jobs_of_def Let_def dir_def)
  show "cl_marker c = Some (dir @ [marker_name])"
    using marker acquired_outside(3) [where c = c1 and e = e and mc = mc] by (simp add: c drain_sidecars_def restored_queue c3_def c2_def worker_start_def)
  show "wk_sidecars c = sidecar_configure dir (mc_sidecar_dirs_ok mc)"
    using three four by (simp add: c drain_sidecars_def restored_queue c3_def)
  show "flags (wk_disk c) = flags fs"
    using acquired_outside [where c = c1 and e = e and mc = mc] two by (simp add: c drain_sidecars_def restored_queue c3_def c2_def)
qed

text \<open>The marker of the session that starts, and that tracking leaves it on the disk whatever it reports.\<close>

definition own_marker :: "env \<Rightarrow> config \<Rightarrow> string" where
  "own_marker e co =
    marker_text \<lparr>md_session_id = co_session_id co, md_started_at_iso = en_iso e, md_build_version = co_build_version co,
      md_os = co_os co, md_arch = co_arch co\<rparr>"

lemma ingest_other_lookup:
  assumes "\<forall>pending. wk_sidecars c = Some pending \<longrightarrow> length p \<le> length pending"
  shows "fs_lookup (wk_disk (enqueue_ingest e path body dur kind rl prev c)) p = fs_lookup (wk_disk c) p"
proof -
  have "fs_lookup (snd (sidecar_write kind body name (wk_sidecars c) (wk_disk c))) p = fs_lookup (wk_disk c) p" for name
    using assms by (auto simp: sidecar_write_def fs_write_def Let_def disk.lookup_put kind_dir_def split: option.split)
  then show ?thesis
    by (simp add: enqueue_ingest_def write_sidecar_def enqueue_def Let_def case_prod_unfold)
qed

lemma report_other_lookup:
  assumes "\<forall>pending. wk_sidecars c = Some pending \<longrightarrow> length p \<le> length pending"
  shows "fs_lookup (wk_disk (report_unclean_shutdown e d c)) p = fs_lookup (wk_disk c) p"
  using assms
  by (simp add: report_unclean_shutdown_def report_native_crash_def Let_def ingest_other_lookup split: option.split)

lemma tracked_marker:
  fixes c :: client
  assumes "\<not> cl_tracking_started c" "co_unclean_detection (cl_config c)" "cl_storage_available c"
    and "cl_marker c = Some p" "fl_writable (wk_disk c) p"
    and "\<forall>pending. wk_sidecars c = Some pending \<longrightarrow> length p \<le> length pending"
  shows "fs_lookup (wk_disk (start_session_tracking e c)) p = Some (own_marker e (cl_config c))"
proof -
  define v where "v = c\<lparr>cl_tracking_started := True,
    wk_disk := marker_write \<lparr>md_session_id = co_session_id (cl_config c), md_started_at_iso = en_iso e,
      md_build_version = co_build_version (cl_config c), md_os = co_os (cl_config c), md_arch = co_arch (cl_config c)\<rparr>
      (cl_marker c) (wk_disk c)\<rparr>"
  have v: "fs_lookup (wk_disk v) p = Some (own_marker e (cl_config c))" "wk_sidecars v = wk_sidecars c"
    using assms(4,5) by (simp_all add: v_def marker_write_def fs_write_def own_marker_def disk.lookup_put)
  have "start_session_tracking e c = (case cl_previous_marker c of None \<Rightarrow> v
      | Some previous \<Rightarrow> report_unclean_shutdown e previous (v\<lparr>cl_previous_marker := None\<rparr>))"
    using assms(1-3) by (simp add: start_session_tracking_def v_def Let_def split: option.split)
  then show ?thesis
    using v assms(6) by (simp add: report_other_lookup split: option.split)
qed

lemma started_marked:
  assumes "client_init e mc op g (new_client fs) = Some (OK, g', c)"
    and "mc_dir_ok mc" "op_enable_unclean_detection op" "\<not> op_enable_native_crash op" "op_consent_granted op"
    and "p = co_data_dir (client_config e mc op) @ [marker_name]" "fl_writable fs p"
  shows "fs_lookup (wk_disk c) p = Some (own_marker e (client_config e mc op))"
proof -
  let ?s = "started_client e mc op fs"
  note facts = started_facts [OF assms(2-4), where e = e and fs = fs]
  note exact = started_exact [OF assms(2-4), where e = e and fs = fs]
  have "c = start_session_tracking e ?s" using init_started [OF assms(1,4)] facts(5) assms(5) by simp
  moreover have "co_unclean_detection (cl_config ?s)" using assms(3) facts(2) by (simp add: client_config_def)
  moreover have "\<forall>pending. wk_sidecars ?s = Some pending \<longrightarrow> length p \<le> length pending"
    using exact(3) assms(6) by (auto simp: sidecar_configure_def split: if_splits)
  moreover have "fl_writable (wk_disk ?s) p" using exact(4) assms(7) by (simp add: flags_def)
  ultimately show ?thesis
    using tracked_marker [of ?s p e] facts(1-3) exact(2) assms(6) by simp
qed

text \<open>A start that finds no marker takes up what is on disk and nothing else, and tracks itself.\<close>

lemma unmarked_start:
  assumes "client_init e mc op g (new_client fs) = Some (OK, g', c)"
    and "mc_dir_ok mc" "op_enable_unclean_detection op" "\<not> op_enable_native_crash op"
    and "fs_lookup fs (co_data_dir (client_config e mc op) @ [marker_name]) = None"
  shows "wk_queue c = restored_jobs_of e mc op fs" "cl_previous_marker c = None"
proof -
  let ?s = "started_client e mc op fs"
  note facts = started_facts [OF assms(2-4), where e = e and fs = fs]
  note exact = started_exact [OF assms(2-4), where e = e and fs = fs]
  have none: "cl_previous_marker ?s = None" using facts(6) [OF assms(5)] by simp
  then have "\<not> due_report ?s" by (simp add: due_report_def)
  then have "wk_queue c = wk_queue ?s"
    using init_started [OF assms(1,4)] not_due_stays by (auto split: if_splits)
  with exact(1) show "wk_queue c = restored_jobs_of e mc op fs" by simp
  have "cl_previous_marker (start_session_tracking e ?s) = None"
    using none by (simp add: start_session_tracking_def Let_def)
  with none show "cl_previous_marker c = None" using init_started [OF assms(1,4)] by (simp split: if_splits)
qed

lemma destroy_flags: "flags (wk_disk (destroy_end c)) = flags (wk_disk c)"
  by (simp add: destroy_end_def marker_remove_def split: option.split)

text \<open>C20. A clean shutdown is not a crash: after the last step of the destructor, on a disk that lets the
  marker be deleted, the next launch with any options and consent queues exactly what it finds in
  the sidecar files, the newest 256 of them, and no report of its own; it has taken up no earlier session, so
  that no later grant of consent reports one; and with consent, where the marker can be written,
  it leaves the marker of its own session.\<close>

theorem clean_shutdown_not_reported:
  assumes "client_init e mc op g (new_client (wk_disk (destroy_end c0))) = Some (OK, g', c)"
    and "mc_dir_ok mc" "op_enable_unclean_detection op" "\<not> op_enable_native_crash op"
    and "cl_storage_available c0" "p = co_data_dir (client_config e mc op) @ [marker_name]" "cl_marker c0 = Some p"
    and "fl_removable (wk_disk c0) p"
  shows "wk_queue c = restored_jobs_of e mc op (wk_disk (destroy_end c0)) \<and> cl_previous_marker c = None \<and>
    (op_consent_granted op \<and> fl_writable (wk_disk c0) p \<longrightarrow>
       fs_lookup (wk_disk c) p = Some (own_marker e (client_config e mc op)))"
proof -
  have "fs_lookup (wk_disk (destroy_end c0)) p = None"
    using assms(5,7,8) by (simp add: destroy_end_def marker_remove_def disk.lookup_del)
  note start = unmarked_start [OF assms(1-4) this [unfolded assms(6)]]
  have "fl_writable (wk_disk (destroy_end c0)) = fl_writable (wk_disk c0)"
    using destroy_flags [of c0] by (simp add: flags_def)
  with start started_marked [OF assms(1-4) _ assms(6)] show ?thesis by simp
qed

theorem clean_shutdown_not_reported_witness:
  "let c = snd (snd (the (client_init now_env some_machine some_options idle_handler
       (new_client (wk_disk (destroy_end (live_client\<lparr>cl_marker := Some [''d'', marker_name], wk_disk := crashed_disk\<rparr>)))))))
   in wk_queue c = [] \<and> cl_previous_marker c = None \<and>
      fs_lookup (wk_disk c) [''d'', marker_name] = Some (own_marker now_env (client_config now_env some_machine some_options))"
proof -
  let ?c0 = "live_client\<lparr>cl_marker := Some [''d'', marker_name], wk_disk := crashed_disk\<rparr>"
  have "fl_files (wk_disk (destroy_end ?c0)) = []"
    by (simp add: destroy_end_def marker_remove_def fs_remove_def crashed_disk_def open_store_def)
  then have none: "restored_jobs_of now_env some_machine some_options (wk_disk (destroy_end ?c0)) = []"
    by (simp add: restored_jobs_of_def sidecar_scan_def sidecar_configure_def scan_kind_def fs_list_def all_kinds_def Let_def
        last_n_def)
  have dir: "[''d'', marker_name] = co_data_dir (client_config now_env some_machine some_options) @ [marker_name]"
    by (simp add: some_dir)
  have c0: "cl_storage_available ?c0" "cl_marker ?c0 = Some [''d'', marker_name]" "fl_removable (wk_disk ?c0) [''d'', marker_name]"
    "fl_writable (wk_disk ?c0) [''d'', marker_name]"
    by (simp_all add: crashed_disk_def open_store_def)
  from clean_shutdown_not_reported [OF some_init some_flags(1-3) c0(1) dir c0(2,3), of idle_handler] c0(4) some_flags(4)
  show ?thesis unfolding Let_def none by blast
qed

section \<open>Identity\<close>

lemma derive_valid: "is_valid (derive salt src)"
proof -
  have "list_all id_char (hex64 h)" for h
    using hex64_lower [of h] lower_hex_id_char by (auto simp: list_all_iff)
  then show ?thesis by (simp add: derive_def Let_def is_valid_def id_prefix_def max_id_length_def)
qed

lemma id_char_plain: "id_char c \<Longrightarrow> c \<noteq> CHR 0x0A \<and> c \<noteq> CHR 0x0D \<and> c \<noteq> CHR '' ''"
  by (auto simp: id_char_def char_le_iff)

lemma valid_chars:
  assumes "is_valid ident" "c \<in> set ident"
  shows "c \<noteq> CHR 0x0A \<and> c \<noteq> CHR 0x0D \<and> c \<noteq> CHR '' ''"
proof -
  have "c \<in> set (take (length id_prefix) ident) \<union> set (drop (length id_prefix) ident)"
    using assms(2) by (metis set_append append_take_drop_id)
  then consider "c \<in> set id_prefix" | "id_char c"
    using assms(1) by (auto simp: is_valid_def list_all_iff split: if_splits)
  then show ?thesis by cases (auto simp: id_prefix_def dest: id_char_plain)
qed

lemma valid_reads_back: "is_valid ident \<Longrightarrow> drop_line_end (first_line ident) = ident"
proof -
  assume v: "is_valid ident"
  have "takeWhile (\<lambda>c. c \<noteq> CHR 0x0A) ident = ident"
    using valid_chars [OF v] by (simp add: takeWhile_eq_all_conv)
  moreover have "dropWhile (\<lambda>c. c = CHR 0x0A \<or> c = CHR 0x0D \<or> c = CHR '' '') (rev ident) = rev ident"
    using valid_chars [OF v, of "last ident"] v
    by (cases ident rule: rev_cases) (auto simp: is_valid_def)
  ultimately show ?thesis unfolding first_line_def drop_line_end_def by (simp only: rev_rev_ident)
qed

lemma persisted_valid:
  assumes "read_persisted_identity c \<noteq> []"
  shows "is_valid (read_persisted_identity c) \<and>
    (\<exists>b. fs_lookup (wk_disk c) (co_data_dir (cl_config c) @ [identity_file_name]) = Some b \<and>
       drop_line_end (first_line b) = read_persisted_identity c)"
proof -
  let ?p = "co_data_dir (cl_config c) @ [identity_file_name]"
  have "cl_storage_available c" using assms unfolding read_persisted_identity_def by (rule contrapos_np) (rule if_P)
  then have read: "read_persisted_identity c = (case fs_read (wk_disk c) ?p of None \<Rightarrow> []
      | Some b \<Rightarrow> if is_valid (drop_line_end (first_line b)) then drop_line_end (first_line b) else [])"
    unfolding read_persisted_identity_def Let_def by (simp only: if_False not_not simp_thms)
  with assms obtain b where b: "fs_read (wk_disk c) ?p = Some b"
    by (cases "fs_read (wk_disk c) ?p") (simp_all only: option.case simp_thms)
  then have "read_persisted_identity c = (if is_valid (drop_line_end (first_line b)) then drop_line_end (first_line b) else [])"
    using read by (simp only: option.case)
  moreover have "fs_lookup (wk_disk c) ?p = Some b" using b by (simp add: fs_read_def split: if_splits)
  ultimately show ?thesis using assms by (cases "is_valid (drop_line_end (first_line b))") (simp_all only: if_True if_False simp_thms, blast)
qed

text \<open>C21. One player, one provisional id: once a launch has acquired an id and could save it, every later
  launch on the same data directory takes up the same id and writes nothing, whatever its ingest
  token, machine id or random source; the id always passes the gate of the file's reader.\<close>

theorem identity_stable:
  assumes "cl_storage_available c1" "fl_writable (wk_disk c1) p" "fl_readable (wk_disk c1) p"
    and "p = co_data_dir (cl_config c1) @ [identity_file_name]"
    and "cl_storage_available c2" "co_data_dir (cl_config c2) = co_data_dir (cl_config c1)"
    and "fl_readable (wk_disk c2) p" "fs_lookup (wk_disk c2) p = fs_lookup (wk_disk (acquire_device_identity e1 mc1 c1)) p"
  shows "id_provisional (cl_identity (acquire_device_identity e2 mc2 c2)) =
      id_provisional (cl_identity (acquire_device_identity e1 mc1 c1)) \<and>
    is_valid (id_provisional (cl_identity (acquire_device_identity e1 mc1 c1))) \<and>
    wk_disk (acquire_device_identity e2 mc2 c2) = wk_disk c2"
proof -
  let ?a = "acquire_device_identity e1 mc1 c1"
  have saved: "is_valid (id_provisional (cl_identity ?a)) \<and>
      (\<exists>t. fs_lookup (wk_disk ?a) p = Some t \<and> drop_line_end (first_line t) = id_provisional (cl_identity ?a))"
  proof (cases "read_persisted_identity c1 = []")
    case True
    define i where "i = derive (co_token (cl_config c1))
      (let source = read_machine_id (mc_os mc1) (mc_native_id mc1) (wk_disk c1)
       in if source = [] then random_session_id (en_random e1) else source)"
    have v: "is_valid i" by (simp add: i_def derive_valid)
    have "?a = (persist_identity i c1)\<lparr>cl_identity := (cl_identity (persist_identity i c1))\<lparr>id_provisional := i\<rparr>\<rparr>"
      using True by (simp add: acquire_device_identity_def Let_def i_def)
    then have "id_provisional (cl_identity ?a) = i" "fs_lookup (wk_disk ?a) p = Some i"
      using assms(1,2,4) by (simp_all add: persist_identity_def fs_write_def disk.lookup_put)
    then show ?thesis using v valid_reads_back by simp
  next
    case False
    define i where "i = read_persisted_identity c1"
    have a: "?a = c1\<lparr>cl_identity := (cl_identity c1)\<lparr>id_provisional := i\<rparr>\<rparr>"
      using False by (simp add: acquire_device_identity_def Let_def i_def)
    have "is_valid i \<and> (\<exists>b. fs_lookup (wk_disk c1) p = Some b \<and> drop_line_end (first_line b) = i)"
      unfolding i_def assms(4) by (rule persisted_valid [OF False])
    then show ?thesis by (simp add: a)
  qed
  then obtain b where t: "fs_lookup (wk_disk c2) p = Some b"
    "drop_line_end (first_line b) = id_provisional (cl_identity ?a)" "is_valid (id_provisional (cl_identity ?a))"
    using assms(8) by auto
  then have "read_persisted_identity c2 = id_provisional (cl_identity ?a)"
    using assms(4-7) by (simp add: read_persisted_identity_def fs_read_def Let_def)
  moreover have "id_provisional (cl_identity ?a) \<noteq> []" using t(3) by (auto simp: is_valid_def)
  ultimately show ?thesis using t(3) by (simp add: acquire_device_identity_def Let_def)
qed

theorem identity_stable_witness:
  "let a = acquire_device_identity now_env some_machine live_client
   in id_provisional (cl_identity (acquire_device_identity now_env some_machine
        (a\<lparr>cl_config := (cl_config a)\<lparr>co_token := ''rotated''\<rparr>\<rparr>))) = id_provisional (cl_identity a)"
proof -
  let ?a = "acquire_device_identity now_env some_machine live_client"
  let ?b = "?a\<lparr>cl_config := (cl_config ?a)\<lparr>co_token := ''rotated''\<rparr>\<rparr>"
  have flags: "fl_readable (wk_disk ?a) p" for p
    by (simp add: acquire_device_identity_def persist_identity_def Let_def case_prod_unfold fs_write_def open_store_def)
  have frame: "cl_storage_available ?a" "cl_config ?a = cl_config live_client"
    using acquire_frame [of now_env some_machine live_client] by simp_all
  have "id_provisional (cl_identity (acquire_device_identity now_env some_machine ?b)) = id_provisional (cl_identity ?a)"
    by (rule identity_stable [OF _ _ _ refl, THEN conjunct1, of live_client])
      (simp_all add: frame flags, simp_all add: open_store_def)
  then show ?thesis unfolding Let_def .
qed

end
