(* ===== verification/Sdk_Process.thy ===== *)
theory Sdk_Process
  imports Sdk_Session
begin

text \<open>
  The C interface over a whole process: what the pre-init store replays, when a buffered denial of
  consent takes effect, and the invariant of the process state under every entry point.
\<close>

section \<open>Replay equals the live calls\<close>

datatype track_call =
    Event_Call cstr "cstr list option" "cstr list option" nat
  | Metric_Call cstr double cstr

text \<open>The call through the C interface, the same call on a live client, and what makes it valid.\<close>

fun api_track :: "env \<Rightarrow> track_call \<Rightarrow> process \<Rightarrow> process" where
  "api_track e (Event_Call name keys vals n) p = snd (tombstone_track_event e name keys vals n p)"
| "api_track e (Metric_Call name v unit) p = tombstone_track_metric e name v unit p"

fun live_track :: "env \<Rightarrow> track_call \<Rightarrow> client \<Rightarrow> client" where
  "live_track e (Event_Call name keys vals n) c = snd (track_event e name keys vals n c)"
| "live_track e (Metric_Call name v unit) c = snd (track_metric e name v unit c)"

fun valid_track :: "track_call \<Rightarrow> bool" where
  "valid_track (Event_Call name keys vals n) \<longleftrightarrow> \<not> cstr_blank name \<and> \<not> arrays_missing keys vals n"
| "valid_track (Metric_Call name v unit) \<longleftrightarrow> \<not> cstr_blank name \<and> isfinite v"

fun buffered_track :: "track_call \<Rightarrow> track" where
  "buffered_track (Event_Call name keys vals n) =
     Track_Event (cstr_or_empty name) (usable_attributes (the_array keys n) (the_array vals n))"
| "buffered_track (Metric_Call name v unit) = Track_Metric (cstr_or_empty name) v (cstr_or_empty unit)"

definition fresh_process :: "handler_state \<Rightarrow> file_system \<Rightarrow> process" where
  "fresh_process g fs = \<lparr>ps_client = None, ps_preinit = empty_preinit, ps_handler = g, ps_disk = fs\<rparr>"

lemma usable_again:
  "usable_attributes (map (Some \<circ> fst) (usable_attributes keys vals)) (map (Some \<circ> snd) (usable_attributes keys vals)) =
    usable_attributes keys vals"
proof -
  have "usable_attributes (map (Some \<circ> fst) kvs) (map (Some \<circ> snd) kvs) = kvs" if "\<forall>(k, v) \<in> set kvs. k \<noteq> []" for kvs
    using that by (induction kvs) (auto simp: usable_attributes_def cstr_blank_def cstr_or_empty_def)
  moreover have "\<forall>(k, v) \<in> set (usable_attributes keys vals). k \<noteq> []"
    by (auto simp: usable_attributes_def cstr_blank_def cstr_or_empty_def split: option.splits)
  ultimately show ?thesis by blast
qed

lemma replay_live: "valid_track x \<Longrightarrow> replay_track e (buffered_track x) c = live_track e x c"
proof (cases x)
  case (Event_Call name keys vals n)
  assume "valid_track x"
  then have "\<not> cstr_blank (Some (cstr_or_empty name))" "cstr_or_empty (Some (cstr_or_empty name)) = cstr_or_empty name"
    by (auto simp: Event_Call cstr_blank_def cstr_or_empty_def split: option.splits)
  moreover have "\<not> arrays_missing (Some a) (Some b) k" for a b k by (simp add: arrays_missing_def)
  moreover have "the_array (Some (map f ys)) (length ys) = map f ys" for f and ys :: "(string \<times> string) list"
    by (simp add: the_array_def)
  ultimately show ?thesis
    using \<open>valid_track x\<close> by (simp add: Event_Call track_event_def usable_again)
next
  case (Metric_Call name v unit)
  assume "valid_track x"
  then have "\<not> cstr_blank (Some (cstr_or_empty name))" "cstr_or_empty (Some (cstr_or_empty name)) = cstr_or_empty name"
    "cstr_or_empty (Some (cstr_or_empty unit)) = cstr_or_empty unit"
    by (auto simp: Metric_Call cstr_blank_def cstr_or_empty_def split: option.splits)
  then show ?thesis
    using \<open>valid_track x\<close> by (simp add: Metric_Call track_metric_def)
qed

lemma api_track_buffers:
  assumes "ps_client p = None"
  shows "ps_client (api_track e x p) = None \<and>
    pi_tracks (ps_preinit (api_track e x p)) =
      (if valid_track x \<and> length (pi_tracks (ps_preinit p)) < max_tracks
       then pi_tracks (ps_preinit p) @ [buffered_track x] else pi_tracks (ps_preinit p))"
  using assms
  by (cases x) (auto simp: tombstone_track_event_def tombstone_track_metric_def with_client_or_buffer_def
      preinit_add_event_def preinit_add_metric_def Let_def)

lemma api_tracks_buffer:
  "ps_client p = None \<Longrightarrow> length (pi_tracks (ps_preinit p)) \<le> max_tracks \<Longrightarrow>
    pi_tracks (ps_preinit (fold (api_track e) xs p)) =
      take max_tracks (pi_tracks (ps_preinit p) @ map buffered_track (filter valid_track xs))"
proof (induction xs arbitrary: p)
  case (Cons x xs)
  note one = api_track_buffers [OF Cons.prems(1), of e x]
  have "length (pi_tracks (ps_preinit (api_track e x p))) \<le> max_tracks"
    using one Cons.prems(2) by simp
  with one Cons.IH [of "api_track e x p"] Cons.prems(2) show ?case
    by (cases "length (pi_tracks (ps_preinit p)) < max_tracks") (auto simp: take_Cons')
qed simp

text \<open>C22. Calls made before \<open>init\<close> count as if made after it: replaying what the store kept of any
  sequence of event and metric calls does to a client exactly what the same calls do live, in the
  same order, for the first 128 valid ones; the invalid ones are refused in both cases.\<close>

theorem preinit_replay_faithful:
  "fold (replay_track e) (pi_tracks (ps_preinit (fold (api_track e') xs (fresh_process g fs)))) c =
    fold (live_track e) (take 128 (filter valid_track xs)) c"
proof -
  have "pi_tracks (ps_preinit (fold (api_track e') xs (fresh_process g fs))) =
      map buffered_track (take 128 (filter valid_track xs))"
    using api_tracks_buffer [of "fresh_process g fs" e' xs]
    by (simp add: fresh_process_def empty_preinit_def max_tracks_def take_map)
  moreover have "fold (replay_track e) (map buffered_track ys) c = fold (live_track e) ys c"
    if "\<forall>y \<in> set ys. valid_track y" for ys
    using that by (induction ys arbitrary: c) (simp_all add: replay_live)
  moreover have "valid_track y" if "y \<in> set (take 128 (filter valid_track xs))" for y
    using in_set_takeD [OF that] by simp
  ultimately show ?thesis by metis
qed

text \<open>C37. A denial of consent made before \<open>init\<close> comes too late for the recovery report: with the consent
  option at its default, a previous marker on disk and a buffered denial, \<open>tombstone_init\<close> leaves a
  client without consent whose queue nevertheless holds the crash report of the dead session,
  ready to be sent.\<close>

theorem preinit_denial_comes_late:
  assumes "ps_client p = None" "ps_preinit p = preinit_set_consent False empty_preinit"
    and "tombstone_init e mc (Some op) p = Some (OK, p')"
    and "mc_dir_ok mc" "op_enable_unclean_detection op" "\<not> op_enable_native_crash op" "op_consent_granted op"
    and "fs_lookup (ps_disk p) (co_data_dir (client_config e mc op) @ [marker_name]) = Some (marker_text d)"
    and "fl_readable (ps_disk p) (co_data_dir (client_config e mc op) @ [marker_name])" "md_session_id d \<noteq> []"
    and "\<forall>q. q \<noteq> [] \<and> butlast q = kind_dir (co_data_dir (client_config e mc op) @ [''pending'']) Crash \<longrightarrow>
           fs_lookup (ps_disk p) q = None"
  shows "\<exists>c payload. ps_client p' = Some c \<and> \<not> cl_consent c \<and>
    uj_body (last (wk_queue c)) = build_crash_json (en_separator e) payload \<and> cp_signature payload = unclean_signature"
proof -
  obtain g c where init: "client_init e mc op (ps_handler p) (new_client (ps_disk p)) = Some (OK, g, c)"
    and p': "ps_client p' = Some (replay_preinit e (ps_preinit p) c)"
    using assms(1,3) by (auto simp: tombstone_init_def split: option.splits if_splits)
  from dead_session [OF init assms(4-11)] obtain payload where
    "uj_body (last (wk_queue c)) = build_crash_json (en_separator e) payload" "cp_signature payload = unclean_signature"
    by blast
  moreover have "replay_preinit e (ps_preinit p) c = snd (set_consent e False c)"
    by (simp add: replay_preinit_def assms(2) preinit_set_consent_def empty_preinit_def)
  moreover have "wk_queue (snd (set_consent e False c)) = wk_queue c" "\<not> cl_consent (snd (set_consent e False c))"
    by (simp_all add: set_consent_def Let_def)
  ultimately show ?thesis using p' by auto
qed

lemma init_ok:
  "ps_client p = None \<Longrightarrow> client_init e mc op (ps_handler p) (new_client (ps_disk p)) = Some (OK, g, c) \<Longrightarrow>
    tombstone_init e mc (Some op) p = Some (OK, snd (the (tombstone_init e mc (Some op) p)))"
  by (simp add: tombstone_init_def)

lemma denied_init:
  defines "p \<equiv> snd (tombstone_set_consent now_env 0 (fresh_process idle_handler crashed_disk))"
  shows "ps_client p = None" "ps_preinit p = preinit_set_consent False empty_preinit" "ps_disk p = crashed_disk"
    "tombstone_init now_env some_machine (Some some_options) p =
       Some (OK, snd (the (tombstone_init now_env some_machine (Some some_options) p)))"
proof -
  show p: "ps_client p = None" "ps_preinit p = preinit_set_consent False empty_preinit" "ps_disk p = crashed_disk"
    by (simp_all add: p_def tombstone_set_consent_def with_client_or_buffer_def fresh_process_def)
  show "tombstone_init now_env some_machine (Some some_options) p =
       Some (OK, snd (the (tombstone_init now_env some_machine (Some some_options) p)))"
    by (rule init_ok [OF p(1) some_init])
qed

theorem preinit_denial_comes_late_witness:
  "\<exists>c. ps_client (snd (the (tombstone_init now_env some_machine (Some some_options)
      (snd (tombstone_set_consent now_env 0 (fresh_process idle_handler crashed_disk)))))) = Some c \<and>
     \<not> cl_consent c \<and> (\<exists>payload. uj_body (last (wk_queue c)) = build_crash_json ''.'' payload)"
proof -
  let ?p = "snd (tombstone_set_consent now_env 0 (fresh_process idle_handler crashed_disk))"
  have disk: "fs_lookup (ps_disk ?p) (co_data_dir (client_config now_env some_machine some_options) @ [marker_name]) =
      Some (marker_text old_marker)"
    "\<forall>q. q \<noteq> [] \<and> butlast q = kind_dir (co_data_dir (client_config now_env some_machine some_options) @ [''pending'']) Crash \<longrightarrow>
      fs_lookup (ps_disk ?p) q = None"
    unfolding denied_init(3) by (auto simp: some_dir crashed_disk_def open_store_def fs_lookup_def kind_dir_def)
  have readable: "fl_readable (ps_disk ?p) q" "md_session_id old_marker \<noteq> []" for q
    unfolding denied_init(3) by (simp_all add: some_flags old_marker_def)
  from preinit_denial_comes_late [OF denied_init(1,2,4) some_flags(1-4) disk(1) readable disk(2)] show ?thesis
    by (auto simp: now_env_def)
qed


section \<open>The process\<close>

text \<open>
  One call of the C interface by any thread, or what the SDK's own threads do between calls; a call may
  find a request under way and a heartbeat half built. \<open>init\<close> starts the threads, and a \<open>flush\<close> lets them
  run while the caller waits.
\<close>

inductive api_step :: "process \<times> threads \<Rightarrow> process \<times> threads \<Rightarrow> bool" where
  api_init: "tombstone_init e mc options p = Some (r, p') \<Longrightarrow> api_step (p, t) (p', if r = OK then (None, Loop_Top) else t)"
| api_shutdown: "api_step (p, t) (snd (tombstone_shutdown e waited names p), (None, Loop_Top))"
| api_background: "ps_client p = Some c \<Longrightarrow> sdk_run c t evs c' t' \<Longrightarrow> api_step (p, t) (p\<lparr>ps_client := Some c'\<rparr>, t')"
| api_flush:
    "ps_client p = Some c \<Longrightarrow> sdk_run (flush_begin e c) t evs (waited (flush_begin e c)) t' \<Longrightarrow>
      api_step (p, t) (snd (tombstone_flush e waited p), t')"
| api_flush_early: "ps_client p = None \<Longrightarrow> api_step (p, t) (snd (tombstone_flush e waited p), t)"
| api_set_user: "api_step (p, t) (snd (tombstone_set_user user_id steam_id p), t)"
| api_set_consent: "api_step (p, t) (snd (tombstone_set_consent e granted p), t)"
| api_start_session: "api_step (p, t) (snd (tombstone_start_session p), t)"
| api_set_environment: "api_step (p, t) (snd (tombstone_set_environment environment p), t)"
| api_set_user_metadata: "api_step (p, t) (snd (tombstone_set_user_metadata keys vals n p), t)"
| api_set_server_info: "api_step (p, t) (snd (tombstone_set_server_info region hostname p), t)"
| api_mark_dedicated_server: "api_step (p, t) (snd (tombstone_mark_dedicated_server server_id region hostname p), t)"
| api_set_device: "api_step (p, t) (snd (tombstone_set_device device p), t)"
| api_set_match_context: "api_step (p, t) (tombstone_set_match_context server_id match_id p, t)"
| api_start_match: "api_step (p, t) (snd (snd (tombstone_start_match e writable cap p)), t)"
| api_end_match: "api_step (p, t) (tombstone_end_match p, t)"
| api_add_breadcrumb: "api_step (p, t) (snd (tombstone_add_breadcrumb e lvl message p), t)"
| api_track_event: "api_step (p, t) (snd (tombstone_track_event e name keys vals n p), t)"
| api_track_metric: "api_step (p, t) (tombstone_track_metric e name v unit p, t)"
| api_report_frame: "api_step (p, t) (tombstone_report_frame ms p, t)"
| api_report_crash: "api_step (p, t) (snd (tombstone_report_crash e sig hint trace al p), t)"
| api_report_bug: "api_step (p, t) (snd (tombstone_report_bug e category message al p), t)"
| api_log_line: "api_step (p, t) (snd (tombstone_log_line e lvl line p), t)"
| api_request_player_logs: "api_step (p, t) (tombstone_request_player_logs tt tv reason p, t)"
| api_on_anomalous_disconnect: "api_step (p, t) (tombstone_on_anomalous_disconnect user_id reason p, t)"
| api_set_sample_rate: "api_step (p, t) (tombstone_set_sample_rate name rate p, t)"
| api_set_level: "api_step (p, t) (tombstone_set_level e level_name p, t)"

text \<open>
  The well-formedness of the process: the pre-init store is bounded and is empty once there is a
  client, and the client's queue and jobs are within their bounds.
\<close>

definition process_ok :: "process \<Rightarrow> bool" where
  "process_ok p \<longleftrightarrow> preinit_ok (ps_preinit p) \<and>
    (\<forall>c. ps_client p = Some c \<longrightarrow> delivery_ok c \<and> ps_preinit p = empty_preinit)"

lemma core_ok: "delivery_ok (core c) \<longleftrightarrow> delivery_ok c"
  by (simp add: delivery_ok_def queue_ok_def)

definition threads_ok :: "threads \<Rightarrow> bool" where
  "threads_ok t \<longleftrightarrow> (\<forall>job. fst t = Some job \<longrightarrow> job_ok job)"

lemma idle_threads_ok [simp]: "threads_ok (None, b)"
  by (simp add: threads_ok_def)

lemma run_ok:
  assumes "sdk_run c t evs c' t'" "delivery_ok c" "threads_ok t"
  shows "delivery_ok c' \<and> threads_ok t'"
proof -
  obtain es where run: "worker_run (core c) (fst t) es (core c') (fst t')"
    by (rule sdk_run_refines [OF assms(1)])
  have "thread_ok (core c) (fst t)"
    using assms(2,3) unfolding thread_ok_def threads_ok_def core_ok by blast
  with thread_ok_run [OF run] have "thread_ok (core c') (fst t')" by blast
  then show ?thesis unfolding thread_ok_def threads_ok_def core_ok by blast
qed

lemma call_ok: "delivery_ok c \<Longrightarrow> delivery_ok (snd (client_call e op c))"
  by (rule run_ok [OF sdk_Cons [OF sdk_call sdk_Nil] _ idle_threads_ok, THEN conjunct1])

lemmas call_oks = call_ok [where op = "Op_User u s" for u s, simplified] call_ok [where op = "Op_Consent b" for b, simplified]
  call_ok [where op = Op_Start_Session, simplified] call_ok [where op = "Op_Environment v" for v, simplified]
  call_ok [where op = "Op_User_Metadata ks vs n" for ks vs n, simplified]
  call_ok [where op = "Op_Server_Info r h" for r h, simplified]
  call_ok [where op = "Op_Dedicated_Server i r h" for i r h, simplified]
  call_ok [where op = "Op_Device d" for d, simplified] call_ok [where op = "Op_Match_Context s m" for s m, simplified]
  call_ok [where op = Op_End_Match, simplified] call_ok [where op = "Op_Breadcrumb l m" for l m, simplified]
  call_ok [where op = "Op_Event nm ks vs n" for nm ks vs n, simplified]
  call_ok [where op = "Op_Metric nm v u" for nm v u, simplified] call_ok [where op = "Op_Frame ms" for ms, simplified]
  call_ok [where op = "Op_Crash sg hi tr al" for sg hi tr al, simplified]
  call_ok [where op = "Op_Bug ca me al" for ca me al, simplified] call_ok [where op = "Op_Log l m" for l m, simplified]
  call_ok [where op = "Op_Request_Logs tt tv rs" for tt tv rs, simplified]
  call_ok [where op = "Op_Sample_Rate nm ra" for nm ra, simplified] call_ok [where op = "Op_Level lv" for lv, simplified]
  call_ok [where op = Op_Flush_Begin, simplified]

lemma with_client_ok:
  "process_ok p \<Longrightarrow> (\<And>c. delivery_ok c \<Longrightarrow> delivery_ok (snd (f c))) \<Longrightarrow> process_ok (snd (with_client f p))"
  by (auto simp: process_ok_def with_client_def Let_def case_prod_unfold split: option.split)

lemma with_client_or_buffer_ok:
  "process_ok p \<Longrightarrow> (\<And>c. delivery_ok c \<Longrightarrow> delivery_ok (snd (f c))) \<Longrightarrow>
    (\<And>s. preinit_ok s \<Longrightarrow> preinit_ok (snd (b s))) \<Longrightarrow> process_ok (snd (with_client_or_buffer f b p))"
  by (auto simp: process_ok_def with_client_or_buffer_def Let_def case_prod_unfold split: option.split)

lemma preinit_sets_ok [simp]:
  "preinit_ok (preinit_set_user u s x) = preinit_ok x" "preinit_ok (preinit_set_consent g x) = preinit_ok x"
  "preinit_ok (request_start_session x) = preinit_ok x" "preinit_ok (preinit_set_environment v x) = preinit_ok x"
  "preinit_ok (preinit_set_user_metadata es x) = preinit_ok x"
  by (simp_all add: preinit_ok_def preinit_set_user_def preinit_set_consent_def request_start_session_def
      preinit_set_environment_def preinit_set_user_metadata_def)

lemma preinit_empty_ok [simp]: "preinit_ok empty_preinit" "preinit_clear s = empty_preinit"
  by (simp_all add: preinit_ok_def preinit_clear_def empty_preinit_def)

lemma fold_ok: "(\<And>x c. x \<in> set xs \<Longrightarrow> delivery_ok c \<Longrightarrow> delivery_ok (f x c)) \<Longrightarrow> delivery_ok c \<Longrightarrow> delivery_ok (fold f xs c)"
  by (induction xs arbitrary: c) auto

lemma replay_ok: "delivery_ok c \<Longrightarrow> delivery_ok (replay_preinit e s c)"
proof -
  have track: "delivery_ok (replay_track e t c)" if "delivery_ok c" for t c
    using that by (cases t) (simp_all add: call_oks)
  assume "delivery_ok c"
  then show ?thesis
    unfolding replay_preinit_def Let_def
    by (auto intro!: fold_ok track call_oks split: option.split)
qed


lemma moves_ok: "moves N g c c' \<Longrightarrow> delivery_ok c \<Longrightarrow> delivery_ok c'"
proof -
  assume "moves N g c c'" "delivery_ok c"
  then obtain es where "worker_run (core c) None es (core c') None" unfolding moves_def by blast
  from thread_ok_run [OF this] \<open>delivery_ok c\<close> show ?thesis by (simp add: thread_ok_def core_ok)
qed

lemma configure_queue: "wk_queue (configure_storage mc c) = wk_queue c"
  by (simp add: configure_storage_def Let_def case_prod_unfold)

lemma install_queue: "install_native mc g c = Some (g', c') \<Longrightarrow> wk_queue c' = wk_queue c"
  by (auto simp: install_native_def split: if_splits)

lemma restore_ok: "delivery_ok c \<Longrightarrow> delivery_ok (restore_sidecar r c)"
  unfolding restore_sidecar_def Let_def
  by (rule enqueue_ok) (auto simp: restored_job_def new_job_def elim: delivery_ok_queue)

lemma client_init_ok:
  assumes "client_init e mc op g (new_client fs) = Some (OK, g', c)"
  shows "delivery_ok c"
proof -
  have new: "delivery_ok v" if "wk_queue v = []" for v :: client
    using that by (simp add: delivery_ok_def queue_ok_def)
  have drained: "delivery_ok (drain_sidecars v)" if "wk_queue v = []" for v
    unfolding drain_sidecars_def by (rule fold_ok) (simp_all add: restore_ok new that)
  obtain v where v: "wk_queue v = []"
    and c: "c = (if cl_consent (drain_sidecars v) then start_session_tracking e (drain_sidecars v) else drain_sidecars v)"
  proof -
    from assms obtain u u' g'' where "install_native mc g u = Some (g'', u')" "wk_queue u = []"
      "c = (let c = drain_sidecars ((worker_start (en_now e) (acquire_device_identity e mc u'))\<lparr>cl_initialized := True\<rparr>)
            in if cl_consent c then start_session_tracking e c else c)"
      by (auto simp: client_init_def Let_def configure_queue new_client_def split: if_splits option.splits)
    moreover from this have "wk_queue (acquire_device_identity e mc u') = []"
      using acquire_frame [of e mc u'] install_queue by simp
    ultimately show ?thesis
      using that [of "(worker_start (en_now e) (acquire_device_identity e mc u'))\<lparr>cl_initialized := True\<rparr>"]
      by (simp add: Let_def)
  qed
  show ?thesis
    using drained [OF v] moves_ok [OF start_tracking_moves [of e UNIV]] by (simp add: c)
qed

lemma tombstone_init_process_ok:
  assumes "process_ok p" "tombstone_init e mc options p = Some (r, p')"
  shows "process_ok p'"
proof (cases "\<exists>op g c. options = Some op \<and> ps_client p = None \<and>
    client_init e mc op (ps_handler p) (new_client (ps_disk p)) = Some (OK, g, c)")
  case True
  then obtain op g c where "options = Some op" "ps_client p = None"
    "client_init e mc op (ps_handler p) (new_client (ps_disk p)) = Some (OK, g, c)" by blast
  with assms replay_ok [OF client_init_ok [OF this(3)]] show ?thesis
    by (auto simp: tombstone_init_def process_ok_def)
next
  case False
  with assms show ?thesis
    by (auto simp: tombstone_init_def process_ok_def split: option.splits if_splits)
qed

lemma flush_process_ok:
  assumes "process_ok p" "ps_client p = Some c" "delivery_ok (waited (flush_begin e c))"
  shows "process_ok (snd (tombstone_flush e waited p))"
  using assms by (auto simp: tombstone_flush_def with_client_def client_flush_def process_ok_def Let_def)

lemma api_step_ok: "api_step s s' \<Longrightarrow> process_ok (fst s) \<Longrightarrow> threads_ok (snd s) \<Longrightarrow> process_ok (fst s') \<and> threads_ok (snd s')"
proof (induction rule: api_step.induct)
  case (api_init e mc options p r p' t)
  then show ?case using tombstone_init_process_ok by simp
next
  case (api_shutdown p t e waited names)
  then show ?case by (simp add: tombstone_shutdown_def process_ok_def split: option.split)
next
  case (api_background p c t evs c' t')
  then show ?case using run_ok [OF api_background(2)] by (simp add: process_ok_def)
next
  case (api_flush p c e t evs waited t')
  then have "delivery_ok (flush_begin e c)" by (intro call_oks(21)) (simp add: process_ok_def)
  with api_flush run_ok [OF api_flush(2)] show ?case by (simp add: flush_process_ok)
next
  case (api_flush_early p t e waited)
  then show ?case by (simp add: tombstone_flush_def with_client_def)
next
  case (api_start_match p t e writable cap)
  have "delivery_ok c \<Longrightarrow> delivery_ok (snd (snd (start_match e writable cap c)))" for c
    by (rule moves_ok [OF setters_moves(9)])
  with api_start_match show ?case
    by (auto simp: tombstone_start_match_def process_ok_def case_prod_unfold Let_def split: option.split)
qed (auto simp: tombstone_set_user_def tombstone_set_consent_def tombstone_start_session_def
    tombstone_set_environment_def tombstone_set_user_metadata_def tombstone_set_server_info_def
    tombstone_mark_dedicated_server_def tombstone_set_device_def tombstone_set_match_context_def
    tombstone_end_match_def tombstone_add_breadcrumb_def tombstone_track_event_def tombstone_track_metric_def
    tombstone_report_frame_def tombstone_report_crash_def tombstone_report_bug_def tombstone_log_line_def
    tombstone_request_player_logs_def tombstone_on_anomalous_disconnect_def tombstone_set_sample_rate_def
    tombstone_set_level_def preinit_track_ok preinit_trail.ok_push
    intro!: with_client_ok with_client_or_buffer_ok call_oks)

text \<open>The process is well-formed whatever the game calls and whatever its threads are doing meanwhile:
  before \<open>init\<close> the store holds at most 64 breadcrumbs and 128 events and metrics; once there is a
  client the store is empty, its queue holds at most 256 jobs, every attempt number, of the queued
  jobs and of the one under way, is between 0 and 4, and a second \<open>init\<close> is refused and changes
  nothing.\<close>

theorem process_well_formed:
  assumes "api_step\<^sup>*\<^sup>* (fresh_process g fs, (None, Loop_Top)) (p, t)"
  shows "length (pi_breadcrumbs (ps_preinit p)) \<le> 64 \<and> length (pi_tracks (ps_preinit p)) \<le> 128 \<and>
    (\<forall>job. fst t = Some job \<longrightarrow> 0 \<le> uj_attempt job \<and> uj_attempt job \<le> 4) \<and>
    (\<forall>c. ps_client p = Some c \<longrightarrow>
       ps_preinit p = empty_preinit \<and> length (wk_queue c) \<le> 256 \<and>
       (\<forall>job \<in> set (wk_queue c). 0 \<le> uj_attempt job \<and> uj_attempt job \<le> 4) \<and>
       tombstone_init e mc (Some op) p = Some (Already_Initialized, p))"
proof -
  have "process_ok (fst s) \<and> threads_ok (snd s)" if "api_step\<^sup>*\<^sup>* (fresh_process g fs, (None, Loop_Top)) s" for s
    using that
  proof (induction rule: rtranclp_induct)
    case base
    show ?case by (simp add: process_ok_def fresh_process_def)
  next
    case (step s s')
    then show ?case using api_step_ok [OF step.hyps(2)] by blast
  qed
  from this [OF assms] have "process_ok p" "threads_ok t" by simp_all
  moreover have "job_ok job \<longleftrightarrow> 0 \<le> uj_attempt job \<and> uj_attempt job \<le> 4" for job
    by (auto simp: job_ok_def max_attempts_def)
  ultimately show ?thesis
    by (auto simp: process_ok_def threads_ok_def preinit_ok_def max_breadcrumbs_def max_tracks_def delivery_ok_def
        queue_ok_def max_queue_size_def tombstone_init_def)
qed

theorem process_well_formed_witness:
  "length (pi_tracks (ps_preinit (snd (tombstone_set_consent now_env 0 (fresh_process idle_handler crashed_disk))))) \<le> 128"
proof -
  have "api_step\<^sup>*\<^sup>* (fresh_process idle_handler crashed_disk, (None, Loop_Top))
      (snd (tombstone_set_consent now_env 0 (fresh_process idle_handler crashed_disk)), (None, Loop_Top))"
    by (rule r_into_rtranclp) (rule api_set_consent)
  from process_well_formed [OF this] show ?thesis by blast
qed

end
