(* ===== verification/Shared_Client.thy ===== *)
theory Shared_Client
  imports Sdk_Process
begin

text \<open>
  Who owns the client (\<^verbatim>\<open>src/tombstone_api.cpp\<close>). \<open>g_client\<close> is a shared pointer: an entry point copies it under
  \<open>g_client_mutex\<close> and acts on its copy outside, so that a call may still run on a client that
  \<open>tombstone_shutdown\<close> has taken away, and the last copy to go runs the destructor, on whatever thread that is. The
  objects live in a store from addresses, the copies held by running calls are a list, and all
  clients of the process share the disk. The entry points of \<open>Tombstone_Api\<close> are the calls that no
  other call overlaps.
\<close>

section \<open>Objects and references\<close>

record host =
  ho_clients :: "nat \<Rightarrow> client option"
  ho_fresh :: nat
  ho_current :: "nat option"
  ho_calls :: "nat list"
  ho_preinit :: preinit
  ho_handler :: handler_state
  ho_disk :: file_system

text \<open>An object as it is seen now: its disk is the shared one.\<close>

definition client_at :: "nat \<Rightarrow> host \<Rightarrow> client option" where
  "client_at k h = map_option (\<lambda>c. c\<lparr>wk_disk := ho_disk h\<rparr>) (ho_clients h k)"

definition put_client :: "nat \<Rightarrow> client \<Rightarrow> host \<Rightarrow> host" where
  "put_client k c h = h\<lparr>ho_clients := (ho_clients h)(k \<mapsto> c), ho_disk := wk_disk c\<rparr>"

definition client_snapshot :: "host \<Rightarrow> nat option \<times> host" where
  "client_snapshot h =
    (case ho_current h of None \<Rightarrow> (None, h) | Some k \<Rightarrow> (Some k, h\<lparr>ho_calls := k # ho_calls h\<rparr>))"

text \<open>A call acts through its copy; \<^const>\<open>None\<close> would be the use of a destroyed object.\<close>

definition run_action :: "nat \<Rightarrow> (client \<Rightarrow> result \<times> client) \<Rightarrow> host \<Rightarrow> (result \<times> host) option" where
  "run_action k action h =
    (case client_at k h of None \<Rightarrow> None | Some c \<Rightarrow> let (r, c) = action c in Some (r, put_client k c h))"

text \<open>The end of a copy: the last one destroys the object.\<close>

definition destroy_object :: "env \<Rightarrow> (client \<Rightarrow> client) \<Rightarrow> (nat \<Rightarrow> string) \<Rightarrow> nat \<Rightarrow> host \<Rightarrow> host" where
  "destroy_object e waited names k h =
    (case client_at k h of
       None \<Rightarrow> h
     | Some c \<Rightarrow> h\<lparr>ho_clients := (ho_clients h)(k := None), ho_disk := wk_disk (client_destroy e waited names c)\<rparr>)"

definition drop_reference :: "env \<Rightarrow> (client \<Rightarrow> client) \<Rightarrow> (nat \<Rightarrow> string) \<Rightarrow> nat \<Rightarrow> host \<Rightarrow> host" where
  "drop_reference e waited names k h =
    (let h = h\<lparr>ho_calls := remove1 k (ho_calls h)\<rparr> in
     if k \<in> set (ho_calls h) \<or> ho_current h = Some k then h else destroy_object e waited names k h)"

section \<open>The entry points\<close>

definition shared_with_client ::
    "env \<Rightarrow> (client \<Rightarrow> client) \<Rightarrow> (nat \<Rightarrow> string) \<Rightarrow> (client \<Rightarrow> result \<times> client) \<Rightarrow> host \<Rightarrow> (result \<times> host) option" where
  "shared_with_client e waited names action h =
    (case client_snapshot h of
       (None, h) \<Rightarrow> Some (Not_Initialized, h)
     | (Some k, h) \<Rightarrow> map_option (\<lambda>(r, h). (r, drop_reference e waited names k h)) (run_action k action h))"

text \<open>With the check repeated under the mutex: the buffer is used only while there is no client.\<close>

definition shared_with_client_or_buffer ::
    "env \<Rightarrow> (client \<Rightarrow> client) \<Rightarrow> (nat \<Rightarrow> string) \<Rightarrow> (client \<Rightarrow> result \<times> client) \<Rightarrow> (preinit \<Rightarrow> result \<times> preinit) \<Rightarrow>
      host \<Rightarrow> (result \<times> host) option" where
  "shared_with_client_or_buffer e waited names action buffer h =
    (case client_snapshot h of
       (None, h) \<Rightarrow> let (r, s) = buffer (ho_preinit h) in Some (r, h\<lparr>ho_preinit := s\<rparr>)
     | (Some k, h) \<Rightarrow> map_option (\<lambda>(r, h). (r, drop_reference e waited names k h)) (run_action k action h))"

text \<open>\<open>tombstone_init\<close> holds the mutex throughout and publishes last.\<close>

definition shared_init :: "env \<Rightarrow> machine \<Rightarrow> options option \<Rightarrow> host \<Rightarrow> (result \<times> host) option" where
  "shared_init e mc options h =
    (case options of
       None \<Rightarrow> Some (Invalid_Argument, h)
     | Some op \<Rightarrow>
         if ho_current h \<noteq> None then Some (Already_Initialized, h)
         else
           case client_init e mc op (ho_handler h) (new_client (ho_disk h)) of
             None \<Rightarrow> None
           | Some (r, g, c) \<Rightarrow>
               if r \<noteq> OK then Some (r, h\<lparr>ho_handler := g\<rparr>)
               else
                 let c = replay_preinit e (ho_preinit h) c in
                 Some (OK, (put_client (ho_fresh h) c h)\<lparr>ho_fresh := Suc (ho_fresh h), ho_current := Some (ho_fresh h),
                              ho_handler := g, ho_preinit := preinit_clear (ho_preinit h)\<rparr>))"

text \<open>The swap of \<open>tombstone_shutdown\<close>: the published copy becomes the call's own.\<close>

definition retire_client :: "host \<Rightarrow> nat option \<times> host" where
  "retire_client h =
    (case ho_current h of
       None \<Rightarrow> (None, h)
     | Some k \<Rightarrow> (Some k, h\<lparr>ho_current := None, ho_calls := k # ho_calls h\<rparr>))"

definition shared_shutdown :: "env \<Rightarrow> (client \<Rightarrow> client) \<Rightarrow> (nat \<Rightarrow> string) \<Rightarrow> host \<Rightarrow> result \<times> host" where
  "shared_shutdown e waited names h =
    (case retire_client h of (None, h) \<Rightarrow> (OK, h) | (Some k, h) \<Rightarrow> (OK, drop_reference e waited names k h))"

definition fresh_host :: "handler_state \<Rightarrow> file_system \<Rightarrow> host" where
  "fresh_host g fs = \<lparr>ho_clients = (\<lambda>_. None), ho_fresh = 0, ho_current = None, ho_calls = [],
     ho_preinit = empty_preinit, ho_handler = g, ho_disk = fs\<rparr>"

section \<open>Lifetime\<close>

text \<open>Any interleaving of the parts of calls, of starts and shutdowns, and of the threads of every object.\<close>

inductive host_step :: "host \<Rightarrow> host \<Rightarrow> bool" where
  host_snapshot: "host_step h (snd (client_snapshot h))"
| host_buffer: "ho_current h = None \<Longrightarrow> host_step h (h\<lparr>ho_preinit := s\<rparr>)"
| host_action: "k \<in> set (ho_calls h) \<Longrightarrow> run_action k action h = Some (r, h') \<Longrightarrow> host_step h h'"
| host_drop: "k \<in> set (ho_calls h) \<Longrightarrow> host_step h (drop_reference e waited names k h)"
| host_retire: "host_step h (snd (retire_client h))"
| host_init: "shared_init e mc options h = Some (r, h') \<Longrightarrow> host_step h h'"
| host_threads: "client_at k h = Some c \<Longrightarrow> sdk_run c t evs c' t' \<Longrightarrow> host_step h (put_client k c' h)"

definition referenced :: "host \<Rightarrow> nat \<Rightarrow> bool" where
  "referenced h k \<longleftrightarrow> ho_current h = Some k \<or> k \<in> set (ho_calls h)"

definition host_ok :: "host \<Rightarrow> bool" where
  "host_ok h \<longleftrightarrow> (\<forall>k. ho_clients h k \<noteq> None \<longleftrightarrow> referenced h k) \<and> (\<forall>k. referenced h k \<longrightarrow> k < ho_fresh h) \<and>
    (ho_current h \<noteq> None \<longrightarrow> ho_preinit h = empty_preinit)"

lemma put_client_frame [simp]:
  "ho_clients (put_client k c h) = (ho_clients h)(k \<mapsto> c)" "ho_disk (put_client k c h) = wk_disk c"
  "ho_fresh (put_client k c h) = ho_fresh h" "ho_current (put_client k c h) = ho_current h"
  "ho_calls (put_client k c h) = ho_calls h" "ho_preinit (put_client k c h) = ho_preinit h"
  "ho_handler (put_client k c h) = ho_handler h" "referenced (put_client k c h) = referenced h"
  by (simp_all add: put_client_def referenced_def fun_eq_iff)

lemma put_client_ok: "host_ok h \<Longrightarrow> referenced h k \<Longrightarrow> host_ok (put_client k c h)"
  by (auto simp: host_ok_def)

lemma client_at_calls [simp]: "client_at k (h\<lparr>ho_calls := ks\<rparr>) = client_at k h"
  by (simp add: client_at_def)

lemma client_at_None [simp]: "client_at k h = None \<longleftrightarrow> ho_clients h k = None"
  by (simp add: client_at_def)

lemma drop_reference_ok:
  assumes "host_ok h" "k \<in> set (ho_calls h)"
  shows "host_ok (drop_reference e waited names k h)"
proof -
  have "referenced h k" "ho_clients h k \<noteq> None" using assms by (auto simp: host_ok_def referenced_def)
  then obtain c where c: "client_at k h = Some c" by (auto simp: client_at_def)
  show ?thesis
  proof (cases "k \<in> set (remove1 k (ho_calls h)) \<or> ho_current h = Some k")
    case True
    then have "referenced (h\<lparr>ho_calls := remove1 k (ho_calls h)\<rparr>) j = referenced h j" for j
      by (cases "j = k") (auto simp: referenced_def)
    with True assms(1) show ?thesis by (simp add: drop_reference_def host_ok_def)
  next
    case False
    then have "referenced (h\<lparr>ho_calls := remove1 k (ho_calls h)\<rparr>) j \<longleftrightarrow> referenced h j \<and> j \<noteq> k" for j
      by (cases "j = k") (auto simp: referenced_def)
    moreover have "client_at k (h\<lparr>ho_calls := remove1 k (ho_calls h)\<rparr>) = Some c" using c by (simp add: client_at_def)
    ultimately show ?thesis
      using False assms(1) by (auto simp: drop_reference_def destroy_object_def host_ok_def referenced_def)
  qed
qed

lemma host_step_ok: "host_step h h' \<Longrightarrow> host_ok h \<Longrightarrow> host_ok h'"
proof (induction rule: host_step.induct)
  case (host_snapshot h)
  then show ?case by (auto simp: client_snapshot_def host_ok_def referenced_def split: option.split)
next
  case (host_buffer h s)
  then show ?case by (simp add: host_ok_def referenced_def)
next
  case (host_action k h action r h')
  then have "referenced h k" by (simp add: referenced_def)
  with host_action show ?case
    by (auto simp: run_action_def case_prod_unfold Let_def intro: put_client_ok split: option.splits)
next
  case (host_drop k h e waited names)
  then show ?case by (rule drop_reference_ok [rotated])
next
  case (host_retire h)
  then show ?case by (auto simp: retire_client_def host_ok_def referenced_def split: option.split)
next
  case (host_init e mc options h r h')
  then show ?case
    by (auto simp: shared_init_def host_ok_def referenced_def Let_def less_Suc_eq split: option.splits if_splits) blast+
next
  case (host_threads k h c t evs c' t')
  then have "referenced h k" by (auto simp: host_ok_def client_at_def)
  with host_threads show ?case by (auto intro: put_client_ok)
qed

lemma host_reachable_ok: "host_step\<^sup>*\<^sup>* (fresh_host g fs) h \<Longrightarrow> host_ok h"
proof (induction rule: rtranclp_induct)
  case base
  show ?case by (simp add: fresh_host_def host_ok_def referenced_def)
next
  case (step h h')
  then show ?case by (blast intro: host_step_ok)
qed

text \<open>C11. No call touches a destroyed client, none leaks and none is lost: however calls, shutdowns, starts and
  threads interleave, a client exists exactly as long as it is published or some call still holds it, so
  every action of a running call finds its object; when nothing is published and no call runs, every client's
  destructor has run; and while a client is published nothing lies in the pre-init store unreplayed.\<close>

theorem client_lives_while_referenced:
  assumes "host_step\<^sup>*\<^sup>* (fresh_host g fs) h"
  shows "(\<forall>k. ho_clients h k \<noteq> None \<longleftrightarrow> ho_current h = Some k \<or> k \<in> set (ho_calls h)) \<and>
    (\<forall>k \<in> set (ho_calls h). \<forall>action. run_action k action h \<noteq> None) \<and>
    (ho_current h = None \<and> ho_calls h = [] \<longrightarrow> ho_clients h = (\<lambda>_. None)) \<and>
    (ho_current h \<noteq> None \<longrightarrow> ho_preinit h = empty_preinit)"
proof -
  have ok: "host_ok h" by (rule host_reachable_ok [OF assms])
  then have alive: "\<forall>k. ho_clients h k \<noteq> None \<longleftrightarrow> ho_current h = Some k \<or> k \<in> set (ho_calls h)"
    by (simp add: host_ok_def referenced_def)
  then have "run_action k action h \<noteq> None" if "k \<in> set (ho_calls h)" for k action
    using that by (auto simp: run_action_def case_prod_unfold Let_def client_at_def split: option.splits)
  moreover have "ho_clients h = (\<lambda>_. None)" if "ho_current h = None" "ho_calls h = []"
    using alive that by (auto simp: fun_eq_iff)
  ultimately show ?thesis using alive ok unfolding host_ok_def by blast
qed

text \<open>The parts of a call, in sequence.\<close>

lemma calls_are_runs:
  "shared_with_client e waited names action h = Some (r, h') \<Longrightarrow> host_step\<^sup>*\<^sup>* h h'"
  "shared_with_client_or_buffer e waited names action buffer h = Some (r, h') \<Longrightarrow> host_step\<^sup>*\<^sup>* h h'"
  "shared_shutdown e waited names h = (r, h') \<Longrightarrow> host_step\<^sup>*\<^sup>* h h'"
proof -
  have action: "host_step\<^sup>*\<^sup>* h (drop_reference e waited names k h2)"
    if "client_snapshot h = (Some k, h1)" "run_action k action h1 = Some (r, h2)" for k h1 h2 r
  proof -
    have "k \<in> set (ho_calls h1)" using that(1) by (auto simp: client_snapshot_def split: option.splits)
    moreover from this have "k \<in> set (ho_calls h2)"
      using that(2) by (auto simp: run_action_def case_prod_unfold Let_def split: option.splits)
    ultimately show ?thesis
      using host_snapshot [of h] host_action [OF _ that(2)] host_drop [of k h2] that(1)
      by (metis (no_types) converse_rtranclp_into_rtranclp r_into_rtranclp snd_conv)
  qed
  show "shared_with_client e waited names action h = Some (r, h') \<Longrightarrow> host_step\<^sup>*\<^sup>* h h'"
    using action by (auto simp: shared_with_client_def client_snapshot_def split: option.splits)
  show "shared_with_client_or_buffer e waited names action buffer h = Some (r, h') \<Longrightarrow> host_step\<^sup>*\<^sup>* h h'"
    using action
    by (auto simp: shared_with_client_or_buffer_def client_snapshot_def case_prod_unfold Let_def split: option.splits
        intro: host_buffer)
  show "host_step\<^sup>*\<^sup>* h h'" if "shared_shutdown e waited names h = (r, h')"
  proof (cases "ho_current h")
    case (Some k)
    then have "retire_client h = (Some k, snd (retire_client h))" "k \<in> set (ho_calls (snd (retire_client h)))"
      by (simp_all add: retire_client_def)
    with that host_retire [of h] host_drop [of k "snd (retire_client h)" e waited names] show ?thesis
      by (auto simp: shared_shutdown_def split: prod.splits intro: converse_rtranclp_into_rtranclp)
  qed (use that in \<open>auto simp: shared_shutdown_def retire_client_def\<close>)
qed

section \<open>Calls that no other call overlaps\<close>

text \<open>The process of \<open>Tombstone_Api\<close> keeps the disk in the client while there is one.\<close>

definition shows_process :: "host \<Rightarrow> process \<Rightarrow> bool" where
  "shows_process h p \<longleftrightarrow> ho_calls h = [] \<and> ps_client p = Option.bind (ho_current h) (\<lambda>k. client_at k h) \<and>
    ps_preinit p = ho_preinit h \<and> ps_handler p = ho_handler h \<and> (ho_current h = None \<longrightarrow> ps_disk p = ho_disk h)"

lemma shows_current:
  assumes "host_ok h" "shows_process h p"
  obtains "ho_current h = None" "ps_client p = None"
  | k c where "ho_current h = Some k" "client_at k h = Some c" "ps_client p = Some c"
proof (cases "ho_current h")
  case (Some k)
  then have "ho_clients h k \<noteq> None" using assms(1) by (simp add: host_ok_def referenced_def)
  with Some assms(2) that(2) show ?thesis by (auto simp: shows_process_def client_at_def)
qed (use that(1) assms(2) in \<open>simp add: shows_process_def\<close>)

lemma client_at_put [simp]: "client_at k (put_client k c h) = Some c"
  by (cases c) (simp add: client_at_def put_client_def)

lemma action_shown:
  assumes "shows_process h p" "ho_current h = Some k" "client_at k h = Some c"
  defines "h1 \<equiv> snd (client_snapshot h)"
  shows "run_action k f h1 = Some (fst (f c), put_client k (snd (f c)) h1) \<and>
    shows_process (drop_reference e waited names k (put_client k (snd (f c)) h1)) (p\<lparr>ps_client := Some (snd (f c))\<rparr>)"
proof -
  have h1: "h1 = h\<lparr>ho_calls := [k]\<rparr>" using assms(1,2) by (simp add: h1_def client_snapshot_def shows_process_def)
  have "client_at k h1 = Some c" using assms(3) by (simp add: h1)
  then show ?thesis
    using assms(1,2) by (simp add: run_action_def case_prod_unfold Let_def drop_reference_def h1 shows_process_def)
qed

lemma lone_client_call:
  assumes "host_ok h" "shows_process h p"
  shows "\<exists>h'. shared_with_client e waited names action h = Some (fst (with_client action p), h') \<and>
    shows_process h' (snd (with_client action p))"
  using assms
proof (cases rule: shows_current)
  case 1
  with assms(2) show ?thesis by (simp add: shared_with_client_def client_snapshot_def with_client_def)
next
  case (2 k c)
  with action_shown [OF assms(2) 2(1,2), of action e waited names] show ?thesis
    by (simp add: shared_with_client_def client_snapshot_def with_client_def case_prod_unfold Let_def)
qed

lemma lone_buffered_call:
  assumes "host_ok h" "shows_process h p"
  shows "\<exists>h'. shared_with_client_or_buffer e waited names action buffer h =
      Some (fst (with_client_or_buffer action buffer p), h') \<and>
    shows_process h' (snd (with_client_or_buffer action buffer p))"
  using assms
proof (cases rule: shows_current)
  case 1
  with assms(2) show ?thesis
    by (simp add: shared_with_client_or_buffer_def client_snapshot_def with_client_or_buffer_def case_prod_unfold Let_def
        shows_process_def)
next
  case (2 k c)
  with action_shown [OF assms(2) 2(1,2), of action e waited names] show ?thesis
    by (simp add: shared_with_client_or_buffer_def client_snapshot_def with_client_or_buffer_def case_prod_unfold Let_def)
qed

lemma lone_shutdown:
  assumes "host_ok h" "shows_process h p"
  shows "\<exists>h'. shared_shutdown e waited names h = (fst (tombstone_shutdown e waited names p), h') \<and>
    shows_process h' (snd (tombstone_shutdown e waited names p)) \<and> ho_clients h' = (\<lambda>_. None)"
proof -
  have alive: "ho_clients h k = None" if "ho_current h \<noteq> Some k" for k
    using that assms by (auto simp: host_ok_def referenced_def shows_process_def)
  from assms show ?thesis
  proof (cases rule: shows_current)
    case 1
    with assms(2) alive show ?thesis
      by (simp add: shared_shutdown_def retire_client_def tombstone_shutdown_def fun_eq_iff)
  next
    case (2 k c)
    have "client_at k (h\<lparr>ho_current := None, ho_calls := []\<rparr>) = Some c" using 2(2) by (simp add: client_at_def)
    with 2 assms(2) alive show ?thesis
      by (simp add: shared_shutdown_def retire_client_def tombstone_shutdown_def drop_reference_def destroy_object_def
          shows_process_def fun_eq_iff)
  qed
qed

lemma lone_init:
  assumes "host_ok h" "shows_process h p"
  shows "case tombstone_init e mc options p of
      None \<Rightarrow> shared_init e mc options h = None
    | Some (r, p') \<Rightarrow> \<exists>h'. shared_init e mc options h = Some (r, h') \<and> shows_process h' p'"
  using assms
proof (cases rule: shows_current)
  case 1
  have "shows_process (put_client k c h\<lparr>ho_fresh := n, ho_current := Some k, ho_handler := g, ho_preinit := x\<rparr>)
      (p\<lparr>ps_client := Some c, ps_handler := g, ps_preinit := x\<rparr>)" for k c n g x
    using assms(2) client_at_put [of k c h] by (simp add: shows_process_def client_at_def)
  with 1 assms(2) show ?thesis
    by (cases options; cases "client_init e mc (the options) (ho_handler h) (new_client (ho_disk h))")
      (auto simp: tombstone_init_def shared_init_def shows_process_def Let_def)
next
  case (2 k c)
  with assms(2) show ?thesis by (cases options) (simp_all add: tombstone_init_def shared_init_def)
qed

text \<open>C13. A call that runs alone is the call of the process model: from a well-formed host that shows a
  process, every entry point, whether on the client or into the buffer, and \<open>tombstone_shutdown\<close> and
  \<open>tombstone_init\<close> too, returns the same result, keeps the host well-formed, and ends
  in a host that shows the process the model's call ends in; the client is destroyed by \<open>shutdown\<close> itself.\<close>

theorem lone_calls_refine_process:
  assumes "host_ok h" "shows_process h p"
  shows "(\<exists>h'. shared_with_client e waited names action h = Some (fst (with_client action p), h') \<and>
      host_ok h' \<and> shows_process h' (snd (with_client action p))) \<and>
    (\<exists>h'. shared_with_client_or_buffer e waited names action buffer h = Some (fst (with_client_or_buffer action buffer p), h') \<and>
      host_ok h' \<and> shows_process h' (snd (with_client_or_buffer action buffer p))) \<and>
    (\<exists>h'. shared_shutdown e waited names h = (fst (tombstone_shutdown e waited names p), h') \<and>
      host_ok h' \<and> ho_clients h' = (\<lambda>_. None) \<and> shows_process h' (snd (tombstone_shutdown e waited names p))) \<and>
    (case tombstone_init e mc options p of
       None \<Rightarrow> shared_init e mc options h = None
     | Some (r, p') \<Rightarrow> \<exists>h'. shared_init e mc options h = Some (r, h') \<and> host_ok h' \<and> shows_process h' p')"
proof -
  have run: "host_ok h'" if "host_step\<^sup>*\<^sup>* h h'" for h'
    using that assms(1) by (induction rule: rtranclp_induct) (auto intro: host_step_ok)
  show ?thesis
    using lone_client_call [OF assms, of e waited names action] lone_buffered_call [OF assms, of e waited names action buffer]
      lone_shutdown [OF assms, of e waited names] lone_init [OF assms, of e mc options]
    by (fastforce dest: calls_are_runs [THEN run] intro: run host_init split: option.split)
qed

text \<open>A host with one live client and a call running on it, and the same without the call.\<close>

definition marked_client :: client where
  "marked_client = live_client\<lparr>cl_marker := Some [''d'', marker_name], wk_disk := crashed_disk\<rparr>"

definition busy_host :: host where
  "busy_host = \<lparr>ho_clients = [0 \<mapsto> marked_client], ho_fresh = 1, ho_current = Some 0, ho_calls = [0],
     ho_preinit = empty_preinit, ho_handler = idle_handler, ho_disk = crashed_disk\<rparr>"

lemma busy_host_ok: "host_ok busy_host" "host_ok (busy_host\<lparr>ho_calls := []\<rparr>)"
  "client_at 0 busy_host = Some marked_client"
  by (auto simp: host_ok_def referenced_def busy_host_def client_at_def marked_client_def)


theorem lone_calls_refine_process_witness:
  "\<exists>h'. shared_with_client now_env id (\<lambda>_. []) start_session (busy_host\<lparr>ho_calls := []\<rparr>) = Some (OK, h') \<and> host_ok h'"
proof -
  let ?p = "\<lparr>ps_client = Some marked_client, ps_preinit = empty_preinit, ps_handler = idle_handler, ps_disk = crashed_disk\<rparr>"
  have "shows_process (busy_host\<lparr>ho_calls := []\<rparr>) ?p"
    using busy_host_ok(3) by (simp add: shows_process_def) (simp add: busy_host_def)
  from lone_calls_refine_process [OF busy_host_ok(2) this, THEN conjunct1, of now_env id "\<lambda>_. []" start_session]
  show ?thesis by (auto simp: with_client_def start_session_def Let_def case_prod_unfold)
qed

lemma shared_init_starts:
  assumes "ho_current h = None"
  obtains g v where "client_init now_env some_machine some_options (ho_handler h) (new_client (ho_disk h)) = Some (OK, g, v)"
    "shared_init now_env some_machine (Some some_options) h =
       Some (OK, (put_client (ho_fresh h) (replay_preinit now_env (ho_preinit h) v) h)\<lparr>ho_fresh := Suc (ho_fresh h),
         ho_current := Some (ho_fresh h), ho_handler := g, ho_preinit := empty_preinit\<rparr>)"
proof -
  obtain g v where v: "client_init now_env some_machine some_options (ho_handler h) (new_client (ho_disk h)) = Some (OK, g, v)"
    using some_init by blast
  then show ?thesis using that assms by (simp add: shared_init_def Let_def)
qed

lemma empty_replay [simp]: "replay_preinit e empty_preinit c = c"
  by (simp add: replay_preinit_def empty_preinit_def)

theorem client_lives_while_referenced_witness:
  "let h = snd (retire_client (snd (client_snapshot (snd (the (shared_init now_env some_machine (Some some_options)
       (fresh_host idle_handler crashed_disk)))))))
   in ho_current h = None \<and> run_action 0 start_session h \<noteq> None"
proof -
  let ?f = "fresh_host idle_handler crashed_disk"
  let ?h = "snd (the (shared_init now_env some_machine (Some some_options) ?f))"
  have init: "shared_init now_env some_machine (Some some_options) ?f = Some (OK, ?h)" "ho_current ?h = Some 0"
    by (rule shared_init_starts [of ?f]; simp add: fresh_host_def)+
  have "host_step\<^sup>*\<^sup>* ?f (snd (retire_client (snd (client_snapshot ?h))))"
    by (rule rtranclp.rtrancl_into_rtrancl [OF rtranclp.rtrancl_into_rtrancl [OF r_into_rtranclp]])
      (rule host_init [OF init(1)], rule host_snapshot, rule host_retire)
  from client_lives_while_referenced [OF this] show ?thesis
    using init(2) by (simp add: Let_def client_snapshot_def retire_client_def)
qed

end
