(* ===== verification/Restart.thy ===== *)
theory Restart
  imports Shared_Client
begin

text \<open>
  A second \<open>init\<close> in the same process, after \<open>tombstone_shutdown\<close>: what is left of the first one. The first
  client may still be alive in a call, and the native handler stays installed with the file it opened.
\<close>

section \<open>A destructor that comes late\<close>

lemma removable_write [simp]: "fl_removable (snd (fs_write p s fs)) = fl_removable fs"
  by (simp add: fs_write_def fs_put_def)

lemma persist_storage:
  "cl_storage_available (persist_job name job c) = cl_storage_available c"
  "fl_removable (wk_disk (persist_job name job c)) = fl_removable (wk_disk c)"
  by (auto simp: persist_job_def sidecar_write_def fs_write_def Let_def split: option.split)

lemma stop_storage:
  "cl_storage_available (worker_stop names c) = cl_storage_available c"
  "fl_removable (wk_disk (worker_stop names c)) = fl_removable (wk_disk c)"
proof -
  have "cl_storage_available (fold (\<lambda>(i, job). persist_job (names i) job) js c) = cl_storage_available c"
    "fl_removable (wk_disk (fold (\<lambda>(i, job). persist_job (names i) job) js c)) = fl_removable (wk_disk c)" for js c
    by (induction js arbitrary: c) (auto simp: persist_storage)
  note kept = this
  show "cl_storage_available (worker_stop names c) = cl_storage_available c"
    "fl_removable (wk_disk (worker_stop names c)) = fl_removable (wk_disk c)"
    by (simp_all add: worker_stop_def persist_leftovers_def kept)
qed

lemma destroyed_unmarked:
  assumes "cl_initialized (destroy_begin e c)" "cl_storage_available (waited (destroy_begin e c))"
    and "cl_marker (waited (destroy_begin e c)) = Some p" "fl_removable (wk_disk (waited (destroy_begin e c))) p"
  shows "fs_lookup (wk_disk (client_destroy e waited names c)) p = None"
  using assms
  by (simp add: client_destroy_def Let_def destroy_end_def marker_remove_def stop_storage stop_frame disk.lookup_del)

text \<open>A start leaves alone what may be read, written and deleted.\<close>

lemma tracking_flags: "flags (wk_disk (start_session_tracking e c)) = flags (wk_disk c)"
proof -
  have ingest: "flags (wk_disk (enqueue_ingest e path body dur kind rl prev v)) = flags (wk_disk v)" for path body dur kind rl prev v
    by (auto simp: enqueue_ingest_def write_sidecar_def sidecar_write_def enqueue_def Let_def case_prod_unfold split: option.split)
  have "flags (wk_disk (report_unclean_shutdown e d v)) = flags (wk_disk v)" for d v
    by (simp add: report_unclean_shutdown_def report_native_crash_def Let_def ingest split: option.split)
  then show ?thesis
    by (simp add: start_session_tracking_def Let_def marker_write_def split: option.split)
qed

lemma init_flags:
  "client_init e mc op g (new_client fs) = Some (OK, g', c) \<Longrightarrow> mc_dir_ok mc \<Longrightarrow> op_enable_unclean_detection op \<Longrightarrow>
    \<not> op_enable_native_crash op \<Longrightarrow> flags (wk_disk c) = flags fs"
  using init_started [of e mc op g fs g' c] started_exact(4) [of mc op e fs] tracking_flags by simp

text \<open>C38. A shutdown that overlaps a call reports a living session as dead and unmarks the next one. While a
  call runs on the client, \<open>tombstone_shutdown\<close> returns OK without its destructor; a new \<open>init\<close> on
  the same data directory finds the marker of the session that is still alive, queues an unclean-shutdown
  report for it and writes the marker of its own session; when the call ends, the old client's
  destructor deletes that marker under the running new client, so that if the new session dies the
  next launch queues exactly what it finds in the sidecar files and reports nothing, then or later.\<close>

theorem late_destructor_unmarks:
  assumes "host_ok h" "ho_current h = Some k" "ho_calls h = [k]" "client_at k h = Some c"
    and "mc_dir_ok mc" "op_enable_unclean_detection op" "\<not> op_enable_native_crash op" "op_consent_granted op"
    and "p = co_data_dir (client_config e mc op) @ [marker_name]"
    and "fs_lookup (ho_disk h) p = Some (marker_text d)" "fl_readable (ho_disk h) p" "md_session_id d \<noteq> []"
    and "\<forall>q. q \<noteq> [] \<and> butlast q = kind_dir (co_data_dir (client_config e mc op) @ [''pending'']) Crash \<longrightarrow>
           fs_lookup (ho_disk h) q = None"
    and "fl_writable (ho_disk h) p"
    and "shared_shutdown e' waited names h = (r, h1)" "shared_init e mc (Some op) h1 = Some (OK, h2)"
    and "last_seen = waited (destroy_begin e' (c\<lparr>wk_disk := ho_disk h2\<rparr>))"
    and "cl_initialized (destroy_begin e' (c\<lparr>wk_disk := ho_disk h2\<rparr>))" "cl_storage_available last_seen"
    and "cl_marker last_seen = Some p" "fl_removable (wk_disk last_seen) p"
    and "h3 = drop_reference e' waited names k h2"
    and "client_init e'' mc op g (new_client (ho_disk h3)) = Some (OK, g', c'')"
    and "co_data_dir (client_config e'' mc op) @ [marker_name] = p"
  shows "r = OK \<and> ho_disk h1 = ho_disk h \<and>
    (\<exists>j c' payload. ho_current h2 = Some j \<and> client_at j h3 \<noteq> None \<and>
       client_at j h2 = Some c' \<and> uj_body (last (wk_queue c')) = build_crash_json (en_separator e) payload \<and>
       cp_signature payload = unclean_signature) \<and>
    fs_lookup (ho_disk h2) p = Some (own_marker e (client_config e mc op)) \<and> fs_lookup (ho_disk h3) p = None \<and>
    wk_queue c'' = restored_jobs_of e'' mc op (ho_disk h3) \<and> cl_previous_marker c'' = None"
proof -
  have empty: "ho_preinit h = empty_preinit" "k < ho_fresh h" "ho_clients h k \<noteq> None"
    using assms(1,2) by (auto simp: host_ok_def referenced_def)
  have h1: "r = OK" "h1 = h\<lparr>ho_current := None\<rparr>"
    using assms(2,3,15) by (auto simp: shared_shutdown_def retire_client_def drop_reference_def)
  obtain g2 v where init: "client_init e mc op (ho_handler h) (new_client (ho_disk h)) = Some (OK, g2, v)"
    and h2: "h2 = (put_client (ho_fresh h) v h1)\<lparr>ho_fresh := Suc (ho_fresh h), ho_current := Some (ho_fresh h),
      ho_handler := g2, ho_preinit := empty_preinit\<rparr>"
    using assms(16) empty(1)
    by (auto simp: shared_init_def h1 Let_def replay_preinit_def empty_preinit_def preinit_clear_def
        split: option.splits if_splits prod.splits)
  have new: "client_at (ho_fresh h) h2 = Some v" unfolding h2 by (cases v) (simp add: client_at_def put_client_def)
  note report = dead_session [OF init assms(5-8) assms(10-12) [unfolded assms(9)] assms(13)]
  have old: "client_at k h2 = Some (c\<lparr>wk_disk := ho_disk h2\<rparr>)"
    using assms(4) empty(2) by (auto simp: h2 h1 client_at_def)
  have drop: "drop_reference e' waited names k h2 = destroy_object e' waited names k (h2\<lparr>ho_calls := []\<rparr>)"
    using assms(3) empty(2) by (simp add: drop_reference_def h2 h1)
  have "ho_disk h3 = wk_disk (client_destroy e' waited names (c\<lparr>wk_disk := ho_disk h2\<rparr>))"
    unfolding assms(22) drop destroy_object_def client_at_calls old by simp
  then have gone: "fs_lookup (ho_disk h3) p = None"
    using destroyed_unmarked assms(17-21) by simp
  have marked: "fs_lookup (ho_disk h2) p = Some (own_marker e (client_config e mc op))"
    using started_marked [OF init assms(5-9,14)] by (simp add: h2)
  have kept: "client_at (ho_fresh h) h3 \<noteq> None"
    using new empty(2) unfolding assms(22) drop by (auto simp: destroy_object_def client_at_def split: option.split)
  note silent = unmarked_start [OF assms(23,5-7) gone [folded assms(24)]]
  show ?thesis
    using h1 report silent gone marked kept new by (auto simp: h2)
qed

lemma marked_client_ends:
  "destroy_begin e (marked_client\<lparr>wk_disk := fs\<rparr>) = marked_client\<lparr>wk_disk := fs, cl_heartbeat_stop := True\<rparr>"
proof -
  have "flush_log c = c" if "wk_session_log c = new_session_log" for c :: client
    using that by (cases c) (simp add: flush_log_def flush_now_def take_pending_def new_session_log_def)
  then show ?thesis
    by (simp add: destroy_begin_def marked_client_def flush_all_batches_def flush_event_batch_def flush_metric_batch_def
        batch_has_items_def live_client_def new_client_def new_batch_def Let_def)
qed

theorem late_destructor_unmarks_witness:
  "let h2 = snd (the (shared_init now_env some_machine (Some some_options) (snd (shared_shutdown now_env (\<lambda>c. c) (\<lambda>_. ''n'') busy_host))));
       h3 = drop_reference now_env (\<lambda>c. c) (\<lambda>_. ''n'') 0 h2
   in (\<exists>j c payload. client_at j h2 = Some c \<and> uj_body (last (wk_queue c)) = build_crash_json ''.'' payload) \<and>
      fs_lookup (ho_disk h2) [''d'', marker_name] = Some (own_marker now_env (client_config now_env some_machine some_options)) \<and>
      fs_lookup (ho_disk h3) [''d'', marker_name] = None \<and>
      cl_previous_marker (snd (snd (the (client_init now_env some_machine some_options idle_handler (new_client (ho_disk h3)))))) = None"
proof -
  let ?h1 = "snd (shared_shutdown now_env (\<lambda>c. c) (\<lambda>_. ''n'') busy_host)"
  let ?h2 = "snd (the (shared_init now_env some_machine (Some some_options) ?h1))"
  have h1: "?h1 = busy_host\<lparr>ho_current := None\<rparr>"
    by (simp add: shared_shutdown_def retire_client_def drop_reference_def busy_host_def)
  obtain g v where v: "client_init now_env some_machine some_options (ho_handler ?h1) (new_client (ho_disk ?h1)) = Some (OK, g, v)"
    and shared: "shared_init now_env some_machine (Some some_options) ?h1 =
       Some (OK, (put_client (ho_fresh ?h1) (replay_preinit now_env (ho_preinit ?h1) v) ?h1)\<lparr>ho_fresh := Suc (ho_fresh ?h1),
         ho_current := Some (ho_fresh ?h1), ho_handler := g, ho_preinit := empty_preinit\<rparr>)"
    by (rule shared_init_starts [of ?h1]) (simp_all add: h1)
  have init: "shared_init now_env some_machine (Some some_options) ?h1 = Some (OK, ?h2)" using shared by simp
  have "ho_disk ?h1 = crashed_disk" "ho_preinit ?h1 = empty_preinit" unfolding h1 by (simp_all add: busy_host_def)
  then have removable: "fl_removable (ho_disk ?h2) q" for q
    using init_flags [OF v some_flags(1-3)] shared some_flags(5) by (simp add: flags_def)
  have dir: "[''d'', marker_name] = co_data_dir (client_config now_env some_machine some_options) @ [marker_name]"
    by (simp add: some_dir)
  have disk: "fs_lookup (ho_disk busy_host) [''d'', marker_name] = Some (marker_text old_marker)"
    "\<forall>q. q \<noteq> [] \<and> butlast q = kind_dir (co_data_dir (client_config now_env some_machine some_options) @ [''pending'']) Crash \<longrightarrow>
      fs_lookup (ho_disk busy_host) q = None"
    by (auto simp: busy_host_def some_dir crashed_disk_def open_store_def fs_lookup_def kind_dir_def)
  have client: "client_at 0 busy_host = Some marked_client" "ho_current busy_host = Some 0" "ho_calls busy_host = [0]"
    "fl_readable (ho_disk busy_host) q" "md_session_id old_marker \<noteq> []" "fl_writable (ho_disk busy_host) q" for q
    by (simp_all add: busy_host_ok(3)) (simp_all add: busy_host_def some_flags old_marker_def crashed_disk_def open_store_def)
  have ends: "cl_initialized (destroy_begin now_env (marked_client\<lparr>wk_disk := ho_disk ?h2\<rparr>))"
    "cl_storage_available ((\<lambda>c. c) (destroy_begin now_env (marked_client\<lparr>wk_disk := ho_disk ?h2\<rparr>)))"
    "cl_marker ((\<lambda>c. c) (destroy_begin now_env (marked_client\<lparr>wk_disk := ho_disk ?h2\<rparr>))) = Some [''d'', marker_name]"
    "fl_removable (wk_disk ((\<lambda>c. c) (destroy_begin now_env (marked_client\<lparr>wk_disk := ho_disk ?h2\<rparr>)))) [''d'', marker_name]"
    unfolding marked_client_ends by (simp_all add: marked_client_def removable)
  have "en_separator now_env = ''.''" by (simp add: now_env_def)
  with late_destructor_unmarks [OF busy_host_ok(1) client(2,3,1) some_flags(1-4) dir disk(1) client(4,5) disk(2) client(6)
      surjective_pairing init refl ends refl some_init dir [symmetric], of idle_handler]
  show ?thesis unfolding Let_def by auto
qed

section \<open>A handler that outlives its client\<close>

text \<open>
  The handler keeps the descriptor it opened at its first installation; what it writes there reaches a
  file of that name only as long as the file has not been deleted.
\<close>

definition descriptor_write :: "path \<Rightarrow> string \<Rightarrow> file_system \<Rightarrow> file_system" where
  "descriptor_write p written fs = (case fs_lookup fs p of None \<Rightarrow> fs | Some old \<Rightarrow> fs_put p (old @ written) fs)"

lemma tracking_other_lookup:
  assumes "\<forall>pending. wk_sidecars c = Some pending \<longrightarrow> length p \<le> length pending" "cl_marker c \<noteq> Some p"
  shows "fs_lookup (wk_disk (start_session_tracking e c)) p = fs_lookup (wk_disk c) p"
proof -
  have "fs_lookup (marker_write d (cl_marker c) fs) p = fs_lookup fs p" for d fs
    using assms(2) by (auto simp: marker_write_def fs_write_lookup split: option.split)
  then show ?thesis
    using assms(1) by (simp add: start_session_tracking_def Let_def report_other_lookup split: option.split)
qed

lemma rotate_removable [simp]: "fl_removable (snd (snd (log_rotate l fs))) = fl_removable fs"
proof -
  have "fl_removable (fs_rename p q g) = fl_removable g" for p q g
    using flags_ops(4) [of p q g] by (simp add: flags_def)
  then show ?thesis by (simp add: log_rotate_def Let_def split: option.split)
qed

lemma take_previous_removable [simp]: "fl_removable (snd (marker_take_previous m fs)) = fl_removable fs"
  by (simp add: marker_take_previous_def Let_def split: option.split)

lemma dump_taken: "fl_removable fs (dir @ [dump_file_name]) \<Longrightarrow> fs_lookup (snd (take_previous_dump dir fs)) (dir @ [dump_file_name]) = None"
  by (simp add: take_previous_dump_def Let_def fs_exists_def disk.lookup_del)

lemma configured_no_dump:
  assumes "mc_dir_ok mc" "co_native_crash (cl_config c)" "fl_removable (wk_disk c) (co_data_dir (cl_config c) @ [dump_file_name])"
  defines "c' \<equiv> configure_storage mc c"
  shows "fs_lookup (wk_disk c') (co_data_dir (cl_config c) @ [dump_file_name]) = None"
    "cl_marker c' = Some (co_data_dir (cl_config c) @ [marker_name])" "cl_config c' = cl_config c"
    "wk_sidecars c' = sidecar_configure (co_data_dir (cl_config c)) (mc_sidecar_dirs_ok mc)"
  using assms(1-3)
  by (simp_all add: c'_def configure_storage_def Let_def case_prod_unfold dump_taken marker_remove_def marker_configure_def
      split: option.split)

lemma installed_stays: "hs_installed g \<Longrightarrow> install_native mc g c = Some (g, c)"
  by (simp add: install_native_def install_handler_def)

lemma restart_started:
  assumes "client_init e mc op g (new_client fs) = Some (OK, g', c)" "hs_installed g"
  shows "g' = g \<and> c = (if cl_consent (started_client e mc op fs) then start_session_tracking e (started_client e mc op fs)
              else started_client e mc op fs)"
  using assms
  by (auto simp: client_init_def installed_stays started_client_def Let_def split: if_splits)

lemma drained_frame:
  "wk_disk (drain_sidecars c) = wk_disk c" "wk_sidecars (drain_sidecars c) = wk_sidecars c" "cl_marker (drain_sidecars c) = cl_marker c"
  by (simp_all add: drain_sidecars_def restored_queue)

lemma restart_no_dump:
  assumes "mc_dir_ok mc" "op_enable_native_crash op" "fl_removable fs p"
    and "p = co_data_dir (client_config e mc op) @ [dump_file_name]"
  defines "c \<equiv> started_client e mc op fs"
  shows "fs_lookup (wk_disk c) p = None" "cl_marker c \<noteq> Some p"
    "wk_sidecars c = sidecar_configure (co_data_dir (client_config e mc op)) (mc_sidecar_dirs_ok mc)"
proof -
  define b where "b = (new_client fs)\<lparr>cl_config := client_config e mc op\<rparr>"
  define c0 where "c0 = (let c = (if \<not> cstr_blank (op_environment op)
      then b\<lparr>cl_match := (cl_match b)\<lparr>ma_environment := clamped (op_environment op) limit_environment\<rparr>\<rparr> else b)
    in c\<lparr>cl_consent := op_consent_granted op, cl_gate := gate_arm (op_auto_start_session op) (cl_gate c)\<rparr>)"
  have c0: "cl_config c0 = client_config e mc op" "wk_disk c0 = fs" by (simp_all add: c0_def b_def new_client_def Let_def)
  have "co_native_crash (cl_config c0)" using assms(2) c0 by (simp add: client_config_def)
  note one = configured_no_dump [OF assms(1) this, unfolded c0, folded assms(4), OF assms(3)]
  define c2 where "c2 = acquire_device_identity e mc (configure_storage mc c0)"
  have c: "c = drain_sidecars ((worker_start (en_now e) c2)\<lparr>cl_initialized := True\<rparr>)"
    by (simp add: c_def started_client_def c2_def c0_def b_def Let_def)
  have "p \<noteq> co_data_dir (client_config e mc op) @ [identity_file_name]"
    using assms(4) by (simp add: dump_file_name_def identity_file_name_def)
  then have "fs_lookup (wk_disk c2) p = None" "cl_marker c2 = cl_marker (configure_storage mc c0)"
    using one(1,3) c0
    by (simp_all add: c2_def acquire_device_identity_def persist_identity_def Let_def case_prod_unfold fs_write_lookup)
  moreover have "wk_sidecars c2 = wk_sidecars (configure_storage mc c0)" using acquire_frame by (simp add: c2_def)
  ultimately show "fs_lookup (wk_disk c) p = None" "cl_marker c \<noteq> Some p"
    "wk_sidecars c = sidecar_configure (co_data_dir (client_config e mc op)) (mc_sidecar_dirs_ok mc)"
    using one assms(4) c0
    by (simp_all add: c drained_frame worker_start_def dump_file_name_def marker_name_def)
qed

text \<open>C39. After a restart in one process the native handler reports nothing any more: \<open>init\<close> deletes the dump
  file and finds the handler installed, so it opens no new one; however much the handler then
  writes through the descriptor it kept, the next launch on the data directory finds no dump, although
  the handler counts as installed with its file open.\<close>

theorem restart_loses_native_dump:
  assumes "client_init e mc op g (new_client fs) = Some (OK, g', c)"
    and "mc_dir_ok mc" "op_enable_native_crash op" "hs_installed g" "hs_dump_open g"
    and "p = co_data_dir (client_config e mc op) @ [dump_file_name]" "fl_removable fs p"
  shows "hs_installed g' \<and> hs_dump_open g' \<and> fs_lookup (wk_disk c) p = None \<and>
    fst (take_previous_dump (co_data_dir (client_config e mc op)) (descriptor_write p written (wk_disk c))) = None"
proof -
  let ?s = "started_client e mc op fs"
  note start = restart_no_dump [OF assms(2,3,7,6)]
  have "fs_lookup (wk_disk (start_session_tracking e ?s)) p = fs_lookup (wk_disk ?s) p"
    using start(2,3) assms(6) by (intro tracking_other_lookup) (auto simp: sidecar_configure_def split: if_splits)
  then have "g' = g" "fs_lookup (wk_disk c) p = None"
    using restart_started [OF assms(1,4)] start(1) by (auto split: if_splits)
  then show ?thesis
    using assms(4-6) by (simp add: descriptor_write_def take_previous_dump_def fs_exists_def Let_def)
qed

definition crash_options :: options where
  "crash_options = some_options\<lparr>op_enable_native_crash := True\<rparr>"

text \<open>The handler as a first \<open>init\<close> leaves it.\<close>

definition first_handler :: handler_state where
  "first_handler = fst (snd (the (install_handler [''d''] [] True idle_handler (open_store []))))"

lemma first_handler_open: "hs_installed first_handler" "hs_dump_open first_handler"
  by (simp_all add: first_handler_def install_handler_def idle_handler_def fs_write_def open_store_def Let_def)

theorem restart_loses_native_dump_witness:
  "let c = snd (snd (the (client_init now_env some_machine crash_options first_handler (new_client crashed_disk))))
   in fst (take_previous_dump [''d''] (descriptor_write [''d'', dump_file_name] ''tombstone-native-crash 1'' (wk_disk c))) = None"
proof -
  have "\<exists>g' c. client_init now_env some_machine crash_options first_handler (new_client crashed_disk) = Some (OK, g', c)"
    by (simp add: client_init_def installed_stays [OF first_handler_open(1)] crash_options_def some_options_def
        default_options_def Let_def)
  then obtain g' c where init: "client_init now_env some_machine crash_options first_handler (new_client crashed_disk) = Some (OK, g', c)"
    by blast
  have name: "co_data_dir (client_config now_env some_machine crash_options) = [''d'']"
    by (simp add: client_config_def some_machine_def some_options_def crash_options_def)
  then have dir: "[''d'', dump_file_name] = co_data_dir (client_config now_env some_machine crash_options) @ [dump_file_name]" by simp
  have "op_enable_native_crash crash_options" by (simp add: crash_options_def)
  from restart_loses_native_dump [OF init some_flags(1) this first_handler_open dir some_flags(5), unfolded name] init show ?thesis by auto
qed

end
