(* ===== verification/Shared_Calls.thy ===== *)
theory Shared_Calls
  imports Shared_Client
begin

text \<open>
  Overlapping calls on real clients: what a call does through its copy is an operation of the SDK, and every
  client has its own delivery and heartbeat threads, which go on until the destructor has run.
\<close>

text \<open>What a buffered call does to the store before \<open>init\<close>.\<close>

datatype preinit_call =
    Pre_User string string
  | Pre_Consent bool
  | Pre_Start_Session
  | Pre_Environment string
  | Pre_User_Metadata "(string \<times> string) list"
  | Pre_Breadcrumb int string
  | Pre_Event string "(string \<times> string) list"
  | Pre_Metric string double string

fun buffer_call :: "preinit_call \<Rightarrow> preinit \<Rightarrow> preinit" where
  "buffer_call (Pre_User user_id steam_id) s = preinit_set_user user_id steam_id s"
| "buffer_call (Pre_Consent granted) s = preinit_set_consent granted s"
| "buffer_call Pre_Start_Session s = request_start_session s"
| "buffer_call (Pre_Environment environment) s = preinit_set_environment environment s"
| "buffer_call (Pre_User_Metadata entries) s = preinit_set_user_metadata entries s"
| "buffer_call (Pre_Breadcrumb lvl message) s = preinit_add_breadcrumb (lvl, message) s"
| "buffer_call (Pre_Event name attributes) s = snd (preinit_add_event name attributes s)"
| "buffer_call (Pre_Metric name v unit) s = snd (preinit_add_metric name v unit s)"

lemma buffer_call_ok: "preinit_ok s \<Longrightarrow> preinit_ok (buffer_call b s)"
  by (cases b) (simp_all add: preinit_track_ok preinit_trail.ok_push)

text \<open>
  The parts of the calls of the C interface. A \<open>flush\<close> begins with \<open>Op_Flush_Begin\<close>, after which its thread
  waits while the client's threads run.
\<close>

inductive call_step :: "host \<times> (nat \<Rightarrow> threads) \<Rightarrow> host \<times> (nat \<Rightarrow> threads) \<Rightarrow> bool" where
  call_snapshot: "call_step (h, ts) (snd (client_snapshot h), ts)"
| call_buffer: "ho_current h = None \<Longrightarrow> call_step (h, ts) (h\<lparr>ho_preinit := buffer_call b (ho_preinit h)\<rparr>, ts)"
| call_operation: "k \<in> set (ho_calls h) \<Longrightarrow> run_action k (client_call e op) h = Some (r, h') \<Longrightarrow> call_step (h, ts) (h', ts)"
| call_drop: "k \<in> set (ho_calls h) \<Longrightarrow> call_step (h, ts) (drop_reference e waited names k h, ts)"
| call_retire: "call_step (h, ts) (snd (retire_client h), ts)"
| call_init: "shared_init e mc options h = Some (r, h') \<Longrightarrow>
    call_step (h, ts) (h', if r = OK then ts(ho_fresh h := (None, Loop_Top)) else ts)"
| call_threads: "client_at k h = Some c \<Longrightarrow> sdk_run c (ts k) evs c' t' \<Longrightarrow>
    call_step (h, ts) (put_client k c' h, ts(k := t'))"

lemma call_step_host: "call_step s s' \<Longrightarrow> host_step (fst s) (fst s')"
  by (induction rule: call_step.induct) (auto intro: host_step.intros)

definition clients_ok :: "host \<times> (nat \<Rightarrow> threads) \<Rightarrow> bool" where
  "clients_ok s \<longleftrightarrow> preinit_ok (ho_preinit (fst s)) \<and>
    (\<forall>k c. ho_clients (fst s) k = Some c \<longrightarrow> delivery_ok c \<and> threads_ok (snd s k))"

lemma seen_ok: "clients_ok (h, ts) \<Longrightarrow> client_at k h = Some c \<Longrightarrow> delivery_ok c \<and> threads_ok (ts k)"
  by (auto simp: clients_ok_def client_at_def delivery_ok_def queue_ok_def)

lemma put_ok: "clients_ok (h, ts) \<Longrightarrow> delivery_ok c \<Longrightarrow> threads_ok t \<Longrightarrow> clients_ok (put_client k c h, ts(k := t))"
  by (auto simp: clients_ok_def)

lemma operated_ok:
  assumes "clients_ok (h, ts)" "run_action k f h = Some (r, h')" "\<And>c. delivery_ok c \<Longrightarrow> delivery_ok (snd (f c))"
  shows "clients_ok (h', ts)"
proof -
  obtain c where c: "client_at k h = Some c" "h' = put_client k (snd (f c)) h"
    using assms(2) by (auto simp: run_action_def case_prod_unfold Let_def split: option.splits)
  with put_ok [OF assms(1), of "snd (f c)" "ts k" k] seen_ok [OF assms(1) c(1)] assms(3) show ?thesis by simp
qed

lemma call_step_ok: "call_step s s' \<Longrightarrow> clients_ok s \<Longrightarrow> clients_ok s'"
proof (induction rule: call_step.induct)
  case (call_operation k h e op r h' ts)
  then show ?case by (auto intro: operated_ok call_ok)
next
  case (call_init e mc options h r h' ts)
  show ?case
  proof (cases "r = OK \<and> ho_current h = None")
    case True
    with call_init(1) obtain op g c where init: "client_init e mc op (ho_handler h) (new_client (ho_disk h)) = Some (OK, g, c)"
      and h': "h' = (put_client (ho_fresh h) (replay_preinit e (ho_preinit h) c) h)\<lparr>ho_fresh := Suc (ho_fresh h),
        ho_current := Some (ho_fresh h), ho_handler := g, ho_preinit := empty_preinit\<rparr>"
      by (auto simp: shared_init_def Let_def split: option.splits if_splits)
    from put_ok [OF call_init(2) replay_ok [OF client_init_ok [OF init]] idle_threads_ok [of Loop_Top], of "ho_fresh h"]
    show ?thesis using True by (simp add: h' clients_ok_def)
  next
    case False
    with call_init show ?thesis by (auto simp: shared_init_def clients_ok_def Let_def split: option.splits if_splits)
  qed
next
  case (call_threads k h c ts evs c' t')
  with seen_ok [OF call_threads(3,1)] run_ok [OF call_threads(2)] show ?case by (simp add: put_ok)
qed (auto simp: clients_ok_def buffer_call_ok client_snapshot_def retire_client_def drop_reference_def destroy_object_def Let_def
    split: option.split)

text \<open>C12. Calls may overlap in any way and the process stays well-formed: snapshots, operations on old
  and new clients, buffered calls, starts, shutdowns, destructors and the threads of every client interleave
  freely, and the store before \<open>init\<close> stays bounded and is empty while a client is published, a running call
  always finds its object, every client that exists, published or retired, has at most 256 jobs queued
  and attempts from 0 to 4, also of the job under way, and a second \<open>init\<close> is refused and changes nothing.\<close>

theorem overlapping_calls_well_formed:
  assumes "call_step\<^sup>*\<^sup>* (fresh_host g fs, \<lambda>_. (None, Loop_Top)) (h, ts)"
  shows "length (pi_breadcrumbs (ho_preinit h)) \<le> 64 \<and> length (pi_tracks (ho_preinit h)) \<le> 128 \<and>
    (\<forall>k \<in> set (ho_calls h). client_at k h \<noteq> None) \<and>
    (\<forall>k c. client_at k h = Some c \<longrightarrow>
       length (wk_queue c) \<le> 256 \<and> (\<forall>job \<in> set (wk_queue c). 0 \<le> uj_attempt job \<and> uj_attempt job \<le> 4) \<and>
       (\<forall>job. fst (ts k) = Some job \<longrightarrow> 0 \<le> uj_attempt job \<and> uj_attempt job \<le> 4)) \<and>
    (ho_current h \<noteq> None \<longrightarrow>
       ho_preinit h = empty_preinit \<and> shared_init e mc (Some op) h = Some (Already_Initialized, h))"
proof -
  have run: "host_step\<^sup>*\<^sup>* (fst s) (fst s') \<and> (clients_ok s \<longrightarrow> clients_ok s')" if "call_step\<^sup>*\<^sup>* s s'" for s s'
    using that
  proof (induction rule: rtranclp_induct)
    case (step s1 s2)
    then show ?case using call_step_host call_step_ok by (meson rtranclp.rtrancl_into_rtrancl)
  qed simp
  have ok: "clients_ok (h, ts)" "host_ok h"
    using run [OF assms] host_reachable_ok [of g fs h] by (simp_all add: clients_ok_def fresh_host_def)
  have job: "job_ok job \<longleftrightarrow> 0 \<le> uj_attempt job \<and> uj_attempt job \<le> 4" for job
    by (auto simp: job_ok_def max_attempts_def)
  have "delivery_ok c \<and> threads_ok (ts k)" if "client_at k h = Some c" for k c by (rule seen_ok [OF ok(1) that])
  then have "length (wk_queue c) \<le> 256 \<and> (\<forall>job \<in> set (wk_queue c). 0 \<le> uj_attempt job \<and> uj_attempt job \<le> 4) \<and>
       (\<forall>job. fst (ts k) = Some job \<longrightarrow> 0 \<le> uj_attempt job \<and> uj_attempt job \<le> 4)" if "client_at k h = Some c" for k c
    using that unfolding delivery_ok_def queue_ok_def threads_ok_def max_queue_size_def job by blast
  moreover have "preinit_ok (ho_preinit h)" using ok(1) by (simp add: clients_ok_def)
  moreover have "\<forall>k \<in> set (ho_calls h). client_at k h \<noteq> None" "ho_current h \<noteq> None \<longrightarrow> ho_preinit h = empty_preinit"
    using ok(2) by (auto simp: host_ok_def referenced_def)
  ultimately show ?thesis
    by (auto simp: preinit_ok_def max_breadcrumbs_def max_tracks_def shared_init_def)
qed

theorem overlapping_calls_well_formed_witness:
  "let h = snd (client_snapshot (snd (the (shared_init now_env some_machine (Some some_options)
       (fresh_host idle_handler crashed_disk)))))
   in client_at 0 h \<noteq> None \<and> shared_init now_env some_machine (Some some_options) h = Some (Already_Initialized, h)"
proof -
  let ?f = "fresh_host idle_handler crashed_disk" and ?ts = "\<lambda>_. (None, Loop_Top)"
  let ?h = "snd (the (shared_init now_env some_machine (Some some_options) ?f))"
  have init: "shared_init now_env some_machine (Some some_options) ?f = Some (OK, ?h)" "ho_current ?h = Some 0"
    by (rule shared_init_starts [of ?f]; simp add: fresh_host_def)+
  have "call_step\<^sup>*\<^sup>* (?f, ?ts) (snd (client_snapshot ?h), if OK = OK then ?ts(ho_fresh ?f := (None, Loop_Top)) else ?ts)"
    by (rule rtranclp.rtrancl_into_rtrancl [OF r_into_rtranclp])
      (rule call_init [OF init(1)], rule call_snapshot)
  from overlapping_calls_well_formed [OF this] show ?thesis
    using init(2) by (simp add: Let_def client_snapshot_def)
qed

end
