(* ===== verification/Sdk_Log.thy ===== *)
theory Sdk_Log
  imports Tombstone_Api
begin

text \<open>
  \<^verbatim>\<open>src/sdk_log.h\<close> and \<^verbatim>\<open>src/sdk_log.cpp\<close>: the SDK's own diagnostics. The integrator's callback and user pointer are
  opaque values; what the SDK hands them is a \<open>sink_call\<close>. A callback that throws is as good as one that
  returns, so its outcome is no part of the model.
\<close>

record ('f, 'd) sdk_log =
  lg_callback :: "'f option"
  lg_user_data :: "'d option"

record ('f, 'd) sink_call =
  sc_callback :: 'f
  sc_level :: int
  sc_message :: string
  sc_user_data :: "'d option"

definition silent_log :: "('f, 'd) sdk_log" where
  "silent_log = \<lparr>lg_callback = None, lg_user_data = None\<rparr>"

definition log_sink_configure :: "'f option \<Rightarrow> 'd option \<Rightarrow> ('f, 'd) sdk_log \<Rightarrow> ('f, 'd) sdk_log" where
  "log_sink_configure callback user_data l = l\<lparr>lg_callback := callback, lg_user_data := user_data\<rparr>"

fun level_code :: "level \<Rightarrow> int" where
  "level_code Debug = 0"
| "level_code Info = 1"
| "level_code Warn = 2"
| "level_code Error = 3"

text \<open>The message goes out as a C string. The pair is read under the lock, the call made after it.\<close>

definition sink_emit :: "level \<Rightarrow> string \<Rightarrow> ('f, 'd) sdk_log \<Rightarrow> ('f, 'd) sink_call option" where
  "sink_emit lvl message l =
    (case lg_callback l of
       None \<Rightarrow> None
     | Some f \<Rightarrow>
         Some \<lparr>sc_callback = f, sc_level = level_code lvl, sc_message = takeWhile (\<lambda>c. c \<noteq> CHR 0x00) message,
               sc_user_data = lg_user_data l\<rparr>)"

definition log_debug :: "string \<Rightarrow> ('f, 'd) sdk_log \<Rightarrow> ('f, 'd) sink_call option" where "log_debug = sink_emit Debug"
definition log_info :: "string \<Rightarrow> ('f, 'd) sdk_log \<Rightarrow> ('f, 'd) sink_call option" where "log_info = sink_emit Info"
definition log_warn :: "string \<Rightarrow> ('f, 'd) sdk_log \<Rightarrow> ('f, 'd) sink_call option" where "log_warn = sink_emit Warn"
definition log_error :: "string \<Rightarrow> ('f, 'd) sdk_log \<Rightarrow> ('f, 'd) sink_call option" where "log_error = sink_emit Error"

lemma silent_until_configured: "sink_emit lvl message silent_log = None"
  by (simp add: sink_emit_def silent_log_def)

lemma level_code_back: "to_level (level_code lvl) = lvl"
  by (cases lvl) (simp_all add: to_level_def)

section \<open>Threads\<close>

text \<open>
  Threads configure the sink, take their copy of it, and later make the call; the state is the sink, the
  copies taken, and the calls made.
\<close>

datatype ('f, 'd) log_event =
    Configured "'f option" "'d option"
  | Emitting nat level string
  | Called nat

fun log_event_step ::
    "('f, 'd) log_event \<Rightarrow> ('f, 'd) sdk_log \<times> (nat \<Rightarrow> ('f, 'd) sink_call option) \<times> ('f, 'd) sink_call list \<Rightarrow>
      ('f, 'd) sdk_log \<times> (nat \<Rightarrow> ('f, 'd) sink_call option) \<times> ('f, 'd) sink_call list" where
  "log_event_step (Configured f d) (l, held, made) = (log_sink_configure f d l, held, made)"
| "log_event_step (Emitting k lvl message) (l, held, made) = (l, held(k := sink_emit lvl message l), made)"
| "log_event_step (Called k) (l, held, made) =
    (case held k of None \<Rightarrow> (l, held, made) | Some call \<Rightarrow> (l, held(k := None), made @ [call]))"

definition call_ok :: "('f, 'd) log_event set \<Rightarrow> ('f, 'd) sink_call \<Rightarrow> bool" where
  "call_ok past call \<longleftrightarrow> Configured (Some (sc_callback call)) (sc_user_data call) \<in> past \<and>
    sc_level call \<in> {0..3} \<and> CHR 0x00 \<notin> set (sc_message call)"

lemma sink_emit_ok:
  assumes "lg_callback l \<noteq> None \<longrightarrow> Configured (lg_callback l) (lg_user_data l) \<in> past" "sink_emit lvl message l = Some call"
  shows "call_ok past call"
  using assms by (cases lvl) (auto simp: sink_emit_def call_ok_def dest: set_takeWhileD split: option.splits)

definition sink_inv ::
    "('f, 'd) log_event set \<Rightarrow> ('f, 'd) sdk_log \<times> (nat \<Rightarrow> ('f, 'd) sink_call option) \<times> ('f, 'd) sink_call list \<Rightarrow> bool" where
  "sink_inv past = (\<lambda>(l, held, made).
     (lg_callback l \<noteq> None \<longrightarrow> Configured (lg_callback l) (lg_user_data l) \<in> past) \<and>
     (\<forall>k call. held k = Some call \<longrightarrow> call_ok past call) \<and> (\<forall>call \<in> set made. call_ok past call))"

lemma sink_inv_step: "sink_inv past s \<Longrightarrow> sink_inv (insert ev past) (log_event_step ev s)"
proof -
  assume "sink_inv past s"
  then have "sink_inv (insert ev past) s" by (auto simp: sink_inv_def call_ok_def split: prod.splits)
  then show ?thesis
    by (cases "(ev, s)" rule: log_event_step.cases)
      (auto simp: sink_inv_def log_sink_configure_def intro: sink_emit_ok split: option.splits)
qed

text \<open>
  However the threads interleave, no call pairs a callback with the user pointer of another configuration,
  every level is one of the enumeration and every message a C string.
\<close>

lemma sink_pairs_intact:
  assumes "fold log_event_step events (silent_log, (\<lambda>_. None), []) = (l, held, made)"
  shows "\<forall>call \<in> set made. call_ok (set events) call"
proof -
  have "sink_inv (past \<union> set events) (fold log_event_step events s)" if "sink_inv past s" for past s
    using that
  proof (induction events arbitrary: past s)
    case (Cons ev events)
    from Cons.IH [OF sink_inv_step [OF Cons.prems]] show ?case by simp
  qed simp
  from this [of "{}" "(silent_log, (\<lambda>_. None), [])"] assms show ?thesis
    by (simp add: sink_inv_def silent_log_def)
qed

end
