(* ===== verification/Spin_Lock.thy ===== *)
theory Spin_Lock
  imports Frame_Stats
begin

text \<open>
  The spin guard of \<^verbatim>\<open>src/frame_stats.cpp\<close>: \<open>sample\<close> and \<open>consume\<close> statement by statement, on any number of
  threads. \<open>Frame_Stats\<close> takes each of them as one step; this theory shows that the guard makes that right.
\<close>

section \<open>The statements\<close>

text \<open>A statement changes the accumulator and the snapshot the caller is building.\<close>

type_synonym frame_stmt = "frame_acc \<times> frame_snapshot \<Rightarrow> frame_acc \<times> frame_snapshot"

definition sample_stmts :: "double \<Rightarrow> frame_stmt list" where
  "sample_stmts ms =
    [apfst (\<lambda>a. a\<lparr>fa_frame_count := fa_frame_count a + 1\<rparr>),
     apfst (\<lambda>a. a\<lparr>fa_elapsed_ms := d_add (fa_elapsed_ms a) ms\<rparr>),
     apfst (\<lambda>a. if d_less slow_frame_ms ms then a\<lparr>fa_slow_frames := fa_slow_frames a + 1\<rparr> else a),
     apfst (\<lambda>a. if d_less hitch_frame_ms ms \<and> fa_hitch_frames a < max_hitch_count
                then a\<lparr>fa_hitch_frames := fa_hitch_frames a + 1\<rparr> else a),
     apfst (\<lambda>a. if d_less (fa_worst_frame_ms a) ms then a\<lparr>fa_worst_frame_ms := ms\<rparr> else a)]"

definition consume_stmts :: "frame_stmt list" where
  "consume_stmts =
    [\<lambda>(a, out). (a, if 0 < fa_frame_count a \<and> d_less d_zero (fa_elapsed_ms a) then out\<lparr>fs_valid := True\<rparr> else out),
     \<lambda>(a, out). (a, if fs_valid out
       then out\<lparr>fs_fps_avg := (let fps = d_div (d_mul (double_of_int (fa_frame_count a)) (Finite False 1000)) (fa_elapsed_ms a)
                               in if d_less max_fps fps then max_fps else fps)\<rparr> else out),
     \<lambda>(a, out). (a, if fs_valid out
       then out\<lparr>fs_slow_frame_pct := (let pct = d_div (d_mul (double_of_int (fa_slow_frames a)) (Finite False 100))
                                             (double_of_int (fa_frame_count a))
                                      in if d_less (Finite False 100) pct then Finite False 100 else pct)\<rparr> else out),
     \<lambda>(a, out). (a, if fs_valid out then out\<lparr>fs_hitch_count := fa_hitch_frames a\<rparr> else out),
     \<lambda>(a, out). (a, if fs_valid out
       then out\<lparr>fs_worst_frame_ms := d_trunc (if d_less (double_of_int max_worst_frame_ms) (fa_worst_frame_ms a)
                                              then double_of_int max_worst_frame_ms else fa_worst_frame_ms a)\<rparr> else out),
     apfst (\<lambda>a. a\<lparr>fa_frame_count := 0\<rparr>), apfst (\<lambda>a. a\<lparr>fa_elapsed_ms := d_zero\<rparr>),
     apfst (\<lambda>a. a\<lparr>fa_slow_frames := 0\<rparr>), apfst (\<lambda>a. a\<lparr>fa_hitch_frames := 0\<rparr>),
     apfst (\<lambda>a. a\<lparr>fa_worst_frame_ms := d_zero\<rparr>)]"

datatype frame_call = Sample double | Consume

fun call_stmts :: "frame_call \<Rightarrow> frame_stmt list" where
  "call_stmts (Sample ms) = sample_stmts ms"
| "call_stmts Consume = consume_stmts"

definition run_stmts :: "frame_stmt list \<Rightarrow> frame_stmt" where
  "run_stmts = fold (\<lambda>stmt s. stmt s)"

lemma sample_in_one: "isfinite ms \<Longrightarrow> \<not> d_le ms d_zero \<Longrightarrow> run_stmts (sample_stmts ms) (a, out) = (frame_sample ms a, out)"
  by (cases a) (simp add: run_stmts_def sample_stmts_def frame_sample_def)

lemma consume_in_one: "run_stmts consume_stmts (a, empty_snapshot) = (snd (frame_consume a), fst (frame_consume a))"
  by (cases a) (simp add: run_stmts_def consume_stmts_def frame_consume_def new_frame_acc_def empty_snapshot_def Let_def)

section \<open>The guard\<close>

text \<open>
  A thread is outside, spins on \<open>test_and_set\<close>, or is inside with statements left to run. Calls in the order they
  got the flag, and what they returned, are recorded.
\<close>

datatype phase = Outside | Spinning frame_call | Inside "frame_stmt list" frame_snapshot

record spin_state =
  sp_flag :: bool
  sp_acc :: frame_acc
  sp_threads :: "nat \<Rightarrow> phase"
  sp_order :: "frame_call list"
  sp_returned :: "frame_snapshot list"

definition counted :: "frame_call \<Rightarrow> bool" where
  "counted c \<longleftrightarrow> (case c of Sample ms \<Rightarrow> isfinite ms \<and> \<not> d_le ms d_zero | Consume \<Rightarrow> True)"

inductive spin_step :: "spin_state \<Rightarrow> spin_state \<Rightarrow> bool" where
  spin_enter: "sp_threads s k = Outside \<Longrightarrow> counted c \<Longrightarrow> spin_step s (s\<lparr>sp_threads := (sp_threads s)(k := Spinning c)\<rparr>)"
| spin_wait: "sp_threads s k = Spinning c \<Longrightarrow> sp_flag s \<Longrightarrow> spin_step s s"
| spin_acquire: "sp_threads s k = Spinning c \<Longrightarrow> \<not> sp_flag s \<Longrightarrow>
    spin_step s (s\<lparr>sp_flag := True, sp_threads := (sp_threads s)(k := Inside (call_stmts c) empty_snapshot),
                   sp_order := sp_order s @ [c]\<rparr>)"
| spin_stmt: "sp_threads s k = Inside (stmt # stmts) out \<Longrightarrow> stmt (sp_acc s, out) = (a, out') \<Longrightarrow>
    spin_step s (s\<lparr>sp_acc := a, sp_threads := (sp_threads s)(k := Inside stmts out')\<rparr>)"
| spin_release: "sp_threads s k = Inside [] out \<Longrightarrow>
    spin_step s (s\<lparr>sp_flag := False, sp_threads := (sp_threads s)(k := Outside), sp_returned := sp_returned s @ [out]\<rparr>)"

definition spin_start :: spin_state where
  "spin_start = \<lparr>sp_flag = False, sp_acc = new_frame_acc, sp_threads = (\<lambda>_. Outside), sp_order = [], sp_returned = []\<rparr>"

text \<open>The same calls one after the other.\<close>

fun frame_call_step :: "frame_call \<Rightarrow> frame_acc \<times> frame_snapshot list \<Rightarrow> frame_acc \<times> frame_snapshot list" where
  "frame_call_step (Sample ms) (a, outs) = (frame_sample ms a, outs @ [empty_snapshot])"
| "frame_call_step Consume (a, outs) = (snd (frame_consume a), outs @ [fst (frame_consume a)])"

definition in_sequence :: "frame_call list \<Rightarrow> frame_acc \<times> frame_snapshot list" where
  "in_sequence calls = fold frame_call_step calls (new_frame_acc, [])"

lemma call_in_one:
  "counted c \<Longrightarrow> run_stmts (call_stmts c) (a, empty_snapshot) = (a', out) \<Longrightarrow> frame_call_step c (a, outs) = (a', outs @ [out])"
  by (cases c) (auto simp: counted_def sample_in_one consume_in_one)

definition inside :: "phase \<Rightarrow> bool" where
  "inside ph \<longleftrightarrow> (case ph of Inside _ _ \<Rightarrow> True | _ \<Rightarrow> False)"

lemma inside_simps [simp]: "\<not> inside Outside" "\<not> inside (Spinning c)" "inside (Inside stmts out)"
  by (simp_all add: inside_def)

definition spin_ok :: "spin_state \<Rightarrow> bool" where
  "spin_ok s \<longleftrightarrow> (\<forall>k c. sp_threads s k = Spinning c \<longrightarrow> counted c) \<and>
    (if sp_flag s
     then \<exists>k stmts out a' out'. sp_threads s k = Inside stmts out \<and> (\<forall>j. inside (sp_threads s j) \<longrightarrow> j = k) \<and>
            run_stmts stmts (sp_acc s, out) = (a', out') \<and> in_sequence (sp_order s) = (a', sp_returned s @ [out'])
     else (\<forall>j. \<not> inside (sp_threads s j)) \<and> in_sequence (sp_order s) = (sp_acc s, sp_returned s))"

lemma spin_inside:
  assumes "spin_ok s" "sp_threads s k = Inside stmts out"
  shows "sp_flag s \<and> (\<forall>j. inside (sp_threads s j) \<longrightarrow> j = k) \<and>
    (\<exists>a' out'. run_stmts stmts (sp_acc s, out) = (a', out') \<and> in_sequence (sp_order s) = (a', sp_returned s @ [out']))"
proof -
  have "inside (sp_threads s k)" using assms(2) by simp
  with assms(1) have "sp_flag s" by (auto simp: spin_ok_def split: if_splits)
  with assms(1) obtain i stmts' o' a' out' where "sp_threads s i = Inside stmts' o'" "\<forall>j. inside (sp_threads s j) \<longrightarrow> j = i"
    "run_stmts stmts' (sp_acc s, o') = (a', out')" "in_sequence (sp_order s) = (a', sp_returned s @ [out'])"
    by (auto simp: spin_ok_def)
  moreover from this(2) have "i = k" using \<open>inside (sp_threads s k)\<close> by simp
  ultimately show ?thesis using assms(2) \<open>sp_flag s\<close> by auto
qed

lemma spin_step_ok: "spin_step s s' \<Longrightarrow> spin_ok s \<Longrightarrow> spin_ok s'"
proof (induction rule: spin_step.induct)
  case (spin_enter s k c)
  show ?case
  proof (cases "sp_flag s")
    case True
    with spin_enter(3) obtain j stmts out a' out' where j: "sp_threads s j = Inside stmts out"
      "\<forall>i. inside (sp_threads s i) \<longrightarrow> i = j" "run_stmts stmts (sp_acc s, out) = (a', out')"
      "in_sequence (sp_order s) = (a', sp_returned s @ [out'])"
      by (auto simp: spin_ok_def)
    with spin_enter(1) have "j \<noteq> k" by auto
    with j True spin_enter show ?thesis by (auto simp: spin_ok_def intro!: exI [of _ j])
  next
    case False
    with spin_enter show ?thesis by (auto simp: spin_ok_def)
  qed
next
  case (spin_wait s k c)
  then show ?case by simp
next
  case (spin_acquire s k c)
  obtain a' out' where run: "run_stmts (call_stmts c) (sp_acc s, empty_snapshot) = (a', out')" by force
  have "counted c" using spin_acquire by (auto simp: spin_ok_def)
  from call_in_one [OF this run] have "in_sequence (sp_order s @ [c]) = (a', sp_returned s @ [out'])"
    using spin_acquire by (simp add: spin_ok_def in_sequence_def)
  with spin_acquire run show ?case by (auto simp: spin_ok_def)
next
  case (spin_stmt s k stmt stmts out a out')
  from spin_inside [OF spin_stmt(3,1)] spin_stmt(2,3) show ?case
    by (auto simp: spin_ok_def run_stmts_def intro!: exI [of _ k])
next
  case (spin_release s k out)
  from spin_inside [OF spin_release(2,1)] spin_release(2) show ?case by (auto simp: spin_ok_def run_stmts_def)
qed

text \<open>
  The guard makes the calls atomic: at most one thread is inside, and whenever the flag is clear the accumulator
  and every snapshot handed out are those of the calls made one after the other in the order they got it.
\<close>

theorem guard_makes_atomic:
  assumes "spin_step\<^sup>*\<^sup>* spin_start s"
  shows "(inside (sp_threads s j) \<longrightarrow> inside (sp_threads s k) \<longrightarrow> j = k) \<and>
    (\<not> sp_flag s \<longrightarrow> in_sequence (sp_order s) = (sp_acc s, sp_returned s))"
proof -
  have "spin_ok s"
    using assms
  proof (induction rule: rtranclp_induct)
    case base
    show ?case by (simp add: spin_start_def spin_ok_def in_sequence_def)
  next
    case (step s s')
    then show ?case by (blast intro: spin_step_ok)
  qed
  then show ?thesis by (auto simp: spin_ok_def split: if_splits)
qed

end
