(* ===== verification/Spec2Isabelle.thy ===== *)
theory Spec2Isabelle
  imports Json_Safety Json_Number Signal_Race Transport Restart Shared_Calls Sdk_Log Spin_Lock
begin

text \<open>
  Verification library of the Tombstone native SDK, the C++ client under \<^verbatim>\<open>src/\<close> behind the C
  interface of \<^verbatim>\<open>include/tombstone/tombstone.h\<close>. Paths below are relative to the root of the
  repository. The programs that only use the SDK (tests, examples, engine bindings, build files) are
  outside the model.

  \<^bold>\<open>The program.\<close> A game calls the C interface (\<^verbatim>\<open>tombstone_api.cpp\<close>). Before \<open>tombstone_init\<close> the
  calls are kept in a bounded store (\<^verbatim>\<open>preinit.cpp\<close>); \<open>tombstone_init\<close> builds the one \<open>Client\<close>
  (\<^verbatim>\<open>client.cpp\<close>, \<^verbatim>\<open>client_reports.cpp\<close>) and replays the store into it. The client opens its data
  directory, claims the session marker (\<^verbatim>\<open>session_marker.cpp\<close>) and the session log
  (\<^verbatim>\<open>session_log.cpp\<close>), reads or derives its provisional identity (\<^verbatim>\<open>device_identity.cpp\<close>),
  installs the native crash handler (\<^verbatim>\<open>native_crash.cpp\<close>), reports the session that died, and
  restores the payloads kept on disk (\<^verbatim>\<open>sidecar_queue.cpp\<close>). Captures are cut to their limits and
  serialised (\<^verbatim>\<open>payloads.cpp\<close>, \<^verbatim>\<open>json_writer.cpp\<close>), thinned (\<^verbatim>\<open>dedupe.cpp\<close>, \<^verbatim>\<open>sampler.cpp\<close>),
  batched (\<^verbatim>\<open>batch.cpp\<close>) and queued for the worker thread (\<^verbatim>\<open>worker.cpp\<close>), which sends them
  through libcurl (\<^verbatim>\<open>transport_curl.cpp\<close>), retries (\<^verbatim>\<open>retry_after.cpp\<close>), persists, and reads the
  answers (\<^verbatim>\<open>json_scan.cpp\<close>). A second thread sends heartbeats; their acknowledgement settles what
  they carried and may ask for logs. No heartbeat and no batch leaves before the session gate opens
  (\<^verbatim>\<open>start_gate.h\<close>).

  \<^bold>\<open>Conventions.\<close> Strings are lists of characters below 256, a C string pointer is an option, files
  are a map from paths to strings with a set of locked paths. A class is a record and a method a
  function from the old state to the result and the new state; the fields of the client extend those
  of the worker, so that one state passes through both. A call to a clock, a random device or the
  environment is an argument (\<open>env\<close>, \<open>machine\<close>); libcurl is a function from requests to
  transfers. The word types keep their width (\<open>32 word\<close> and \<open>64 word\<close> in SHA-256, FNV-1a and the
  crash table); \<open>double\<close> is IEEE binary64 written out on integers. A call of the C interface is taken as one
  step, and so is each locked section of the worker and of the heartbeat thread; between them
  everything interleaves. Two refinements look inside a call: in the runs of \<open>Delivery\<close> its single
  writes and enqueues interleave with the worker, and in \<open>Shared_Client\<close> calls overlap, each acting outside
  the global mutex on its own copy of the shared pointer.
\<close>

text \<open>
  \<^bold>\<open>Components.\<close> Each theory holds the definitions of one source file, in its order, and the lemmas
  about them.

  \<^item> \<open>Tomb_Prelude\<close>: bytes, C strings, decimal and hexadecimal text, the collections of simplification
    facts, the locale \<open>drop_oldest\<close> of bounded buffers. \<open>Ieee_Double\<close>: \<open>double\<close> and \<open>%.17g\<close>.
    \<open>File_System\<close>: files and the locale \<open>file_store\<close> of put, get and delete.
  \<^item> \<open>Json_Writer\<close>, \<open>Json_Scan\<close>: the streaming writer and the forward scanners. \<open>Json_Roundtrip\<close> says how the
    scanners read what the writer wrote, \<open>Json_Safety\<close> and \<open>Json_Number\<close> the properties that follow.
  \<^item> \<open>Signature\<close> (SHA-256, HMAC, crash signatures; locale \<open>block_hash\<close> for HMAC over any hash with the
    bounds it needs), \<open>Device_Identity\<close>, \<open>Clock\<close>, \<open>Retry_After\<close>, \<open>Sampler\<close>, \<open>Dedupe\<close>, \<open>Start_Gate\<close>,
    \<open>Frame_Stats\<close>, \<open>Breadcrumb_Ring\<close>, \<open>Batch\<close>, \<open>Platform\<close>, \<open>Sdk_Log\<close>: one class or function group each.
    \<open>Spin_Lock\<close> runs the methods of the frame accumulator statement by statement under their spin guard.
  \<^item> \<open>Session_Marker\<close>, \<open>Session_Log\<close>, \<open>Sidecar_Queue\<close>: what is on disk.
  \<^item> \<open>Native_Crash\<close>: the module table built at install time, the dump the signal handler writes, and its
    reader; \<open>Native_Crash_Roundtrip\<close> composes the three. \<open>Signal_Race\<close> runs the handler chunk by chunk, with
    signals arriving on several threads and with writes that fail, after which the chunk is given up and the
    next one written.
  \<^item> \<open>Payloads\<close>: the wire bodies and the limits of every field.
  \<^item> \<open>Worker\<close>: queue, retry, answer handling, stop. \<open>Transport\<close>: requests and transfers, with every
    allocation the code checks free to fail.
  \<^item> \<open>Carry\<close>: what rides on heartbeats until it is acknowledged (previous user id, user metadata, device),
    each an interpretation of the locale \<open>carry_until_acked\<close>.
  \<^item> \<open>Client\<close>: state and capture methods; \<open>Lifecycle\<close>: context, consent, heartbeats, acknowledgements, start
    and end. \<open>Heartbeat\<close>: the heartbeat thread lock by lock, and what a login between two locks does.
    \<open>Preinit\<close>, \<open>Tombstone_Api\<close>: the store before \<open>tombstone_init\<close> and the entry points. \<open>Shared_Client\<close>: who owns
    the client while calls overlap.

  \<^bold>\<open>Composition.\<close> \<open>Delivery\<close> abstracts the worker and its surroundings to a transition system: events
  that add jobs or change files, and the worker's steps, with the job it holds between taking it and
  the answer. \<open>Sdk\<close> shows of every client operation that its effect on the queue, log and disk is a
  list of such events (\<open>moves\<close>), and states in the locale \<open>delivery_client\<close> what a client of the
  worker has to keep; its interpretation \<open>client_worker\<close> discharges that for the callbacks the code
  installs. \<open>Sdk_Run\<close> lifts this to runs in which calls, heartbeats and worker steps interleave freely:
  each is a run of \<open>Delivery\<close>, so that the bounds, durability and order proved there hold of the whole;
  \<open>Resend_Bound\<close> counts there how often a job is sent.
  \<open>Sdk_Session\<close> is about several launches on one data directory, \<open>Sdk_Process\<close> about the C interface,
  \<open>Shared_Client\<close> refines the process to a store of clients with references, \<open>Shared_Calls\<close> lets the SDK's
  operations overlap on them, and \<open>Restart\<close> is about what a shutdown and a second start in one process
  leave behind.
\<close>

text \<open>
  \<^bold>\<open>What is shown.\<close>

  \<^item> Durability: an accepted crash or bug report is on disk until it is answered for good; a transient
    failure keeps job and file; the leftovers of a shutdown are persisted; the queue, its attempts, the
    sends of each job and the files per kind are bounded; the queue settles in a stated number of rounds.
  \<^item> Sessions: a dead session is recovered with its own data and reported once; after a clean
    shutdown the next launch queues exactly what is in the sidecar files; the identity survives restarts.
  \<^item> Consent and gate: what each of them stops, over every interleaved run.
  \<^item> Concurrency: a client lives exactly while something refers to it, and calls that do not overlap are those
    of the process model; the spin guard and the heartbeat's sections make larger steps; one signal
    owns the crash dump, whole chunks of which may be missing when writes fail.
  \<^item> Equivalences: the ring is the last 64 records, the replayed store is the first 128 live calls, the
    streaming hash pads as the standard says, the dedupe window and the batch drain have references.
  \<^item> Round trips: JSON strings and fields, timestamps, the crash dump, the payloads on disk.
  \<^item> Error behaviour: what the code does where a comment says something else (the last properties, and
    the theorems named in the findings).

  \<^bold>\<open>Loops.\<close> Every loop of the code is a total function: structural recursion on the bytes or items
  that are left, or a measure on the index; none needs fuel. The bound on the rounds
  in which a queue settles is ten for each queued job: five attempts of the job and five of the log
  upload its answer may ask for.

  \<^bold>\<open>Interfaces.\<close> \<open>drop_oldest\<close> is interpreted on the ring, the batch, the worker's queue and the store
  before init; \<open>file_store\<close> on the model disk; \<open>carry_until_acked\<close> three times in \<open>Carry\<close>; \<open>block_hash\<close> on
  SHA-256; \<open>delivery_client\<close> on the client.

  \<^bold>\<open>Not modelled.\<close> The texts the components hand to the SDK log; exceptions and the catch blocks around
  them; starting and joining threads and waiting on condition variables (a wait is a step that may end
  at any time); libcurl and the operating system's loader lists and signal contexts, which are
  arguments; the crash handler on systems with 32-bit addresses and its empty stub elsewhere.
\<close>

end
